(* ===== verification/Prelude.thy ===== *)
theory Prelude
  imports Main "HOL-Library.Word" "HOL-Library.Monad_Syntax" "HOL-Library.Product_Lexorder"
begin

text \<open>
  Shared vocabulary of the development: the machine integers of the Rust code as words,
  byte buffers, the panicking slice operations, little- and big-endian encodings and the
  generic lemmas on lists, words and bits that the component theories use.

  Arithmetic is that of the release profile on a 64-bit target: \<open>u64\<close>/\<open>usize\<close> addition,
  subtraction and multiplication wrap, \<open>as\<close> casts truncate or extend, and \<open>usize\<close> is 64 bits
  wide. A computation that can panic (a slice index out of range) has an \<open>option\<close> type and
  \<open>None\<close> is the panic.
\<close>

unbundle bit_operations_syntax

section \<open>Types\<close>

type_synonym u8 = "8 word"
type_synonym u16 = "16 word"
type_synonym u32 = "32 word"
type_synonym u64 = "64 word"
type_synonym i32 = "32 word"  \<comment> \<open>two's complement, read by \<open>sint\<close>\<close>
type_synonym i64 = "64 word"
type_synonym usize = "64 word"
type_synonym bytes = "u8 list"
type_synonym fname = string
type_synonym ival = "u64 \<times> u64"

text \<open>Collections: evaluation rules for the panicking slices; facts that turn literal bit masks
  into \<open>mask\<close> and \<open>push_bit\<close>; the bit characterisations of the encodings.\<close>

named_theorems slice_simps
named_theorems mask_lits
named_theorems field_bits

section \<open>Integer operations of the standard library\<close>

definition sat_add :: "u64 \<Rightarrow> u64 \<Rightarrow> u64" where
  "sat_add a b = (if unat a + unat b < 2 ^ 64 then a + b else - 1)"

definition sat_sub :: "u64 \<Rightarrow> u64 \<Rightarrow> u64" where
  "sat_sub a b = (if b \<le> a then a - b else 0)"

definition checked_add :: "u64 \<Rightarrow> u64 \<Rightarrow> u64 option" where
  "checked_add a b = (if unat a + unat b < 2 ^ 64 then Some (a + b) else None)"

text \<open>Arithmetic shift right of an \<open>i64\<close>, and division of an \<open>i64\<close> by a constant, which
  truncates towards zero.\<close>

definition sar :: "i64 \<Rightarrow> nat \<Rightarrow> i64" where
  "sar x n = signed_drop_bit n x"

definition tdiv :: "i64 \<Rightarrow> int \<Rightarrow> i64" where
  "tdiv x n = word_of_int (sgn (sint x) * sgn n * (\<bar>sint x\<bar> div \<bar>n\<bar>))"

lemma unat_lt64 [simp]: "unat (a::64 word) < 18446744073709551616"
  using unsigned_less [of a] by simp

lemma lt64I: "n \<le> unat (a::64 word) \<Longrightarrow> n < 18446744073709551616"
  by (rule order.strict_trans1 [OF _ unat_lt64])

lemma unat_sat_add: "unat (sat_add a b) = min (unat a + unat b) (2 ^ 64 - 1)"
proof (cases "unat a + unat b < 2 ^ 64")
  case True
  then show ?thesis by (simp add: sat_add_def unat_word_ariths)
next
  case False
  then show ?thesis by (simp add: sat_add_def unsigned_minus_1_eq_mask mask_eq_exp_minus_1)
qed

lemma unat_sat_sub [simp]: "unat (sat_sub a b) = unat a - unat b"
  by (auto simp: sat_sub_def unat_sub word_le_nat_alt)

lemma checked_add_Some:
  "checked_add a b = Some c \<longleftrightarrow> unat c = unat a + unat b"
  by (auto simp: checked_add_def unat_word_ariths word_unat_eq_iff dest: sym)

lemma unat_add_le:
  fixes a b :: "64 word"
  assumes "unat a + unat b < 2 ^ 64"
  shows "unat (a + b) = unat a + unat b"
  using assms by (simp add: unat_word_ariths)

section \<open>Slices\<close>

definition data_len :: "bytes \<Rightarrow> usize" where
  "data_len d = of_nat (length d)"

text \<open>Every Rust buffer is at most \<open>isize::MAX\<close> bytes long.\<close>

definition vec_ok :: "bytes \<Rightarrow> bool" where
  "vec_ok d \<longleftrightarrow> length d < 2 ^ 63"

text \<open>\<open>d[a..b]\<close>, where \<open>None\<close> is the panic, and also \<open>d.get(a..b)\<close>, where it is the value.\<close>

definition slice_get :: "bytes \<Rightarrow> usize \<Rightarrow> usize \<Rightarrow> bytes option" where
  "slice_get d a b =
     (if a \<le> b \<and> unat b \<le> length d then Some (take (unat b - unat a) (drop (unat a) d))
      else None)"

definition splice_at :: "bytes \<Rightarrow> nat \<Rightarrow> bytes \<Rightarrow> bytes" where
  "splice_at d i bs = take i d @ bs @ drop (i + length bs) d"

text \<open>\<open>d[a..a + n].copy_from_slice(bs)\<close> for a buffer \<open>bs\<close> of \<open>n\<close> bytes.\<close>

definition slice_put :: "bytes \<Rightarrow> usize \<Rightarrow> bytes \<Rightarrow> bytes option" where
  "slice_put d a bs =
     (let b = a + of_nat (length bs)
      in if a \<le> b \<and> unat b \<le> length d then Some (splice_at d (unat a) bs) else None)"

lemma vec_ok_unat: "vec_ok d \<Longrightarrow> unat (data_len d) = length d"
  by (simp add: vec_ok_def data_len_def unat_of_nat)

lemma length_splice [simp]: "i + length bs \<le> length d \<Longrightarrow> length (splice_at d i bs) = length d"
  by (simp add: splice_at_def)

lemma nth_splice:
  assumes "i + length bs \<le> length d" and "k < length d"
  shows "splice_at d i bs ! k =
    (if i \<le> k \<and> k < i + length bs then bs ! (k - i) else d ! k)"
  using assms by (auto simp: splice_at_def nth_append min_def)

lemma take_drop_splice:
  "i + length bs \<le> length d \<Longrightarrow> take (length bs) (drop i (splice_at d i bs)) = bs"
  by (simp add: splice_at_def)

lemma take_drop_cong:
  assumes "length d' = length d" and "\<And>k. i \<le> k \<Longrightarrow> k < i + n \<Longrightarrow> k < length d \<Longrightarrow> d' ! k = d ! k"
  shows "take n (drop i d') = take n (drop i d)"
  using assms by (intro nth_equalityI) auto

lemma slice_get_length: "slice_get d a b = Some bs \<Longrightarrow> length bs = unat b - unat a"
  by (auto simp: slice_get_def word_le_nat_alt split: if_splits)

lemma slice_get_nth:
  assumes "slice_get d a b = Some bs" and "k < unat b - unat a"
  shows "bs ! k = d ! (unat a + k)"
  using assms by (auto simp: slice_get_def split: if_splits)

lemma slice_put_Some:
  assumes "slice_put d a bs = Some d'" and "length bs < 2 ^ 64"
  shows "unat a + length bs \<le> length d" and "d' = splice_at d (unat a) bs"
    and "length d' = length d"
proof -
  have le: "a \<le> a + of_nat (length bs)" and len: "unat (a + of_nat (length bs)) \<le> length d"
    and d': "d' = splice_at d (unat a) bs"
    using assms(1) by (auto simp: slice_put_def Let_def split: if_splits)
  have "unat (of_nat (length bs) :: 64 word) = length bs"
    using assms(2) by (simp add: unat_of_nat)
  with le have "unat (a + of_nat (length bs)) = unat a + length bs"
    using no_olen_add_nat [of a "of_nat (length bs)"] by (simp add: unat_add_le)
  with len show 1: "unat a + length bs \<le> length d" by simp
  show "d' = splice_at d (unat a) bs" by (rule d')
  with 1 show "length d' = length d" by simp
qed

lemma slice_put_ok:
  assumes "unat a + length bs \<le> length d" and "vec_ok d"
  shows "slice_put d a bs = Some (splice_at d (unat a) bs)"
proof -
  have l: "unat (of_nat (length bs) :: 64 word) = length bs"
    using assms by (simp add: unat_of_nat vec_ok_def)
  then have "unat (a + of_nat (length bs)) = unat a + length bs"
    using assms by (subst unat_add_le) (auto simp: vec_ok_def)
  then show ?thesis
    using assms by (simp add: slice_put_def word_le_nat_alt)
qed

section \<open>Endianness\<close>

definition to_le :: "nat \<Rightarrow> 'a::len word \<Rightarrow> bytes" where
  "to_le n w = map (\<lambda>i. ucast (drop_bit (8 * i) w)) [0..<n]"

fun from_le :: "bytes \<Rightarrow> 'a::len word" where
  "from_le [] = 0"
| "from_le (b # bs) = ucast b OR push_bit 8 (from_le bs)"

definition to_be :: "nat \<Rightarrow> 'a::len word \<Rightarrow> bytes" where
  "to_be n w = rev (to_le n w)"

definition from_be :: "bytes \<Rightarrow> 'a::len word" where
  "from_be bs = from_le (rev bs)"

lemma length_to_le [simp]: "length (to_le n w) = n"
  by (simp add: to_le_def)

lemma length_to_be [simp]: "length (to_be n w) = n"
  by (simp add: to_be_def)

lemma bit_from_le:
  "bit (from_le bs :: 'a::len word) k \<longleftrightarrow>
     k < LENGTH('a) \<and> k div 8 < length bs \<and> bit (bs ! (k div 8)) (k mod 8)"
proof (induction bs arbitrary: k)
  case Nil
  show ?case by simp
next
  case (Cons b bs)
  have high: "\<not> bit b k" if "8 \<le> k"
    using that bit_imp_le_length [of b k] by fastforce
  show ?case
  proof (cases "k < 8")
    case True
    then show ?thesis by (auto simp: bit_simps Cons.IH)
  next
    case False
    then have "k div 8 = Suc ((k - 8) div 8)" and "(k - 8) mod 8 = k mod 8"
      by (simp_all add: le_div_geq le_mod_geq)
    with False high show ?thesis by (auto simp: bit_simps Cons.IH)
  qed
qed

lemma from_le_to_le:
  fixes w :: "'a::len word"
  assumes "LENGTH('a) \<le> 8 * n"
  shows "from_le (to_le n w) = w"
proof (rule bit_word_eqI)
  fix k assume "k < LENGTH('a)"
  with assms have "k div 8 < n" by (simp add: less_mult_imp_div_less mult.commute)
  then show "bit (from_le (to_le n w) :: 'a word) k = bit w k"
    using \<open>k < LENGTH('a)\<close> by (simp add: bit_from_le to_le_def bit_simps)
qed

lemma from_be_to_be:
  fixes w :: "'a::len word"
  assumes "LENGTH('a) \<le> 8 * n"
  shows "from_be (to_be n w) = w"
  using assms by (simp add: from_be_def to_be_def from_le_to_le)

lemma to_le_from_le:
  assumes "8 * n \<le> LENGTH('a)" and "length bs = n"
  shows "to_le n (from_le bs :: 'a::len word) = bs"
proof (rule nth_equalityI)
  show "length (to_le n (from_le bs :: 'a word)) = length bs" using assms by simp
next
  fix i assume "i < length (to_le n (from_le bs :: 'a word))"
  then have i: "i < n" by simp
  show "to_le n (from_le bs :: 'a word) ! i = bs ! i"
  proof (rule bit_word_eqI)
    fix k assume k: "k < LENGTH(8)"
    have "8 * i + k < LENGTH('a)" using i k assms(1) by simp
    then show "bit (to_le n (from_le bs :: 'a word) ! i) k = bit (bs ! i) k"
      using i k assms(2) by (simp add: to_le_def bit_simps bit_from_le)
  qed
qed

lemma to_be_from_be:
  assumes "8 * n \<le> LENGTH('a)" and "length bs = n"
  shows "to_be n (from_be bs :: 'a::len word) = bs"
  using assms by (simp add: to_be_def from_be_def to_le_from_le)

section \<open>Words as intervals of numbers\<close>

lemma card_word_ivl: "card {a..<b} = unat b - unat (a::'a::len word)"
proof -
  have lt: "unat b < 2 ^ LENGTH('a)" by (fact unsigned_less)
  have rt: "unat (of_nat n :: 'a word) = n" if "n < unat b" for n
    using less_trans [OF that lt] by (simp add: unat_of_nat)
  have "bij_betw unat {a..<b} {unat a..<unat b}"
    by (rule bij_betw_byWitness [where f' = of_nat])
      (auto simp: rt word_le_nat_alt word_less_nat_alt)
  then show ?thesis by (auto dest: bij_betw_same_card)
qed

end
