(* ===== verification/Types.thy ===== *)
theory Types
  imports Prelude
begin

text \<open>
  \<open>src/types.rs\<close>: architectures, byte order, decoded instructions, sections and the two
  pointer accessors. A \<open>HashMap\<close> is the list of its entries in iteration order (which the
  program never relies on), with distinct keys; a \<open>Vec\<close> is a list.
\<close>

section \<open>Data\<close>

datatype arch =
  X86_64 | X86_32 | Aarch64 | Arm32 | RiscV64 | RiscV32 | Mips32 | Mips64 | S390x | LoongArch64

datatype endian = Little | Big

record func_info =
  fi_addr :: u64
  fi_size :: u64
  is_global :: bool

datatype flow_type =
  Normal | Call | UnconditionalBranch | ConditionalBranch | Return | Halt
  | IndirectBranch | IndirectCall

definition falls_through :: "flow_type \<Rightarrow> bool" where
  "falls_through f \<longleftrightarrow> f \<notin> {Return, UnconditionalBranch, IndirectBranch, Halt}"

record decoded_instr =
  i_addr :: u64
  raw :: bytes
  i_len :: nat
  targets :: "u64 list"
  pc_rel_target :: "u64 option"
  is_call :: bool
  flow :: flow_type

record sect =
  s_name :: string
  s_size :: u64
  s_vaddr :: u64
  s_offset :: u64
  s_align :: u64

type_synonym func_map = "(fname \<times> func_info) list"
type_synonym ref_graph = "(fname \<times> fname list) list"

text \<open>The dead map of the analysis: name, address, size.\<close>

type_synonym dead_map = "(fname \<times> (u64 \<times> u64)) list"

definition find_section :: "string \<Rightarrow> sect list \<Rightarrow> sect option" where
  "find_section n sections = find (\<lambda>s. s_name s = n) sections"

section \<open>Operations\<close>

fun vaddr_to_offset :: "u64 \<Rightarrow> sect list \<Rightarrow> u64 option" where
  "vaddr_to_offset vaddr [] = None"
| "vaddr_to_offset vaddr (s # sections) =
     (if s_vaddr s \<le> vaddr \<and> vaddr < s_vaddr s + s_size s
      then Some (s_offset s + (vaddr - s_vaddr s))
      else vaddr_to_offset vaddr sections)"

definition read_ptr :: "bytes \<Rightarrow> usize \<Rightarrow> bool \<Rightarrow> endian \<Rightarrow> u64 option" where
  "read_ptr data off is64 endian =
     (if is64 then do {
        b \<leftarrow> slice_get data off (off + 8);
        Some (case endian of Little \<Rightarrow> from_le b | Big \<Rightarrow> from_be b)
      } else do {
        b \<leftarrow> slice_get data off (off + 4);
        Some (ucast (case endian of Little \<Rightarrow> from_le b :: u32 | Big \<Rightarrow> from_be b))
      })"

definition ptr_bytes :: "u64 \<Rightarrow> bool \<Rightarrow> endian \<Rightarrow> bytes" where
  "ptr_bytes val is64 endian =
     (if is64 then (case endian of Little \<Rightarrow> to_le 8 val | Big \<Rightarrow> to_be 8 val)
      else (case endian of Little \<Rightarrow> to_le 4 (ucast val :: u32) | Big \<Rightarrow> to_be 4 (ucast val :: u32)))"

definition write_ptr :: "bytes \<Rightarrow> usize \<Rightarrow> u64 \<Rightarrow> bool \<Rightarrow> endian \<Rightarrow> bytes option" where
  "write_ptr data off val is64 endian = slice_put data off (ptr_bytes val is64 endian)"

definition ptr_size :: "bool \<Rightarrow> nat" where
  "ptr_size is64 = (if is64 then 8 else 4)"

section \<open>Facts\<close>

lemma ptr_size_cases: "ptr_size is64 = 8 \<and> is64 \<or> ptr_size is64 = 4 \<and> \<not> is64"
  by (simp add: ptr_size_def)

lemma length_ptr_bytes [simp]: "length (ptr_bytes val is64 endian) = ptr_size is64"
  by (simp add: ptr_bytes_def ptr_size_def split: endian.split)

text \<open>The value read is a function of the bytes of the slot alone.\<close>

definition ptr_value :: "bytes \<Rightarrow> bool \<Rightarrow> endian \<Rightarrow> u64" where
  "ptr_value b is64 endian =
     (if is64 then (case endian of Little \<Rightarrow> from_le b | Big \<Rightarrow> from_be b)
      else ucast (case endian of Little \<Rightarrow> from_le b :: u32 | Big \<Rightarrow> from_be b))"

lemma slice_get_add:
  assumes "unat off + n \<le> length data" and "vec_ok data"
  shows "slice_get data off (off + of_nat n) = Some (take n (drop (unat off) data))"
proof -
  have "unat (of_nat n :: 64 word) = n" using assms by (simp add: unat_of_nat vec_ok_def)
  then have "unat (off + of_nat n) = unat off + n"
    using assms by (subst unat_add_le) (auto simp: vec_ok_def)
  then show ?thesis using assms by (simp add: slice_get_def word_le_nat_alt)
qed

lemma slice_get_add_panic:
  assumes "length data < unat off + n" and "n < 2 ^ 63"
  shows "slice_get data off (off + of_nat n) = None"
proof (rule ccontr)
  assume "slice_get data off (off + of_nat n) \<noteq> None"
  then have le: "off \<le> off + of_nat n" and len: "unat (off + of_nat n) \<le> length data"
    by (auto simp: slice_get_def split: if_splits)
  have "unat (of_nat n :: 64 word) = n" using assms by (simp add: unat_of_nat)
  with le have "unat (off + of_nat n) = unat off + n"
    using no_olen_add_nat [of off "of_nat n"] by (simp add: unat_add_le)
  with len assms show False by simp
qed

lemma read_ptr_eq:
  assumes "unat off + ptr_size is64 \<le> length data" and "vec_ok data"
  shows "read_ptr data off is64 endian =
    Some (ptr_value (take (ptr_size is64) (drop (unat off) data)) is64 endian)"
  using slice_get_add [OF assms]
  by (auto simp: read_ptr_def ptr_value_def ptr_size_def split: if_splits)

lemma read_ptr_Some:
  assumes "read_ptr data off is64 endian = Some v"
  shows "unat off + ptr_size is64 \<le> length data"
proof (rule ccontr)
  assume "\<not> unat off + ptr_size is64 \<le> length data"
  then have "slice_get data off (off + of_nat (ptr_size is64)) = None"
    by (intro slice_get_add_panic) (auto simp: ptr_size_def)
  with assms show False by (auto simp: read_ptr_def ptr_size_def split: if_splits)
qed

lemma ptr_value_bytes:
  "ptr_value (ptr_bytes val is64 endian) is64 endian =
     (if is64 then val else take_bit 32 val)"
proof (cases is64)
  case True
  then show ?thesis
    by (auto simp: ptr_value_def ptr_bytes_def from_le_to_le from_be_to_be split: endian.split)
next
  case False
  have "ucast (ucast val :: u32) = take_bit 32 (val :: u64)"
    by (rule bit_word_eqI) (auto simp: bit_simps)
  with False show ?thesis
    by (auto simp: ptr_value_def ptr_bytes_def from_le_to_le from_be_to_be split: endian.split)
qed

lemma write_ptr_ok:
  assumes "unat off + ptr_size is64 \<le> length data" and "vec_ok data"
  shows "write_ptr data off val is64 endian =
    Some (splice_at data (unat off) (ptr_bytes val is64 endian))"
  using assms by (simp add: write_ptr_def slice_put_ok)

lemma write_ptr_Some:
  assumes "write_ptr data off val is64 endian = Some data'"
  shows "unat off + ptr_size is64 \<le> length data"
    and "data' = splice_at data (unat off) (ptr_bytes val is64 endian)"
    and "length data' = length data"
  using slice_put_Some [OF assms [unfolded write_ptr_def]] by (auto simp: ptr_size_def)

text \<open>C30. A pointer that is written is read back: all of its value for an 8-byte slot, its low
  32 bits for a 4-byte one, in either byte order, and no other byte of the buffer changes.\<close>

theorem read_write_ptr:
  assumes "vec_ok data" and "write_ptr data off val is64 endian = Some data'"
  shows "read_ptr data' off is64 endian = Some (if is64 then val else take_bit 32 val)
    \<and> length data' = length data
    \<and> (\<forall>k. k < unat off \<or> unat off + ptr_size is64 \<le> k \<longrightarrow> k < length data \<longrightarrow> data' ! k = data ! k)"
proof -
  note w = write_ptr_Some [OF assms(2)]
  have "read_ptr data' off is64 endian =
      Some (ptr_value (take (ptr_size is64) (drop (unat off) data')) is64 endian)"
    using w assms(1) by (intro read_ptr_eq) (auto simp: vec_ok_def)
  moreover have "take (ptr_size is64) (drop (unat off) data') = ptr_bytes val is64 endian"
    using take_drop_splice [of "unat off" "ptr_bytes val is64 endian" data] w by simp
  ultimately show ?thesis using w by (auto simp: ptr_value_bytes nth_splice)
qed

theorem read_write_ptr_witness:
  "read_ptr [0, 0x34, 0x12, 0, 0] 1 False Little = Some 0x1234
   \<and> write_ptr [0, 0, 0, 0, 0] 1 0x1234 False Little = Some [0, 0x34, 0x12, 0, 0]"
proof -
  have w: "write_ptr [0, 0, 0, 0, 0] 1 0x1234 False Little = Some [0, 0x34, 0x12, 0, 0]"
    by code_simp
  then show ?thesis using read_write_ptr [OF _ w] by (simp add: vec_ok_def take_bit_word_eq_self)
qed

end
