(* ===== verification/Intervals.thy ===== *)
theory Intervals
  imports Types
begin

text \<open>
  \<open>src/patch/relocs.rs\<close>: sorted dead intervals, the shift of an address, the page-aligned
  shrink, merging and defragmentation. The abstraction \<open>dead_set\<close> reads an interval list as
  the set of dead addresses; the shift of an address is then the number of dead addresses
  below it, which is what the rest of the development rests on.
\<close>

section \<open>The code\<close>

record dead_block =
  db_func :: fname
  db_addr :: u64
  db_size :: u64

definition dead_intervals :: "dead_map \<Rightarrow> ival list" where
  "dead_intervals dead = sort (map (\<lambda>(_, a, s). (a, sat_add a s)) dead)"

definition block_intervals :: "dead_block list \<Rightarrow> ival list" where
  "block_intervals blocks = sort (map (\<lambda>b. (db_addr b, sat_add (db_addr b) (db_size b))) blocks)"

text \<open>The loop of \<open>merge_intervals\<close>; the vector being built is kept reversed, so that its
  \<open>last_mut\<close> is the head.\<close>

fun merge_into :: "ival list \<Rightarrow> ival list \<Rightarrow> ival list" where
  "merge_into acc [] = rev acc"
| "merge_into [] (iv # rest) = merge_into [iv] rest"
| "merge_into ((ls, le) # acc) ((s, e) # rest) =
     (if s \<le> le then merge_into ((ls, max le e) # acc) rest
      else merge_into ((s, e) # (ls, le) # acc) rest)"

definition merge_intervals :: "ival list \<Rightarrow> ival list" where
  "merge_intervals ivs = (if ivs = [] then [] else merge_into [] (sort ivs))"

definition combine_intervals :: "ival list \<Rightarrow> ival list \<Rightarrow> ival list" where
  "combine_intervals a b = merge_intervals (a @ b)"

definition shift_at :: "u64 \<Rightarrow> ival list \<Rightarrow> u64" where
  "shift_at addr ivs =
     foldl (\<lambda>total (start, end). if start < addr then total + sat_sub (min end addr) start else total)
       0 ivs"

definition in_dead_range :: "u64 \<Rightarrow> ival list \<Rightarrow> bool" where
  "in_dead_range addr ivs \<longleftrightarrow> list_ex (\<lambda>(start, end). start \<le> addr \<and> addr < end) ivs"

definition PAGE_SIZE :: u64 where
  "PAGE_SIZE = 4096"

definition total_dead :: "ival list \<Rightarrow> u64" where
  "total_dead ivs = sum_list (map (\<lambda>(s, e). sat_sub e s) ivs)"

definition page_shrink :: "ival list \<Rightarrow> u64" where
  "page_shrink ivs = (total_dead ivs div PAGE_SIZE) * PAGE_SIZE"

definition total_shift :: "u64 \<Rightarrow> ival list \<Rightarrow> u64 \<Rightarrow> u64 \<Rightarrow> u64" where
  "total_shift addr ivs ts te =
     (if addr < ts then 0 else if addr < te then shift_at addr ivs else page_shrink ivs)"

section \<open>Dead sets\<close>

definition dead_set :: "ival list \<Rightarrow> u64 set" where
  "dead_set ivs = (\<Union>(s, e) \<in> set ivs. {s..<e})"

text \<open>The consistency check of the compaction: sorted, disjoint, inside \<open>[lo, hi]\<close>.\<close>

fun chain :: "u64 \<Rightarrow> ival list \<Rightarrow> u64 \<Rightarrow> bool" where
  "chain lo [] hi \<longleftrightarrow> lo \<le> hi"
| "chain lo ((s, e) # ivs) hi \<longleftrightarrow> lo \<le> s \<and> s \<le> e \<and> chain e ivs hi"

definition dead_below :: "u64 \<Rightarrow> ival list \<Rightarrow> u64 set" where
  "dead_below a ivs = {x \<in> dead_set ivs. x < a}"

lemma dead_set_simps [simp]:
  "dead_set [] = {}" "dead_set ((s, e) # ivs) = {s..<e} \<union> dead_set ivs"
  "dead_set (xs @ ys) = dead_set xs \<union> dead_set ys" "dead_set (rev xs) = dead_set xs"
  by (auto simp: dead_set_def)

lemma finite_dead [simp]: "finite (dead_set ivs)" "finite (dead_below a ivs)"
  by (rule finite)+

lemma in_dead_range_iff: "in_dead_range a ivs \<longleftrightarrow> a \<in> dead_set ivs"
  by (fastforce simp: in_dead_range_def dead_set_def list_ex_iff)

lemma chain_le: "chain lo ivs hi \<Longrightarrow> lo \<le> hi"
  by (induction lo ivs hi rule: chain.induct) auto

lemma chain_weaken: "chain lo ivs hi \<Longrightarrow> lo' \<le> lo \<Longrightarrow> chain lo' ivs hi"
  by (cases ivs) auto

lemma chain_set: "chain lo ivs hi \<Longrightarrow> dead_set ivs \<subseteq> {lo..<hi}"
proof (induction lo ivs hi rule: chain.induct)
  case (2 lo s e ivs hi)
  then have "dead_set ivs \<subseteq> {e..<hi}" and "e \<le> hi" by (auto dest: chain_le)
  moreover have "lo \<le> s" and "s \<le> e" using 2 by auto
  ultimately show ?case by (auto simp: subset_iff)
qed simp

lemma chain_wf: "chain lo ivs hi \<Longrightarrow> (s, e) \<in> set ivs \<Longrightarrow> lo \<le> s \<and> s \<le> e \<and> e \<le> hi"
proof (induction lo ivs hi rule: chain.induct)
  case (2 lo s' e' ivs hi)
  then show ?case by (auto dest: chain_le)
qed simp

section \<open>The shift of an address counts the dead addresses below it\<close>

lemma sat_sub_min: "unat (sat_sub (min e a) s) = card ({s..<e} \<inter> {..<a})"
proof -
  have "{s..<e} \<inter> {..<a} = {s..<min e a}" by auto
  then show ?thesis by (simp add: card_word_ivl)
qed

lemma shift_at_foldl:
  "foldl (\<lambda>t (s, e). if s < a then t + sat_sub (min e a) s else t) t ivs
     = t + of_nat (\<Sum>(s, e)\<leftarrow>ivs. card ({s..<e} \<inter> {..<a}))"
proof (induction ivs arbitrary: t)
  case (Cons iv ivs)
  obtain s e where iv: "iv = (s, e)" by (cases iv)
  have "of_nat (card ({s..<e} \<inter> {..<a})) = sat_sub (min e a) s"
    by (simp add: sat_sub_min [symmetric] del: unat_sat_sub)
  moreover have "\<not> s < a \<Longrightarrow> {s..<e} \<inter> {..<a} = {}" by auto
  ultimately show ?case by (auto simp: iv Cons.IH)
qed simp

lemma shift_at_sum: "shift_at a ivs = of_nat (\<Sum>(s, e)\<leftarrow>ivs. card ({s..<e} \<inter> {..<a}))"
  using shift_at_foldl [of a 0 ivs] by (simp add: shift_at_def)

lemma total_dead_sum: "total_dead ivs = of_nat (\<Sum>(s, e)\<leftarrow>ivs. card {s..<e})"
proof (induction ivs)
  case (Cons iv ivs)
  obtain s e where iv: "iv = (s, e)" by (cases iv)
  have "of_nat (card {s..<e}) = sat_sub e s"
    by (simp add: card_word_ivl flip: unat_sat_sub)
  with Cons show ?case by (simp add: iv total_dead_def)
qed (simp add: total_dead_def)

lemma chain_sum_card:
  "chain lo ivs hi \<Longrightarrow> (\<Sum>(s, e)\<leftarrow>ivs. card ({s..<e} \<inter> A)) = card (dead_set ivs \<inter> A)"
proof (induction lo ivs hi rule: chain.induct)
  case (2 lo s e ivs hi)
  then have "dead_set ivs \<subseteq> {e..<hi}" by (auto dest: chain_set)
  then have "{s..<e} \<inter> A \<inter> (dead_set ivs \<inter> A) = {}" by fastforce
  then have "card (({s..<e} \<inter> A) \<union> (dead_set ivs \<inter> A))
      = card ({s..<e} \<inter> A) + card (dead_set ivs \<inter> A)"
    by (intro card_Un_disjoint) auto
  with 2 show ?case by (simp add: Int_Un_distrib2)
qed simp

lemma card_word_lt: "card {..<a::u64} = unat a"
proof -
  have "{..<a} = {0..<a}" by auto
  then show ?thesis by (simp add: card_word_ivl)
qed

lemma card_dead_below_le: "card (dead_below a ivs) \<le> unat a"
proof -
  have "card (dead_below a ivs) \<le> card {..<a}"
    by (rule card_mono) (auto simp: dead_below_def)
  then show ?thesis by (simp add: card_word_lt)
qed

lemma card_dead_below_lt64: "card (dead_below a ivs) < 2 ^ 64"
  using lt64I [OF card_dead_below_le] by simp

lemma unat_shift_at:
  assumes "chain lo ivs hi"
  shows "unat (shift_at a ivs) = card (dead_below a ivs)"
proof -
  have "dead_set ivs \<inter> {..<a} = dead_below a ivs" by (auto simp: dead_below_def)
  then show ?thesis
    using chain_sum_card [OF assms, of "{..<a}"] card_dead_below_lt64 [of a ivs]
    by (simp add: shift_at_sum unat_of_nat)
qed

lemma unat_total_dead:
  assumes "chain lo ivs hi"
  shows "unat (total_dead ivs) = card (dead_set ivs)"
proof -
  have "card (dead_set ivs) \<le> card {lo..<hi}"
    by (rule card_mono) (auto intro: chain_set [OF assms, THEN subsetD])
  also have "\<dots> < 2 ^ 64" using lt64I [OF diff_le_self, of hi "unat lo"] by (simp add: card_word_ivl)
  finally show ?thesis
    using chain_sum_card [OF assms, of UNIV] by (simp add: total_dead_sum unat_of_nat)
qed

lemma unat_page_shrink: "unat (page_shrink ivs) = unat (total_dead ivs) div 4096 * 4096"
proof -
  have "unat (total_dead ivs) div 4096 * 4096 \<le> unat (total_dead ivs)" by simp
  then have "unat (total_dead ivs) div 4096 * 4096 < 18446744073709551616" by (rule lt64I)
  then show ?thesis by (simp add: page_shrink_def PAGE_SIZE_def unat_word_ariths unat_div)
qed

lemma page_shrink_le: "page_shrink ivs \<le> total_dead ivs"
  by (simp add: word_le_nat_alt unat_page_shrink)


section \<open>The new address of an address\<close>

definition new_addr :: "ival list \<Rightarrow> u64 \<Rightarrow> u64" where
  "new_addr ivs a = a - shift_at a ivs"

lemma card_dead_below_mono: "a \<le> b \<Longrightarrow> card (dead_below a ivs) \<le> card (dead_below b ivs)"
  by (rule card_mono) (auto simp: dead_below_def)

lemma card_dead_below_step:
  assumes "a \<le> b"
  shows "card (dead_below b ivs) \<le> card (dead_below a ivs) + (unat b - unat a)"
proof -
  have "dead_below b ivs \<subseteq> dead_below a ivs \<union> {a..<b}" by (auto simp: dead_below_def)
  then have "card (dead_below b ivs) \<le> card (dead_below a ivs \<union> {a..<b})"
    by (rule card_mono [rotated]) simp
  also have "\<dots> \<le> card (dead_below a ivs) + card {a..<b}" by (rule card_Un_le)
  finally show ?thesis by (simp add: card_word_ivl)
qed

lemma card_dead_below_step_live:
  assumes "a < b" and "a \<notin> dead_set ivs"
  shows "card (dead_below b ivs) < card (dead_below a ivs) + (unat b - unat a)"
proof -
  have "dead_below b ivs \<subseteq> dead_below a ivs \<union> ({a..<b} - {a})"
    using assms by (auto simp: dead_below_def)
  then have "card (dead_below b ivs) \<le> card (dead_below a ivs \<union> ({a..<b} - {a}))"
    by (rule card_mono [rotated]) simp
  also have "\<dots> \<le> card (dead_below a ivs) + card ({a..<b} - {a})" by (rule card_Un_le)
  also have "card ({a..<b} - {a}) = card {a..<b} - 1" using assms by simp
  also have "\<dots> < unat b - unat a" using assms by (simp add: card_word_ivl word_less_nat_alt)
  finally show ?thesis by simp
qed

lemma card_dead_below_lo:
  assumes "chain lo ivs hi" and "lo \<le> a"
  shows "card (dead_below a ivs) \<le> unat a - unat lo"
proof -
  have "dead_below a ivs \<subseteq> {lo..<a}"
    using chain_set [OF assms(1)] by (auto simp: dead_below_def)
  then show ?thesis using card_mono [of "{lo..<a}" "dead_below a ivs"] by (simp add: card_word_ivl)
qed

lemma unat_new_addr:
  assumes "chain lo ivs hi"
  shows "unat (new_addr ivs a) = unat a - card (dead_below a ivs)"
proof -
  have "shift_at a ivs \<le> a"
    using unat_shift_at [OF assms] card_dead_below_le by (simp add: word_le_nat_alt)
  then show ?thesis by (simp add: new_addr_def unat_sub unat_shift_at [OF assms])
qed

section \<open>Merging\<close>

definition wf_ivals :: "ival list \<Rightarrow> bool" where
  "wf_ivals ivs \<longleftrightarrow> (\<forall>(s, e) \<in> set ivs. s \<le> e)"

text \<open>Minimal: sorted, and a gap between any two neighbours.\<close>

definition separated :: "ival list \<Rightarrow> bool" where
  "separated ivs \<longleftrightarrow> sorted_wrt (\<lambda>(_, e) (s', _). e < s') ivs"

definition within :: "u64 \<Rightarrow> ival list \<Rightarrow> u64 \<Rightarrow> bool" where
  "within lo ivs hi \<longleftrightarrow> (\<forall>(s, e) \<in> set ivs. lo \<le> s \<and> e \<le> hi)"

lemma merge_into_sound:
  assumes "sorted (map fst (rev acc @ ivs))" and "separated (rev acc)"
    and "wf_ivals acc" and "wf_ivals ivs"
  shows "separated (merge_into acc ivs) \<and> wf_ivals (merge_into acc ivs)
    \<and> dead_set (merge_into acc ivs) = dead_set acc \<union> dead_set ivs"
  using assms
proof (induction acc ivs rule: merge_into.induct)
  case (1 acc)
  then show ?case by (simp add: wf_ivals_def)
next
  case (2 iv rest)
  then show ?case by (cases iv) (simp add: separated_def wf_ivals_def)
next
  case (3 ls le acc s e rest)
  have ord: "ls \<le> s" "ls \<le> le" "s \<le> e" using "3.prems" by (auto simp: sorted_append wf_ivals_def)
  show ?case
  proof (cases "s \<le> le")
    case True
    have "separated (rev ((ls, max le e) # acc))" and "wf_ivals ((ls, max le e) # acc)"
      using "3.prems" ord by (auto simp: separated_def sorted_wrt_append wf_ivals_def le_max_iff_disj)
    moreover have "sorted (map fst (rev ((ls, max le e) # acc) @ rest))"
      using "3.prems" by (auto simp: sorted_append)
    moreover have "wf_ivals rest" using "3.prems" by (simp add: wf_ivals_def)
    ultimately have "separated (merge_into ((ls, max le e) # acc) rest)
        \<and> wf_ivals (merge_into ((ls, max le e) # acc) rest)
        \<and> dead_set (merge_into ((ls, max le e) # acc) rest)
          = dead_set ((ls, max le e) # acc) \<union> dead_set rest"
      using "3.IH"(1) [OF True] by blast
    moreover have "{ls..<max le e} = {ls..<le} \<union> {s..<e}"
      using True ord by (auto simp: max_def) (order+)?
    ultimately show ?thesis using True by auto
  next
    case False
    have "\<And>s' e'. (s', e') \<in> set acc \<Longrightarrow> e' < s"
      using "3.prems" False ord by (fastforce simp: separated_def sorted_wrt_append)
    then have "separated (rev ((s, e) # (ls, le) # acc))"
      using "3.prems" False by (auto simp: separated_def sorted_wrt_append not_le)
    moreover have "wf_ivals ((s, e) # (ls, le) # acc)" and "wf_ivals rest"
      using "3.prems" by (auto simp: wf_ivals_def)
    moreover have "sorted (map fst (rev ((s, e) # (ls, le) # acc) @ rest))"
      using "3.prems" by (auto simp: sorted_append)
    ultimately show ?thesis using "3.IH"(2) [OF False] False by auto
  qed
qed

lemma sorted_map_fst_sort: "sorted (map fst (sort (ivs :: ival list)))"
proof -
  have "sorted (sort ivs)" by simp
  then show ?thesis
    by (rule sorted_map [THEN iffD2, OF sorted_wrt_mono_rel [rotated]]) (auto simp: less_eq_prod_def)
qed

lemma dead_set_sort [simp]: "dead_set (sort ivs) = dead_set ivs"
  by (simp add: dead_set_def)

lemma wf_ivals_sort [simp]: "wf_ivals (sort ivs) = wf_ivals ivs"
  by (simp add: wf_ivals_def)

lemma merge_intervals_sound:
  assumes "wf_ivals ivs"
  shows "separated (merge_intervals ivs)" and "wf_ivals (merge_intervals ivs)"
    and "dead_set (merge_intervals ivs) = dead_set ivs"
proof -
  have "separated (merge_into [] (sort ivs)) \<and> wf_ivals (merge_into [] (sort ivs))
      \<and> dead_set (merge_into [] (sort ivs)) = dead_set [] \<union> dead_set (sort ivs)"
    using assms sorted_map_fst_sort [of ivs]
    by (intro merge_into_sound) (simp_all add: separated_def wf_ivals_def)
  then show "separated (merge_intervals ivs)" and "wf_ivals (merge_intervals ivs)"
    and "dead_set (merge_intervals ivs) = dead_set ivs"
    by (auto simp: merge_intervals_def separated_def wf_ivals_def)
qed

lemma merge_into_within:
  "within lo acc hi \<Longrightarrow> within lo ivs hi \<Longrightarrow> within lo (merge_into acc ivs) hi"
  by (induction acc ivs rule: merge_into.induct) (auto simp: within_def)

lemma merge_intervals_within: "within lo ivs hi \<Longrightarrow> within lo (merge_intervals ivs) hi"
  using merge_into_within [of lo "[]" hi "sort ivs"] by (auto simp: merge_intervals_def within_def)

lemma separated_chain:
  assumes "separated ivs" and "wf_ivals ivs" and "within lo ivs hi" and "lo \<le> hi"
  shows "chain lo ivs hi"
  using assms
proof (induction ivs arbitrary: lo)
  case (Cons iv ivs)
  obtain s e where iv: "iv = (s, e)" by (cases iv)
  have "within e ivs hi" using Cons.prems by (fastforce simp: iv separated_def within_def)
  moreover have "separated ivs" "wf_ivals ivs" "e \<le> hi" "s \<le> e" "lo \<le> s"
    using Cons.prems by (auto simp: iv separated_def wf_ivals_def within_def)
  ultimately show ?case using Cons.IH [of e] by (simp add: iv)
qed simp

end
