(* ===== verification/Defrag.thy ===== *)
theory Defrag
  imports Intervals
begin

text \<open>
  The defragmentation of \<open>src/patch/relocs.rs\<close>: every dead interval absorbs the padding bytes
  next to it, backwards byte by byte (only where instructions are byte aligned) and forwards in
  steps of the instruction alignment; the results are merged.
\<close>

section \<open>The code\<close>

text \<open>The test both loops stop at: \<open>off >= data.len() || !is_padding(data[off])\<close>.\<close>

definition not_padding :: "bytes \<Rightarrow> (u8 \<Rightarrow> bool) \<Rightarrow> usize \<Rightarrow> bool" where
  "not_padding data is_padding off \<longleftrightarrow> data_len data \<le> off \<or> \<not> is_padding (data ! unat off)"

function expand_back :: "bytes \<Rightarrow> sect \<Rightarrow> u64 \<Rightarrow> (u8 \<Rightarrow> bool) \<Rightarrow> u64 \<Rightarrow> u64" where
  "expand_back data tx ts is_padding lo =
     (if ts < lo then
        (if not_padding data is_padding (s_offset tx + lo - 1 - ts) then lo
         else expand_back data tx ts is_padding (lo - 1))
      else lo)"
  by pat_completeness auto
termination
proof (relation "measure (\<lambda>(_, _, _, _, lo). unat lo)")
  fix data tx ts is_padding and lo :: u64
  assume "ts < lo"
  then have "0 < unat lo" by (auto simp: word_less_nat_alt)
  then have "unat (lo - 1) = unat lo - 1" by (simp add: unat_sub word_le_nat_alt)
  then show "((data, tx, ts, is_padding, lo - 1), (data, tx, ts, is_padding, lo))
      \<in> measure (\<lambda>(_, _, _, _, lo). unat lo)"
    using \<open>0 < unat lo\<close> by simp
qed simp

definition fwd_step :: "u64 \<Rightarrow> u64" where
  "fwd_step align = (if 1 < align then align else 1)"

text \<open>The inner loop of the forward expansion: all \<open>step\<close> bytes from \<open>hi\<close> are padding.\<close>

definition fwd_padding :: "bytes \<Rightarrow> sect \<Rightarrow> u64 \<Rightarrow> (u8 \<Rightarrow> bool) \<Rightarrow> u64 \<Rightarrow> u64 \<Rightarrow> bool" where
  "fwd_padding data tx ts is_padding align hi \<longleftrightarrow>
     list_all (\<lambda>k. \<not> not_padding data is_padding (s_offset tx + hi + of_nat k - ts))
       [0..<unat (fwd_step align)]"

lemma fwd_step_pos [simp]: "0 < unat (fwd_step align)"
  by (auto simp: fwd_step_def word_less_nat_alt)

lemma fwd_padding_bound:
  assumes "fwd_padding data tx ts is_padding align hi" and "k \<le> unat (fwd_step align)"
  shows "unat (s_offset tx + hi + of_nat k - ts) = unat (s_offset tx + hi - ts) + k
    \<and> unat (s_offset tx + hi - ts) + k \<le> unat (data_len data)"
  using assms(2)
proof (induction k)
  case 0
  have "\<not> not_padding data is_padding (s_offset tx + hi + of_nat 0 - ts)"
    using assms(1) unfolding fwd_padding_def list_all_iff by (rule bspec) simp
  then show ?case by (simp add: not_padding_def not_le word_less_nat_alt)
next
  case (Suc k)
  have np: "\<not> not_padding data is_padding (s_offset tx + hi + of_nat k - ts)"
    using assms(1) Suc.prems unfolding fwd_padding_def list_all_iff by (simp add: Suc_le_lessD)
  define off where "off = s_offset tx + hi + of_nat k - ts"
  have "off < data_len data" using np by (simp add: not_padding_def off_def not_le)
  then have "unat off < unat (data_len data)" by (simp add: word_less_nat_alt)
  moreover from this have "unat (off + 1) = unat off + 1"
    using lt64I [of "Suc (unat off)" "data_len data"] by (subst unat_add_le) simp_all
  moreover have "off + 1 = s_offset tx + hi + of_nat (Suc k) - ts" by (simp add: off_def)
  moreover have "unat off = unat (s_offset tx + hi - ts) + k"
    using Suc by (simp add: off_def)
  ultimately show ?case by simp
qed

function expand_fwd :: "bytes \<Rightarrow> sect \<Rightarrow> u64 \<Rightarrow> u64 \<Rightarrow> (u8 \<Rightarrow> bool) \<Rightarrow> u64 \<Rightarrow> u64 \<Rightarrow> u64" where
  "expand_fwd data tx ts te is_padding align hi =
     (if hi + fwd_step align \<le> te \<and> fwd_padding data tx ts is_padding align hi
      then expand_fwd data tx ts te is_padding align (hi + fwd_step align)
      else hi)"
  by pat_completeness auto
termination
proof (relation "measure (\<lambda>(data, tx, ts, te, p, align, hi).
    unat (data_len data) - unat (s_offset tx + hi - ts))")
  fix data tx ts te is_padding align hi
  assume "hi + fwd_step align \<le> te \<and> fwd_padding data tx ts is_padding align hi"
  then have "unat (s_offset tx + hi + of_nat (unat (fwd_step align)) - ts)
      = unat (s_offset tx + hi - ts) + unat (fwd_step align)"
    and "unat (s_offset tx + hi - ts) + unat (fwd_step align) \<le> unat (data_len data)"
    using fwd_padding_bound [of data tx ts is_padding align hi "unat (fwd_step align)"] by auto
  moreover have "s_offset tx + hi + of_nat (unat (fwd_step align)) - ts
      = s_offset tx + (hi + fwd_step align) - ts" by simp
  ultimately show "((data, tx, ts, te, is_padding, align, hi + fwd_step align),
      (data, tx, ts, te, is_padding, align, hi))
      \<in> measure (\<lambda>(data, tx, ts, te, p, align, hi).
          unat (data_len data) - unat (s_offset tx + hi - ts))"
    using fwd_step_pos [of align] by (simp add: add.assoc [symmetric] del: fwd_step_pos)
qed simp

declare expand_back.simps [simp del] expand_fwd.simps [simp del]

definition expand_one ::
  "bytes \<Rightarrow> sect \<Rightarrow> u64 \<Rightarrow> u64 \<Rightarrow> u64 \<Rightarrow> u64 \<Rightarrow> (u8 \<Rightarrow> bool) \<Rightarrow> u64 \<Rightarrow> ival" where
  "expand_one data tx ts te start end is_padding align =
     (let lo = (if fwd_step align = 1 then expand_back data tx ts is_padding start else start);
          hi = expand_fwd data tx ts te is_padding align end
      in (lo, hi))"

definition defrag_intervals ::
  "ival list \<Rightarrow> bytes \<Rightarrow> sect list \<Rightarrow> (u8 \<Rightarrow> bool) \<Rightarrow> u64 \<Rightarrow> ival list" where
  "defrag_intervals ivs data sections is_padding align =
     (case find_section ''.text'' sections of
        None \<Rightarrow> ivs
      | Some tx \<Rightarrow>
          (let ts = s_vaddr tx; te = s_vaddr tx + s_size tx
           in merge_intervals
                (map (\<lambda>(start, end). expand_one data tx ts te start end is_padding align) ivs)))"

section \<open>What the loops absorb\<close>

text \<open>The address \<open>a\<close> of .text holds a padding byte.\<close>

definition pad_at :: "bytes \<Rightarrow> sect \<Rightarrow> (u8 \<Rightarrow> bool) \<Rightarrow> u64 \<Rightarrow> bool" where
  "pad_at data tx is_padding a \<longleftrightarrow>
     \<not> not_padding data is_padding (s_offset tx + a - s_vaddr tx)"

lemma expand_back_spec:
  "ts \<le> lo \<Longrightarrow> ts = s_vaddr tx \<Longrightarrow>
     ts \<le> expand_back data tx ts is_padding lo \<and> expand_back data tx ts is_padding lo \<le> lo
     \<and> (\<forall>a \<in> {expand_back data tx ts is_padding lo..<lo}. pad_at data tx is_padding a)"
proof (induction data tx ts is_padding lo rule: expand_back.induct)
  case (1 data tx ts is_padding lo)
  show ?case
  proof (cases "ts < lo \<and> \<not> not_padding data is_padding (s_offset tx + lo - 1 - ts)")
    case True
    then have pos: "unat (lo - 1) = unat lo - 1" and "0 < unat lo"
      by (auto simp: unat_sub word_le_nat_alt word_less_nat_alt)
    moreover have "unat ts < unat lo" using True by (simp add: word_less_nat_alt)
    ultimately have "ts \<le> lo - 1" by (simp add: word_le_nat_alt)
    with True "1.prems" have IH: "ts \<le> expand_back data tx ts is_padding (lo - 1)"
      "expand_back data tx ts is_padding (lo - 1) \<le> lo - 1"
      "\<forall>a \<in> {expand_back data tx ts is_padding (lo - 1)..<lo - 1}. pad_at data tx is_padding a"
      using "1.IH" by blast+
    have eq: "expand_back data tx ts is_padding lo = expand_back data tx ts is_padding (lo - 1)"
      using True by (simp add: expand_back.simps [of _ _ _ _ lo])
    have "pad_at data tx is_padding (lo - 1)"
      using True "1.prems" by (simp add: pad_at_def algebra_simps)
    moreover have "a < lo - 1 \<or> a = lo - 1" if "a < lo" for a
      using that pos \<open>0 < unat lo\<close> by (auto simp: word_less_nat_alt word_unat_eq_iff)
    ultimately have "\<forall>a \<in> {expand_back data tx ts is_padding lo..<lo}. pad_at data tx is_padding a"
      using IH(3) unfolding eq by (metis atLeastLessThan_iff)
    moreover have "lo - 1 \<le> lo" using pos by (simp add: word_le_nat_alt)
    ultimately show ?thesis using IH(1,2) order_trans by (auto simp: eq)
  next
    case False
    then have "expand_back data tx ts is_padding lo = lo"
      by (auto simp: expand_back.simps [of _ _ _ _ lo])
    with "1.prems" show ?thesis by simp
  qed
qed

lemma expand_fwd_spec:
  "end \<le> te \<Longrightarrow> ts = s_vaddr tx \<Longrightarrow> unat te + unat (fwd_step align) < 2 ^ 64 \<Longrightarrow>
     end \<le> expand_fwd data tx ts te is_padding align end
     \<and> expand_fwd data tx ts te is_padding align end \<le> te
     \<and> (\<forall>a \<in> {end..<expand_fwd data tx ts te is_padding align end}. pad_at data tx is_padding a)
     \<and> unat (fwd_step align) dvd unat (expand_fwd data tx ts te is_padding align end) - unat end"
proof (induction data tx ts te is_padding align "end" rule: expand_fwd.induct)
  case (1 data tx ts te is_padding align hi)
  let ?s = "fwd_step align"
  let ?e = "expand_fwd data tx ts te is_padding align"
  show ?case
  proof (cases "hi + ?s \<le> te \<and> fwd_padding data tx ts is_padding align hi")
    case True
    have hs: "unat (hi + ?s) = unat hi + unat ?s"
      using "1.prems" by (intro unat_add_le) (simp add: word_le_nat_alt)
    have IH: "hi + ?s \<le> ?e (hi + ?s)" "?e (hi + ?s) \<le> te"
      "\<forall>a \<in> {hi + ?s..<?e (hi + ?s)}. pad_at data tx is_padding a"
      "unat ?s dvd unat (?e (hi + ?s)) - unat (hi + ?s)"
      using "1.IH" [OF True] True "1.prems" by blast+
    have eq: "?e hi = ?e (hi + ?s)" using True by (simp add: expand_fwd.simps [of _ _ _ _ _ _ hi])
    have "pad_at data tx is_padding a" if a: "hi \<le> a" "a < hi + ?s" for a
    proof -
      define k where "k = unat a - unat hi"
      have "k < unat ?s" using a hs by (auto simp: k_def word_le_nat_alt word_less_nat_alt)
      moreover have "a = hi + of_nat k" using a by (simp add: k_def word_le_nat_alt of_nat_diff)
      ultimately show ?thesis
        using True "1.prems" by (simp add: fwd_padding_def list_all_iff pad_at_def algebra_simps)
    qed
    then have pads: "\<forall>a \<in> {hi..<?e hi}. pad_at data tx is_padding a"
      using IH(3) by (auto simp: eq not_less)
    have "hi \<le> hi + ?s" using hs by (simp add: word_le_nat_alt)
    with IH(1) have "hi \<le> ?e hi" by (simp add: eq)
    moreover have "unat (?e hi) - unat hi = unat (?e (hi + ?s)) - unat (hi + ?s) + unat ?s"
      using IH(1) hs by (simp add: eq word_le_nat_alt)
    ultimately show ?thesis using IH(2,4) pads by (simp add: eq)
  next
    case False
    then have "?e hi = hi" by (subst expand_fwd.simps) (simp only: if_False)
    with "1.prems" show ?thesis by simp
  qed
qed


section \<open>Defragmentation\<close>

text \<open>What defragmentation relies on: .text is a range of addresses with room above it, the
  intervals lie inside it, and its step is a small power of two.\<close>

definition defrag_pre :: "ival list \<Rightarrow> sect \<Rightarrow> u64 \<Rightarrow> bool" where
  "defrag_pre ivs tx align \<longleftrightarrow>
     unat (s_vaddr tx) + unat (s_size tx) + unat (fwd_step align) < 2 ^ 64
     \<and> wf_ivals ivs \<and> within (s_vaddr tx) ivs (s_vaddr tx + s_size tx)"

lemma expand_one_spec:
  assumes pre: "defrag_pre ivs tx align" and iv: "(s, e) \<in> set ivs"
    and eq: "expand_one data tx (s_vaddr tx) (s_vaddr tx + s_size tx) s e p align = (lo, hi)"
  shows "s_vaddr tx \<le> lo \<and> lo \<le> s \<and> e \<le> hi \<and> hi \<le> s_vaddr tx + s_size tx
    \<and> (\<forall>a \<in> {lo..<hi} - {s..<e}. pad_at data tx p a)
    \<and> unat (fwd_step align) dvd unat hi - unat e"
proof -
  let ?ts = "s_vaddr tx" and ?te = "s_vaddr tx + s_size tx"
  have te: "unat ?te = unat ?ts + unat (s_size tx)"
    using pre by (intro unat_add_le) (simp add: defrag_pre_def)
  have bounds: "?ts \<le> s" "s \<le> e" "e \<le> ?te"
    using pre iv by (auto simp: defrag_pre_def wf_ivals_def within_def)
  have hi: "e \<le> hi \<and> hi \<le> ?te \<and> (\<forall>a \<in> {e..<hi}. pad_at data tx p a)
      \<and> unat (fwd_step align) dvd unat hi - unat e"
    using expand_fwd_spec [of e ?te ?ts tx align data p] bounds te pre eq
    by (auto simp: expand_one_def Let_def defrag_pre_def)
  have lo: "?ts \<le> lo \<and> lo \<le> s \<and> (\<forall>a \<in> {lo..<s}. pad_at data tx p a)"
    using expand_back_spec [of ?ts s tx data p] bounds eq
    by (auto simp: expand_one_def Let_def split: if_splits)
  have "a \<in> {lo..<s} \<or> a \<in> {e..<hi}" if "a \<in> {lo..<hi} - {s..<e}" for a
    using that bounds by (auto simp: not_le)
  with hi lo show ?thesis by blast
qed

lemma defrag_eq:
  assumes "find_section ''.text'' sections = Some tx"
  shows "defrag_intervals ivs data sections p align = merge_intervals
    (map (\<lambda>(s, e). expand_one data tx (s_vaddr tx) (s_vaddr tx + s_size tx) s e p align) ivs)"
  using assms by (simp add: defrag_intervals_def Let_def)

text \<open>C19. Defragmentation is safe: the intervals it returns are sorted, disjoint and inside
  .text, contain every dead address they were given, and every address they add holds a
  padding byte.\<close>

theorem defrag_sound:
  assumes "find_section ''.text'' sections = Some tx" and "defrag_pre ivs tx align"
  shows "chain (s_vaddr tx) (defrag_intervals ivs data sections p align) (s_vaddr tx + s_size tx)
    \<and> dead_set ivs \<subseteq> dead_set (defrag_intervals ivs data sections p align)
    \<and> (\<forall>a \<in> dead_set (defrag_intervals ivs data sections p align) - dead_set ivs. pad_at data tx p a)"
proof -
  let ?ts = "s_vaddr tx" and ?te = "s_vaddr tx + s_size tx"
  let ?x = "\<lambda>(s, e). expand_one data tx ?ts ?te s e p align"
  have x: "\<exists>lo hi. ?x (s, e) = (lo, hi) \<and> ?ts \<le> lo \<and> lo \<le> s \<and> s \<le> e \<and> e \<le> hi \<and> hi \<le> ?te
      \<and> (\<forall>a \<in> {lo..<hi} - {s..<e}. pad_at data tx p a)" if "(s, e) \<in> set ivs" for s e
    using expand_one_spec [OF assms(2) that, of data p] that assms(2)
    by (cases "?x (s, e)") (auto simp: defrag_pre_def wf_ivals_def)
  have wf: "wf_ivals (map ?x ivs)" and wi: "within ?ts (map ?x ivs) ?te"
    using x by (fastforce simp: wf_ivals_def within_def)+
  have "?ts \<le> ?te" using assms(2) by (simp add: defrag_pre_def word_le_nat_alt unat_add_le)
  then have "chain ?ts (merge_intervals (map ?x ivs)) ?te"
    using merge_intervals_sound(1,2) [OF wf] merge_intervals_within [OF wi] separated_chain by blast
  moreover have "dead_set ivs \<subseteq> dead_set (map ?x ivs)"
  proof
    fix a assume "a \<in> dead_set ivs"
    then obtain s e where se: "(s, e) \<in> set ivs" "s \<le> a" "a < e" by (auto simp: dead_set_def)
    from x [OF se(1)] obtain lo hi where "?x (s, e) = (lo, hi)" "lo \<le> s" "e \<le> hi" by blast
    with se show "a \<in> dead_set (map ?x ivs)"
      by (force simp: dead_set_def intro!: bexI [of _ "(s, e)"])
  qed
  moreover have "pad_at data tx p a" if a: "a \<in> dead_set (map ?x ivs) - dead_set ivs" for a
  proof -
    obtain s e where se: "(s, e) \<in> set ivs" "a \<in> (case ?x (s, e) of (lo, hi) \<Rightarrow> {lo..<hi})"
      using a by (auto simp: dead_set_def)
    moreover have "a \<notin> {s..<e}" using a se(1) by (auto simp: dead_set_def)
    ultimately show ?thesis using x [OF se(1)] by auto
  qed
  ultimately show ?thesis
    using merge_intervals_sound(3) [OF wf] by (simp add: defrag_eq [OF assms(1)])
qed

theorem defrag_sound_witness:
  "defrag_intervals [(0x1001, 0x1002)] [0xCC, 0x90, 0x55, 0x90, 0xC3]
     [\<lparr>s_name = ''.text'', s_size = 5, s_vaddr = 0x1000, s_offset = 0, s_align = 1\<rparr>]
     (\<lambda>b. b = 0x90 \<or> b = 0xCC) 1 = [(0x1000, 0x1002)]
   \<and> chain 0x1000 [(0x1000, 0x1002)] 0x1005"
proof -
  let ?t = "\<lparr>s_name = ''.text'', s_size = 5, s_vaddr = 0x1000, s_offset = 0, s_align = 1\<rparr>"
  let ?p = "\<lambda>b::u8. b = 0x90 \<or> b = 0xCC"
  let ?d = "[0xCC, 0x90, 0x55, 0x90, 0xC3] :: bytes"
  have f: "find_section ''.text'' [?t] = Some ?t" by (simp add: find_section_def)
  have pre: "defrag_pre [(0x1001, 0x1002)] ?t 1"
    by (simp add: defrag_pre_def fwd_step_def wf_ivals_def within_def)
  have ev: "defrag_intervals [(0x1001, 0x1002)] ?d [?t] ?p 1 = [(0x1000, 0x1002)]"
    by code_simp
  from defrag_sound [OF f pre, of ?d ?p] have "chain 0x1000 [(0x1000, 0x1002)] 0x1005"
    unfolding ev by simp
  with ev show ?thesis by blast
qed

end
