(* ===== verification/Relocation.thy ===== *)
theory Relocation
  imports Intervals
begin

text \<open>
  The relocation interface between the interval arithmetic and its clients (the branch and
  pointer patchers): a shift per address, with the laws the clients rely on. A client that
  moves both ends of a displacement by their shifts gets a displacement of the same sign that
  is no longer than before, so an immediate field that held the old one holds the new one.
  The interval lists of \<open>Intervals\<close> provide it.
\<close>

section \<open>Shrinking displacements\<close>

text \<open>\<open>d'\<close> lies between \<open>0\<close> and \<open>d\<close>, both read as signed.\<close>

definition shrinks :: "i64 \<Rightarrow> i64 \<Rightarrow> bool" where
  "shrinks d d' \<longleftrightarrow> (0 \<le> sint d' \<and> sint d' \<le> sint d) \<or> (sint d \<le> sint d' \<and> sint d' \<le> 0)"

lemma sint_diff:
  fixes a b :: u64
  assumes "unat b - unat a < 2 ^ 63" and "unat a - unat b < 2 ^ 63"
  shows "sint (b - a) = int (unat b) - int (unat a)"
proof -
  have "sint (b - a) = sint (word_of_int (int (unat b) - int (unat a)) :: u64)" by simp
  also have "\<dots> = signed_take_bit 63 (int (unat b) - int (unat a))"
    by (simp only: sint_sbintrunc') simp
  also have "\<dots> = int (unat b) - int (unat a)"
    using assms by (intro signed_take_bit_int_eq_self; simp del: of_nat_unat; linarith)
  finally show ?thesis .
qed

section \<open>The interface\<close>

locale relocation =
  fixes shift :: "'p \<Rightarrow> u64 \<Rightarrow> u64"
    and plan_ok :: "'p \<Rightarrow> bool"
    and lo :: "'p \<Rightarrow> u64"
    and hi :: "'p \<Rightarrow> u64"
  assumes span: "plan_ok p \<Longrightarrow> unat (hi p) - unat (lo p) < 2 ^ 63"
    and shift_le: "plan_ok p \<Longrightarrow> lo p \<le> a \<Longrightarrow> a < hi p \<Longrightarrow> unat (shift p a) \<le> unat a - unat (lo p)"
    and shift_mono: "plan_ok p \<Longrightarrow> lo p \<le> a \<Longrightarrow> a \<le> b \<Longrightarrow> b < hi p \<Longrightarrow> shift p a \<le> shift p b"
    and shift_step: "plan_ok p \<Longrightarrow> lo p \<le> a \<Longrightarrow> a \<le> b \<Longrightarrow> b < hi p \<Longrightarrow>
      unat (shift p b) \<le> unat (shift p a) + (unat b - unat a)"
begin

lemma unat_moved:
  assumes "plan_ok p" and "lo p \<le> a" and "a < hi p"
  shows "unat (a - shift p a) = unat a - unat (shift p a)"
    and "lo p \<le> a - shift p a" and "a - shift p a \<le> a"
  using shift_le [OF assms] assms(2)
  by (auto simp: unat_sub word_le_nat_alt)

lemma moved_mono:
  assumes "plan_ok p" and "lo p \<le> a" and "a \<le> b" and "b < hi p"
  shows "a - shift p a \<le> b - shift p b"
proof -
  have "lo p \<le> b" "a < hi p" using assms by auto
  then show ?thesis
    using shift_step [OF assms] shift_mono [OF assms] assms
    by (auto simp: word_le_nat_alt unat_moved)
qed

lemma disp_shrinks:
  assumes "plan_ok p" and a: "lo p \<le> a" "a < hi p" and t: "lo p \<le> t" "t < hi p"
  shows "shrinks (t - a) ((t - shift p t) - (a - shift p a))"
proof -
  note ma = unat_moved [OF assms(1) a] and mt = unat_moved [OF assms(1) t]
  have in_span: "unat y - unat x < 2 ^ 63" if "lo p \<le> x" "y < hi p" for x y
    using that span [OF assms(1)] by (auto simp: word_le_nat_alt word_less_nat_alt)
  have old: "sint (t - a) = int (unat t) - int (unat a)"
    by (rule sint_diff; rule in_span) (rule a t)+
  have new: "sint ((t - shift p t) - (a - shift p a))
      = int (unat (t - shift p t)) - int (unat (a - shift p a))"
    by (rule sint_diff; rule in_span) (use ma mt a t in auto)
  show ?thesis
  proof (cases "a \<le> t")
    case True
    have "unat (shift p t) \<le> unat (shift p a) + (unat t - unat a)"
      using shift_step [OF assms(1) a(1) True t(2)] .
    moreover have "unat (shift p a) \<le> unat (shift p t)"
      using shift_mono [OF assms(1) a(1) True t(2)] by (simp add: word_le_nat_alt)
    ultimately show ?thesis
      using True shift_le [OF assms(1) a] shift_le [OF assms(1) t] a t
      by (auto simp: shrinks_def old new ma(1) mt(1) word_le_nat_alt simp del: of_nat_unat)
  next
    case False
    then have le: "t \<le> a" by simp
    have "unat (shift p a) \<le> unat (shift p t) + (unat a - unat t)"
      using shift_step [OF assms(1) t(1) le a(2)] .
    moreover have "unat (shift p t) \<le> unat (shift p a)"
      using shift_mono [OF assms(1) t(1) le a(2)] by (simp add: word_le_nat_alt)
    ultimately show ?thesis
      using le shift_le [OF assms(1) a] shift_le [OF assms(1) t] a t
      by (auto simp: shrinks_def old new ma(1) mt(1) word_le_nat_alt simp del: of_nat_unat)
  qed
qed

end

section \<open>The plans of the compaction\<close>

text \<open>A plan: the intervals and the bounds of .text.\<close>

type_synonym plan = "ival list \<times> u64 \<times> u64"

definition plan_shift :: "plan \<Rightarrow> u64 \<Rightarrow> u64" where
  "plan_shift p a = (case p of (ivs, ts, te) \<Rightarrow> total_shift a ivs ts te)"

definition plan_ok :: "plan \<Rightarrow> bool" where
  "plan_ok p \<longleftrightarrow> (case p of (ivs, ts, te) \<Rightarrow> chain ts ivs te \<and> unat te - unat ts < 2 ^ 63)"

definition plan_lo :: "plan \<Rightarrow> u64" where
  "plan_lo p = fst (snd p)"

definition plan_hi :: "plan \<Rightarrow> u64" where
  "plan_hi p = snd (snd p)"

lemmas plan_defs = plan_shift_def plan_ok_def plan_lo_def plan_hi_def

lemma plan_shift_text:
  assumes "plan_ok p" and "plan_lo p \<le> a" and "a < plan_hi p"
  shows "unat (plan_shift p a) = card (dead_below a (fst p))"
proof -
  obtain ivs ts te where p: "p = (ivs, ts, te)" by (cases p)
  with assms have "plan_shift p a = shift_at a ivs"
    by (auto simp: plan_defs total_shift_def)
  with assms show ?thesis by (auto simp: p plan_defs unat_shift_at)
qed

interpretation text_plan: relocation plan_shift plan_ok plan_lo plan_hi
proof
  fix p a b assume ok: "plan_ok p"
  then obtain ivs ts te where p: "p = (ivs, ts, te)" and ch: "chain ts ivs te"
    by (cases p) (auto simp: plan_ok_def)
  show "unat (plan_hi p) - unat (plan_lo p) < 2 ^ 63"
    using ok by (auto simp: plan_defs split: prod.splits)
  assume a: "plan_lo p \<le> a"
  show "unat (plan_shift p a) \<le> unat a - unat (plan_lo p)" if "a < plan_hi p"
    using card_dead_below_lo [OF ch] a plan_shift_text [OF ok a that] by (simp add: p plan_lo_def)
  assume ab: "a \<le> b" "b < plan_hi p"
  then have "a < plan_hi p" "plan_lo p \<le> b" using a by auto
  then have "unat (plan_shift p a) = card (dead_below a ivs)"
    and "unat (plan_shift p b) = card (dead_below b ivs)"
    using plan_shift_text [OF ok] a ab by (auto simp: p)
  then show "plan_shift p a \<le> plan_shift p b"
    and "unat (plan_shift p b) \<le> unat (plan_shift p a) + (unat b - unat a)"
    using card_dead_below_mono [OF ab(1)] card_dead_below_step [OF ab(1)]
    by (auto simp: word_le_nat_alt)
qed

section \<open>Properties of the interval arithmetic\<close>

text \<open>C18. The shift of an address is the number of dead addresses below it; the total is the
  number of dead addresses; the physical shrink is that number rounded down to pages.\<close>

theorem shift_counts_dead:
  assumes "chain lo ivs hi"
  shows "unat (shift_at a ivs) = card {x \<in> dead_set ivs. x < a}
    \<and> unat (total_dead ivs) = card (dead_set ivs)
    \<and> unat (page_shrink ivs) = card (dead_set ivs) div 4096 * 4096"
  using unat_shift_at [OF assms, of a] unat_total_dead [OF assms]
  by (simp add: dead_below_def unat_page_shrink)

theorem shift_counts_dead_witness:
  "unat (shift_at 0x1010 [(0x1000, 0x1004), (0x100C, 0x1020)]) = 8
   \<and> card {x \<in> dead_set [(0x1000, 0x1004), (0x100C, 0x1020)]. x < 0x1010} = 8"
proof -
  have ch: "chain 0x1000 [(0x1000, 0x1004), (0x100C, 0x1020)] 0x2000" by simp
  have "shift_at 0x1010 [(0x1000, 0x1004), (0x100C, 0x1020)] = 8"
    by (simp add: shift_at_def sat_sub_def)
  with shift_counts_dead [OF ch, of "0x1010"] show ?thesis by simp
qed

text \<open>C21. Compaction keeps the order of addresses, never moves two of them further apart, and
  gives distinct live addresses distinct new addresses.\<close>

theorem new_addr_order:
  assumes "chain lo ivs hi" and "a < b"
  shows "new_addr ivs a \<le> new_addr ivs b
    \<and> unat (new_addr ivs b) - unat (new_addr ivs a) \<le> unat b - unat a
    \<and> (\<not> in_dead_range a ivs \<longrightarrow> new_addr ivs a < new_addr ivs b)"
proof -
  have ab: "a \<le> b" "unat a < unat b"
    using assms(2) by (simp_all add: word_less_nat_alt word_le_nat_alt)
  have live: "card (dead_below b ivs) < card (dead_below a ivs) + (unat b - unat a)"
    if "\<not> in_dead_range a ivs"
    using card_dead_below_step_live [OF assms(2)] that by (simp add: in_dead_range_iff)
  show ?thesis
    using ab live card_dead_below_mono [OF ab(1), of ivs] card_dead_below_step [OF ab(1), of ivs]
      card_dead_below_le [of a ivs] card_dead_below_le [of b ivs]
    by (auto simp: word_le_nat_alt word_less_nat_alt unat_new_addr [OF assms(1)])
qed

theorem new_addr_order_witness:
  "new_addr [(0x1000, 0x1004)] 0x1004 = 0x1000 \<and> new_addr [(0x1000, 0x1004)] 0x1008 = 0x1004
   \<and> new_addr [(0x1000, 0x1004)] 0x1004 < new_addr [(0x1000, 0x1004)] 0x1008"
proof -
  have ch: "chain 0x1000 [(0x1000, 0x1004)] 0x2000" by simp
  have "new_addr [(0x1000, 0x1004)] 0x1004 = 0x1000 \<and> new_addr [(0x1000, 0x1004)] 0x1008 = 0x1004"
    by (simp add: new_addr_def shift_at_def sat_sub_def)
  with new_addr_order [OF ch, of "0x1004" "0x1008"] show ?thesis by simp
qed

text \<open>C20. The merged plan: from the dead functions and the dead blocks, in whatever order their
  containers list them, one sorted list of intervals with gaps between them, whose addresses are
  exactly those of the dead functions and blocks (with saturated ends).\<close>

theorem combine_sound:
  "separated (combine_intervals (dead_intervals dead) (block_intervals blocks))
   \<and> wf_ivals (combine_intervals (dead_intervals dead) (block_intervals blocks))
   \<and> dead_set (combine_intervals (dead_intervals dead) (block_intervals blocks))
     = (\<Union>(n, a, s) \<in> set dead. {a..<sat_add a s})
       \<union> (\<Union>b \<in> set blocks. {db_addr b..<sat_add (db_addr b) (db_size b)})"
proof -
  have sat: "a \<le> sat_add a s" for a s
    using unat_lt64 [of a] by (simp add: word_le_nat_alt unat_sat_add del: unat_lt64 unsigned_less)
  have "wf_ivals (dead_intervals dead @ block_intervals blocks)"
    by (auto simp: wf_ivals_def dead_intervals_def block_intervals_def sat)
  note m = merge_intervals_sound [OF this]
  have "dead_set (dead_intervals dead) = (\<Union>(n, a, s) \<in> set dead. {a..<sat_add a s})"
    by (force simp: dead_set_def dead_intervals_def)
  moreover have "dead_set (block_intervals blocks)
      = (\<Union>b \<in> set blocks. {db_addr b..<sat_add (db_addr b) (db_size b)})"
    by (force simp: dead_set_def block_intervals_def)
  ultimately show ?thesis using m by (simp add: combine_intervals_def)
qed

end
