(* ===== verification/Compact.thy ===== *)
theory Compact
  imports Relocation
begin

text \<open>
  \<open>src/patch/compact.rs\<close>: the consistency check of a plan and the physical compaction of
  .text. The specification of the live text is \<open>nths\<close>, the sublist of the bytes at live
  positions; the compaction theorem says where every byte of the file goes.
\<close>

section \<open>The code\<close>

definition text_file_range :: "sect \<Rightarrow> usize \<Rightarrow> (usize \<times> usize) option" where
  "text_file_range tx len =
     (let off = s_offset tx; sz = s_size tx
      in case checked_add off sz of
           None \<Rightarrow> None
         | Some e \<Rightarrow> if e \<le> len then Some (off, sz) else None)"

fun fits_loop :: "u64 \<Rightarrow> ival list \<Rightarrow> u64 \<Rightarrow> bool" where
  "fits_loop prev [] te = True"
| "fits_loop prev ((s, e) # ivs) te =
     (if s < prev \<or> e < s \<or> te < e then False else fits_loop e ivs te)"

definition compaction_fits :: "usize \<Rightarrow> sect list \<Rightarrow> ival list \<Rightarrow> bool" where
  "compaction_fits len sections ivs =
     (case find_section ''.text'' sections of
        None \<Rightarrow> False
      | Some tx \<Rightarrow>
          (case checked_add (s_vaddr tx) (s_size tx) of
             None \<Rightarrow> False
           | Some te \<Rightarrow>
               (if text_file_range tx len = None then False
                else fits_loop (s_vaddr tx) ivs te)))"

fun live_loop :: "bytes \<Rightarrow> u64 \<Rightarrow> usize \<Rightarrow> usize \<Rightarrow> ival list \<Rightarrow> bytes" where
  "live_loop tx vma sz pos [] = (if unat pos \<le> length tx then drop (unat pos) tx else [])"
| "live_loop tx vma sz pos ((s, e) # ivs) =
     (if s < vma \<or> e < s \<or> sz < e - vma then live_loop tx vma sz pos ivs
      else
        (let ds = s - vma; de = e - vma
         in (case slice_get tx pos ds of Some live \<Rightarrow> live | None \<Rightarrow> [])
              @ live_loop tx vma sz (max pos de) ivs))"

definition build_live_text :: "bytes \<Rightarrow> ival list \<Rightarrow> usize \<Rightarrow> usize \<Rightarrow> u64 \<Rightarrow> bytes" where
  "build_live_text data ivs off sz vma =
     (case slice_get data off (off + sz) of
        Some tx \<Rightarrow> live_loop tx vma sz 0 ivs
      | None \<Rightarrow> [])"

text \<open>\<open>apply_compact\<close> returns \<open>false\<close> with the data unchanged (\<open>Skipped\<close>), or \<open>true\<close>
  with the new data; \<open>split_at_mut\<close> and \<open>drain\<close> panic out of range.\<close>

datatype compacted = Skipped | Compacted bytes | Panicked

definition apply_compact :: "bytes \<Rightarrow> usize \<Rightarrow> usize \<Rightarrow> bytes \<Rightarrow> ival list \<Rightarrow> compacted" where
  "apply_compact data off sz new_text ivs =
     (let live_len = of_nat (length new_text);
          freed = sat_sub sz live_len;
          ps = page_shrink ivs
      in if live_len \<le> sz \<and> ps \<le> freed then
           (let text_end = off + sz; pad_end = text_end - ps
            in case slice_get data off pad_end of
                 None \<Rightarrow> Skipped
               | Some t \<Rightarrow>
                   (if length t < unat live_len then Panicked
                    else
                      (let data1 = splice_at data (unat off)
                             (new_text @ replicate (length t - length new_text) 0)
                       in if 0 < ps then
                            (if text_end < pad_end \<or> length data1 < unat text_end then Panicked
                             else Compacted (take (unat pad_end) data1 @ drop (unat text_end) data1))
                          else Compacted data1)))
         else Skipped)"

definition compact_text :: "bytes \<Rightarrow> sect list \<Rightarrow> ival list \<Rightarrow> (bytes \<times> u64) option" where
  "compact_text data sections ivs =
     (case find_section ''.text'' sections of
        None \<Rightarrow> Some (data, 0)
      | Some tx \<Rightarrow>
          (case text_file_range tx (data_len data) of
             None \<Rightarrow> Some (data, 0)
           | Some (off, sz) \<Rightarrow>
               (let new_text = build_live_text data ivs off sz (s_vaddr tx);
                    saved = sat_sub sz (of_nat (length new_text))
                in if saved = 0 then Some (data, 0)
                   else (case apply_compact data off sz new_text ivs of
                           Skipped \<Rightarrow> Some (data, 0)
                         | Compacted d \<Rightarrow> Some (d, saved)
                         | Panicked \<Rightarrow> None))))"

section \<open>The check\<close>

lemma fits_loop_chain: "prev \<le> te \<Longrightarrow> fits_loop prev ivs te \<longleftrightarrow> chain prev ivs te"
proof (induction prev ivs te rule: fits_loop.induct)
  case (2 prev s e ivs te)
  then show ?case by (auto simp: not_less not_le dest: chain_le)
qed simp

lemma text_file_range_eq:
  "text_file_range tx len =
     (if unat (s_offset tx) + unat (s_size tx) \<le> unat len then Some (s_offset tx, s_size tx) else None)"
proof -
  have "unat (s_offset tx + s_size tx) = unat (s_offset tx) + unat (s_size tx)"
    if "unat (s_offset tx) + unat (s_size tx) < 18446744073709551616"
    using that by (simp add: unat_add_le)
  then show ?thesis
    by (auto simp: text_file_range_def checked_add_def Let_def word_le_nat_alt intro: lt64I)
qed

text \<open>What a plan that passed the check looks like.\<close>

definition text_plan :: "bytes \<Rightarrow> sect \<Rightarrow> ival list \<Rightarrow> bool" where
  "text_plan data tx ivs \<longleftrightarrow>
     vec_ok data \<and> unat (s_offset tx) + unat (s_size tx) \<le> length data
     \<and> unat (s_vaddr tx) + unat (s_size tx) < 2 ^ 64
     \<and> chain (s_vaddr tx) ivs (s_vaddr tx + s_size tx)"

lemma compaction_fits_plan:
  assumes "vec_ok data"
  shows "compaction_fits (data_len data) sections ivs \<longleftrightarrow>
    (\<exists>tx. find_section ''.text'' sections = Some tx \<and> text_plan data tx ivs)"
proof (cases "find_section ''.text'' sections")
  case None
  then show ?thesis by (simp add: compaction_fits_def)
next
  case (Some tx)
  have "s_vaddr tx \<le> s_vaddr tx + s_size tx"
    if "unat (s_vaddr tx) + unat (s_size tx) < 2 ^ 64"
    using that by (simp add: word_le_nat_alt unat_add_le)
  then show ?thesis
    using assms
    by (auto simp: Some compaction_fits_def text_plan_def checked_add_def fits_loop_chain vec_ok_unat
        text_file_range_eq split: if_splits)
qed

section \<open>The live bytes\<close>

definition live_at :: "ival list \<Rightarrow> u64 \<Rightarrow> nat \<Rightarrow> bool" where
  "live_at ivs vma j \<longleftrightarrow> vma + of_nat j \<notin> dead_set ivs"

lemma nths_agree: "(\<And>j. j < length xs \<Longrightarrow> j \<in> A \<longleftrightarrow> j \<in> B) \<Longrightarrow> nths xs A = nths xs B"
proof (induction xs arbitrary: A B)
  case (Cons x xs)
  have "nths xs {j. Suc j \<in> A} = nths xs {j. Suc j \<in> B}"
    by (rule Cons.IH) (use Cons.prems in force)
  with Cons.prems [of 0] show ?case by (simp add: nths_Cons)
qed simp

lemma nths_all: "(\<And>j. j < length xs \<Longrightarrow> j \<in> A) \<Longrightarrow> nths xs A = xs"
  using nths_agree [of xs A UNIV] by (simp add: nths_def)

lemma nths_none: "(\<And>j. j < length xs \<Longrightarrow> j \<notin> A) \<Longrightarrow> nths xs A = []"
  using nths_agree [of xs A "{}"] by simp

lemma nths_rank:
  assumes "i < length xs" and "i \<in> A"
  shows "nths xs A ! card {j. j < i \<and> j \<in> A} = xs ! i"
    and "card {j. j < i \<and> j \<in> A} < length (nths xs A)"
proof -
  have split: "nths xs A = nths (take i xs) A @ nths (drop i xs) {j. j + i \<in> A}"
    using nths_append [of "take i xs" "drop i xs" A] assms(1) by (simp add: min_def)
  have len: "length (nths (take i xs) A) = card {j. j < i \<and> j \<in> A}"
    using assms(1) by (auto simp: length_nths min_def intro: arg_cong [where f = card])
  have hd: "nths (drop i xs) {j. j + i \<in> A} = xs ! i # nths (drop (Suc i) xs) {j. Suc j + i \<in> A}"
    using assms by (simp add: nths_Cons flip: Cons_nth_drop_Suc)
  show "nths xs A ! card {j. j < i \<and> j \<in> A} = xs ! i"
    and "card {j. j < i \<and> j \<in> A} < length (nths xs A)"
    by (simp_all add: split hd nth_append flip: len)
qed


lemma live_loop_spec:
  assumes "chain (vma + pos) ivs (vma + sz)" and "unat pos \<le> unat sz"
    and "length tx = unat sz" and "unat vma + unat sz < 2 ^ 64"
  shows "live_loop tx vma sz pos ivs
    = nths (drop (unat pos) tx) {j. live_at ivs vma (j + unat pos)}"
  using assms(1,2)
proof (induction ivs arbitrary: pos)
  case Nil
  then show ?case using assms(3) by (simp add: live_at_def nths_all)
next
  case (Cons iv ivs)
  obtain s e where iv: "iv = (s, e)" by (cases iv)
  have upos: "unat (vma + pos) = unat vma + unat pos" and usz: "unat (vma + sz) = unat vma + unat sz"
    using Cons.prems(2) assms(4) by (auto intro!: unat_add_le)
  have ch: "vma + pos \<le> s" "s \<le> e" "chain e ivs (vma + sz)" using Cons.prems(1) by (auto simp: iv)
  have e_hi: "e \<le> vma + sz" using chain_le [OF ch(3)] .
  define p ds de where "p = unat pos" and "ds = unat s - unat vma" and "de = unat e - unat vma"
  have le: "p \<le> ds" "ds \<le> de" "de \<le> unat sz" "unat vma \<le> unat s" "unat vma \<le> unat e"
    using ch e_hi by (auto simp: p_def ds_def de_def word_le_nat_alt upos usz)
  have us: "unat (s - vma) = ds" and ue: "unat (e - vma) = de"
    using le by (auto simp: ds_def de_def unat_sub word_le_nat_alt)
  have dead: "live_at ((s, e) # ivs) vma k \<longleftrightarrow> (if k < ds then True else if k < de then False
      else live_at ivs vma k)" if "k < unat sz" for k
  proof -
    have uk: "unat (vma + of_nat k) = unat vma + k"
      using that assms(4) lt64I [of k sz] by (simp add: unat_add_le unat_of_nat)
    have "dead_set ivs \<subseteq> {e..<vma + sz}" using chain_set [OF ch(3)] .
    then have "vma + of_nat k \<notin> dead_set ivs" if "k < de"
      using that uk le by (auto simp: subset_iff word_le_nat_alt de_def)
    then show ?thesis
      using uk le by (auto simp: live_at_def word_le_nat_alt word_less_nat_alt ds_def de_def)
  qed
  have parts: "drop p tx = take (ds - p) (drop p tx) @ take (de - ds) (drop ds tx) @ drop de tx"
    using le assms(3) by (metis append_take_drop_id drop_drop le_add_diff_inverse2)
  let ?A = "{j. live_at ((s, e) # ivs) vma (j + p)}"
  have "nths (drop p tx) ?A
      = take (ds - p) (drop p tx) @ [] @ nths (drop de tx) {j. live_at ivs vma (j + de)}"
  proof -
    have "nths (take (ds - p) (drop p tx)) ?A = take (ds - p) (drop p tx)"
      by (rule nths_all) (use dead le assms(3) in auto)
    moreover have "nths (take (de - ds) (drop ds tx)) {j. j + (ds - p) \<in> ?A} = []"
      by (rule nths_none) (use dead le assms(3) in auto)
    moreover have "nths (drop de tx) {j. j + (de - ds) + (ds - p) \<in> ?A}
        = nths (drop de tx) {j. live_at ivs vma (j + de)}"
      by (rule nths_agree) (use dead le assms(3) in auto)
    ultimately show ?thesis
      using le assms(3) by (subst parts) (simp add: nths_append min_def)
  qed
  moreover have "live_loop tx vma sz (e - vma) ivs = nths (drop de tx) {j. live_at ivs vma (j + de)}"
    using Cons.IH [of "e - vma"] ch(3) le by (simp add: ue)
  moreover have "slice_get tx pos (s - vma) = Some (take (ds - p) (drop p tx))"
    using le assms(3) by (simp add: slice_get_def us word_le_nat_alt p_def)
  moreover have "max pos (e - vma) = e - vma" using le by (simp add: max_def word_le_nat_alt ue p_def)
  moreover have "\<not> (s < vma \<or> e < s \<or> sz < e - vma)"
    using le ch(2) by (auto simp: word_less_nat_alt not_less ue word_le_nat_alt)
  ultimately show ?case by (simp add: iv Let_def p_def del: de_Morgan_disj)
qed


lemma live_rank:
  assumes "chain vma ivs (vma + sz)" and "unat vma + unat sz < 2 ^ 64" and "i \<le> unat sz"
  shows "card {j. j < i \<and> live_at ivs vma j} + card (dead_below (vma + of_nat i) ivs) = i"
proof -
  have u: "unat (vma + of_nat k) = unat vma + k" if "k \<le> unat sz" for k
    using that assms(2) lt64I [of k sz] by (simp add: unat_add_le unat_of_nat)
  have low: "vma \<le> x" if "x \<in> dead_set ivs" for x using chain_set [OF assms(1)] that by auto
  have "bij_betw (\<lambda>j. vma + of_nat j) {j. j < i \<and> \<not> live_at ivs vma j} (dead_below (vma + of_nat i) ivs)"
  proof (rule bij_betw_byWitness [where f' = "\<lambda>x. unat x - unat vma"])
    show "\<forall>a\<in>{j. j < i \<and> \<not> live_at ivs vma j}. unat (vma + of_nat a) - unat vma = a"
      using u assms(3) by auto
    show "\<forall>a'\<in>dead_below (vma + of_nat i) ivs. vma + of_nat (unat a' - unat vma) = a'"
      using low by (auto simp: dead_below_def word_le_nat_alt of_nat_diff)
    show "(\<lambda>j. vma + of_nat j) ` {j. j < i \<and> \<not> live_at ivs vma j} \<subseteq> dead_below (vma + of_nat i) ivs"
      using u assms(3) by (auto simp: dead_below_def live_at_def word_less_nat_alt)
    show "(\<lambda>x. unat x - unat vma) ` dead_below (vma + of_nat i) ivs \<subseteq> {j. j < i \<and> \<not> live_at ivs vma j}"
    proof
      fix j assume "j \<in> (\<lambda>x. unat x - unat vma) ` dead_below (vma + of_nat i) ivs"
      then obtain x where x: "x \<in> dead_set ivs" "x < vma + of_nat i" "j = unat x - unat vma"
        by (auto simp: dead_below_def)
      then have "unat vma \<le> unat x" "unat x < unat vma + i"
        using low u assms(3) by (auto simp: word_less_nat_alt word_le_nat_alt)
      then show "j \<in> {j. j < i \<and> \<not> live_at ivs vma j}"
        using x by (simp add: live_at_def of_nat_diff less_diff_conv2)
    qed
  qed
  then have "card {j. j < i \<and> \<not> live_at ivs vma j} = card (dead_below (vma + of_nat i) ivs)"
    by (rule bij_betw_same_card)
  moreover have "{..<i} = {j. j < i \<and> live_at ivs vma j} \<union> {j. j < i \<and> \<not> live_at ivs vma j}" by auto
  then have "i = card {j. j < i \<and> live_at ivs vma j} + card {j. j < i \<and> \<not> live_at ivs vma j}"
    by (subst card_Un_disjoint [symmetric]) (auto simp flip: \<open>{..<i} = _\<close>)
  ultimately show ?thesis by simp
qed

section \<open>The compaction as one equation\<close>

definition text_bytes :: "bytes \<Rightarrow> sect \<Rightarrow> bytes" where
  "text_bytes data tx = take (unat (s_size tx)) (drop (unat (s_offset tx)) data)"

definition live_text :: "bytes \<Rightarrow> sect \<Rightarrow> ival list \<Rightarrow> bytes" where
  "live_text data tx ivs = nths (text_bytes data tx) {j. live_at ivs (s_vaddr tx) j}"

lemma plan_facts:
  assumes "text_plan data tx ivs"
  shows "vec_ok data" and "unat (s_offset tx) + unat (s_size tx) \<le> length data"
    and "unat (s_vaddr tx) + unat (s_size tx) < 2 ^ 64"
    and "chain (s_vaddr tx) ivs (s_vaddr tx + s_size tx)"
    and "unat (s_offset tx + s_size tx) = unat (s_offset tx) + unat (s_size tx)"
  using assms by (auto simp: text_plan_def vec_ok_def intro!: unat_add_le)

lemma length_text_bytes: "text_plan data tx ivs \<Longrightarrow> length (text_bytes data tx) = unat (s_size tx)"
  using plan_facts(2) [of data tx ivs] by (simp add: text_bytes_def)

lemma build_live_text_eq:
  assumes "text_plan data tx ivs"
  shows "build_live_text data ivs (s_offset tx) (s_size tx) (s_vaddr tx) = live_text data tx ivs"
proof -
  have "slice_get data (s_offset tx) (s_offset tx + s_size tx) = Some (text_bytes data tx)"
    using plan_facts(2,5) [OF assms] by (simp add: slice_get_def text_bytes_def word_le_nat_alt)
  then show ?thesis
    using live_loop_spec [of "s_vaddr tx" 0 ivs "s_size tx" "text_bytes data tx"]
      plan_facts(3,4) [OF assms] length_text_bytes [OF assms]
    by (simp add: build_live_text_def live_text_def)
qed

lemma dead_total:
  "text_plan data tx ivs \<Longrightarrow> dead_below (s_vaddr tx + s_size tx) ivs = dead_set ivs"
  using chain_set [OF plan_facts(4)] by (fastforce simp: dead_below_def)

lemma length_live_text:
  assumes "text_plan data tx ivs"
  shows "length (live_text data tx ivs) + unat (total_dead ivs) = unat (s_size tx)"
  using live_rank [OF plan_facts(4,3) [OF assms] order_refl]
  by (simp add: live_text_def length_nths length_text_bytes [OF assms] dead_total [OF assms]
      unat_total_dead [OF plan_facts(4) [OF assms]])

lemma compact_text_eq:
  assumes plan: "text_plan data tx ivs" and sec: "find_section ''.text'' sections = Some tx"
  shows "compact_text data sections ivs = Some
    (take (unat (s_offset tx)) data @ live_text data tx ivs
       @ replicate (unat (total_dead ivs) - unat (page_shrink ivs)) 0
       @ drop (unat (s_offset tx) + unat (s_size tx)) data,
     total_dead ivs)"
proof -
  define off n where "off = unat (s_offset tx)" and "n = unat (s_size tx)"
  let ?new = "live_text data tx ivs" and ?ps = "page_shrink ivs" and ?td = "total_dead ivs"
  note pf = plan_facts [OF plan] and lt_len = length_text_bytes [OF plan]
  note blt = build_live_text_eq [OF plan]
  have len: "length ?new + unat ?td = n" using length_live_text [OF plan] by (simp add: n_def)
  have ps: "unat ?ps \<le> unat ?td" using page_shrink_le by (simp add: word_le_nat_alt)
  have "length ?new < 2 ^ 64" using len lt64I [of "length ?new" "s_size tx"] by (simp add: n_def)
  then have ulen: "unat (of_nat (length ?new) :: 64 word) = length ?new" by (simp add: unat_of_nat)
  have saved: "sat_sub (s_size tx) (of_nat (length ?new)) = ?td"
    using len by (simp add: word_unat_eq_iff ulen n_def)
  have range: "text_file_range tx (data_len data) = Some (s_offset tx, s_size tx)"
    using pf(1,2) by (simp add: text_file_range_eq vec_ok_unat)
  show ?thesis
  proof (cases "?td = 0")
    case True
    then have "length ?new = length (text_bytes data tx)" and "unat ?ps = 0"
      using len ps by (simp_all add: lt_len n_def)
    then have "card {j. j < n \<and> live_at ivs (s_vaddr tx) j} = n"
      by (simp add: live_text_def length_nths lt_len n_def)
    then have "\<forall>j<n. live_at ivs (s_vaddr tx) j"
      using card_subset_eq [of "{..<n}" "{j. j < n \<and> live_at ivs (s_vaddr tx) j}"] by auto
    then have "?new = text_bytes data tx"
      unfolding live_text_def by (intro nths_all) (simp add: lt_len n_def)
    then show ?thesis
      using True \<open>unat ?ps = 0\<close> saved range pf(2)
      by (simp add: compact_text_def sec blt text_bytes_def flip: append_assoc take_add)
  next
    case False
    have pe: "unat (s_offset tx + s_size tx - ?ps) = off + n - unat ?ps"
      using pf(5) ps len by (simp add: unat_sub word_le_nat_alt off_def n_def)
    have le: "length ?new \<le> n - unat ?ps" "unat ?ps \<le> n" "off + n \<le> length data"
      using len ps pf(2) by (auto simp: off_def n_def)
    define t where "t = take (n - unat ?ps) (drop off data)"
    have t: "slice_get data (s_offset tx) (s_offset tx + s_size tx - ?ps) = Some t"
      using pe le by (simp add: slice_get_def word_le_nat_alt off_def t_def; linarith)
    have lt: "length t = n - unat ?ps" using le by (simp add: t_def)
    define d1 where "d1 = splice_at data off (?new @ replicate (length t - length ?new) 0)"
    have d1: "d1 = take off data @ ?new @ replicate (unat ?td - unat ?ps) 0 @ drop (off + n - unat ?ps) data"
      using le len ps by (simp add: d1_def splice_at_def lt add.assoc; simp add: add.commute)
    have "apply_compact data (s_offset tx) (s_size tx) ?new ivs
        = Compacted (take (off + n - unat ?ps) d1 @ drop (off + n) d1)"
    proof -
      have "of_nat (length ?new) \<le> s_size tx" using len by (simp add: word_le_nat_alt ulen n_def)
      moreover have "\<not> s_offset tx + s_size tx < s_offset tx + s_size tx - ?ps"
        using pe pf(5) by (simp add: word_less_nat_alt off_def n_def)
      moreover have "length d1 = length data"
        using le by (simp add: d1_def lt)
      moreover have "\<not> length t < length ?new" using le lt by simp
      moreover have "?ps = 0 \<Longrightarrow> d1 = take (off + n) d1 @ drop (off + n) d1" by simp
      moreover have "?ps = 0 \<or> 0 < ?ps" by (auto simp: word_gt_0)
      ultimately show ?thesis
        using le(2,3) t pe pf(5)
        by (auto simp: apply_compact_def Let_def saved page_shrink_le ulen not_less
            off_def [symmetric] n_def [symmetric] d1_def [symmetric])
    qed
    moreover have "take (off + n - unat ?ps) d1
        = take off data @ ?new @ replicate (unat ?td - unat ?ps) 0"
      using le len ps by (simp add: d1)
    moreover have "drop (off + n) d1 = drop (off + n) data"
      using le len ps by (simp add: d1)
    ultimately show ?thesis
      using False saved range by (simp add: compact_text_def sec blt Let_def off_def n_def)
  qed
qed

section \<open>Properties\<close>

lemma nth_append4:
  assumes "length p = off"
  shows "(p @ l @ z @ q) ! k =
    (if k < off then p ! k else if k < off + length l then l ! (k - off)
     else if k < off + length l + length z then z ! (k - (off + length l))
     else q ! (k - (off + length l + length z)))"
  using assms by (auto simp: nth_append)

text \<open>C28. The check characterises the plans: it accepts exactly when the file has a .text
  section whose file range lies inside the file and whose addresses do not wrap, and the
  intervals are sorted, disjoint and inside it.\<close>

theorem compaction_fits_iff:
  assumes "vec_ok data"
  shows "compaction_fits (data_len data) sections ivs \<longleftrightarrow>
    (\<exists>tx. find_section ''.text'' sections = Some tx
      \<and> unat (s_offset tx) + unat (s_size tx) \<le> length data
      \<and> unat (s_vaddr tx) + unat (s_size tx) < 2 ^ 64
      \<and> chain (s_vaddr tx) ivs (s_vaddr tx + s_size tx))"
  using compaction_fits_plan [OF assms] assms by (auto simp: text_plan_def)

theorem compaction_fits_iff_witness:
  "compaction_fits (data_len [0x55, 0x90, 0x90, 0xC3])
     [\<lparr>s_name = ''.text'', s_size = 4, s_vaddr = 0x1000, s_offset = 0, s_align = 1\<rparr>]
     [(0x1001, 0x1003)]"
  by (subst compaction_fits_iff) (simp_all add: vec_ok_def find_section_def)

text \<open>The new offset of a live byte of .text is its position among the live bytes.\<close>

lemma live_text_new_addr:
  assumes plan: "text_plan data tx ivs"
    and a: "s_vaddr tx \<le> a" "a < s_vaddr tx + s_size tx" "\<not> in_dead_range a ivs"
  shows "unat (new_addr ivs a) - unat (s_vaddr tx) < length (live_text data tx ivs)"
    and "live_text data tx ivs ! (unat (new_addr ivs a) - unat (s_vaddr tx))
      = data ! (unat (s_offset tx) + (unat a - unat (s_vaddr tx)))"
proof -
  note pf = plan_facts [OF plan]
  define i where "i = unat a - unat (s_vaddr tx)"
  have n: "unat (s_vaddr tx + s_size tx) = unat (s_vaddr tx) + unat (s_size tx)"
    using pf(3) by (simp add: unat_add_le)
  then have i: "i < unat (s_size tx)" and ai: "s_vaddr tx + of_nat i = a"
    using a by (auto simp: i_def word_le_nat_alt word_less_nat_alt of_nat_diff)
  let ?A = "{j. live_at ivs (s_vaddr tx) j}"
  have iA: "i \<in> ?A" using a(3) ai by (simp add: live_at_def in_dead_range_iff)
  have "card {j. j < i \<and> j \<in> ?A} + card (dead_below a ivs) = i"
    using live_rank [OF pf(4,3), of i] i ai by simp
  then have rank: "unat (new_addr ivs a) - unat (s_vaddr tx) = card {j. j < i \<and> j \<in> ?A}"
    using a(1) by (simp add: unat_new_addr [OF pf(4)] i_def word_le_nat_alt)
  have l: "i < length (text_bytes data tx)" using i length_text_bytes [OF plan] by simp
  note r = nths_rank [OF l iA]
  show "unat (new_addr ivs a) - unat (s_vaddr tx) < length (live_text data tx ivs)"
    using r(2) by (simp add: rank live_text_def)
  have "live_text data tx ivs ! card {j. j < i \<and> j \<in> ?A} = text_bytes data tx ! i"
    using r(1) by (simp add: live_text_def)
  also have "\<dots> = data ! (unat (s_offset tx) + i)"
    using i l by (simp add: text_bytes_def)
  finally show "live_text data tx ivs ! (unat (new_addr ivs a) - unat (s_vaddr tx))
      = data ! (unat (s_offset tx) + (unat a - unat (s_vaddr tx)))"
    by (simp add: rank i_def)
qed

text \<open>C6. The compaction theorem. For a plan that passed the check the compaction never panics
  and is never skipped; it reports every dead byte; the file shrinks by the page-aligned part of
  them; every live .text byte moves to its new address; what precedes .text stays and what
  follows it moves down by the page shrink; and the rest of the page is zero.\<close>

theorem compact_text_moves:
  assumes ok: "vec_ok data" and fits: "compaction_fits (data_len data) sections ivs"
    and sec: "find_section ''.text'' sections = Some tx"
  shows "\<exists>data'. compact_text data sections ivs = Some (data', total_dead ivs)
    \<and> length data' = length data - unat (page_shrink ivs)
    \<and> (\<forall>a. s_vaddr tx \<le> a \<longrightarrow> a < s_vaddr tx + s_size tx \<longrightarrow> \<not> in_dead_range a ivs \<longrightarrow>
        data' ! (unat (s_offset tx) + (unat (new_addr ivs a) - unat (s_vaddr tx)))
          = data ! (unat (s_offset tx) + (unat a - unat (s_vaddr tx))))
    \<and> (\<forall>k < unat (s_offset tx). data' ! k = data ! k)
    \<and> (\<forall>k < length data. unat (s_offset tx) + unat (s_size tx) \<le> k \<longrightarrow>
        data' ! (k - unat (page_shrink ivs)) = data ! k)
    \<and> (\<forall>k. unat (s_offset tx) + (unat (s_size tx) - unat (total_dead ivs)) \<le> k \<longrightarrow>
        k < unat (s_offset tx) + (unat (s_size tx) - unat (page_shrink ivs)) \<longrightarrow> data' ! k = 0)"
proof -
  from fits have plan: "text_plan data tx ivs" using ok sec by (auto simp: compaction_fits_plan)
  note pf = plan_facts [OF plan]
  define off n L td ps where "off = unat (s_offset tx)" and "n = unat (s_size tx)"
    and "L = length (live_text data tx ivs)" and "td = unat (total_dead ivs)"
    and "ps = unat (page_shrink ivs)"
  define data' where "data' = take off data @ live_text data tx ivs @ replicate (td - ps) 0
    @ drop (off + n) data"
  have le: "L + td = n" "ps \<le> td" "off + n \<le> length data"
    using length_live_text [OF plan] page_shrink_le [of ivs] pf(2)
    by (auto simp: L_def td_def n_def ps_def off_def word_le_nat_alt)
  have eq: "compact_text data sections ivs = Some (data', total_dead ivs)"
    using compact_text_eq [OF plan sec] by (simp add: data'_def off_def n_def td_def ps_def)
  have tk: "length (take off data) = off" using le by simp
  have at: "data' ! k =
      (if k < off then data ! k else if k < off + L then live_text data tx ivs ! (k - off)
       else if k < off + L + (td - ps) then 0 else data ! (k + ps))" if "k + ps < length data" for k
    using that le by (auto simp: data'_def nth_append4 [OF tk] L_def [symmetric] algebra_simps)
  have live: "data' ! (off + (unat (new_addr ivs a) - unat (s_vaddr tx)))
      = data ! (off + (unat a - unat (s_vaddr tx)))"
    if a: "s_vaddr tx \<le> a" "a < s_vaddr tx + s_size tx" "\<not> in_dead_range a ivs" for a
    using live_text_new_addr [OF plan a] le by (subst at) (auto simp: L_def off_def)
  have before: "data' ! k = data ! k" if "k < off" for k
    using that le by (simp add: data'_def nth_append4 [OF tk])
  have after: "data' ! (k - ps) = data ! k" if "k < length data" "off + n \<le> k" for k
    using that le by (subst at) auto
  have pad: "data' ! k = 0" if "off + (n - td) \<le> k" "k < off + (n - ps)" for k
    using that le by (subst at) auto
  have "length data' = length data - ps" using le by (simp add: data'_def tk L_def)
  with eq live before after pad show ?thesis
    unfolding off_def n_def td_def ps_def by blast
qed

theorem compact_text_moves_witness:
  "compact_text [0x55, 0x90, 0x90, 0xC3]
     [\<lparr>s_name = ''.text'', s_size = 4, s_vaddr = 0x1000, s_offset = 0, s_align = 1\<rparr>]
     [(0x1001, 0x1003)] = Some ([0x55, 0xC3, 0, 0], 2)
   \<and> (\<exists>d. compact_text [0x55, 0x90, 0x90, 0xC3]
     [\<lparr>s_name = ''.text'', s_size = 4, s_vaddr = 0x1000, s_offset = 0, s_align = 1\<rparr>]
     [(0x1001, 0x1003)] = Some (d, 2) \<and> length d = 4)"
proof -
  let ?d = "[0x55, 0x90, 0x90, 0xC3] :: bytes"
  let ?t = "\<lparr>s_name = ''.text'', s_size = 4, s_vaddr = 0x1000, s_offset = 0, s_align = 1\<rparr>"
  let ?i = "[(0x1001, 0x1003)] :: ival list"
  have "vec_ok ?d" "find_section ''.text'' [?t] = Some ?t"
    by (simp_all add: vec_ok_def find_section_def)
  moreover have "compaction_fits (data_len ?d) [?t] ?i"
    by (simp add: compaction_fits_def find_section_def checked_add_def text_file_range_eq data_len_def)
  moreover have td: "total_dead ?i = 2" and ps: "page_shrink ?i = 0"
    by (simp_all add: page_shrink_def total_dead_def PAGE_SIZE_def sat_sub_def)
  moreover have ev: "compact_text ?d [?t] ?i = Some ([0x55, 0xC3, 0, 0], 2)"
    by (simp add: compact_text_def find_section_def text_file_range_eq data_len_def build_live_text_def
        slice_get_def apply_compact_def Let_def sat_sub_def ps splice_at_def max_def)
  ultimately have "\<exists>d. compact_text ?d [?t] ?i = Some (d, 2) \<and> length d = 4"
    using compact_text_moves [of ?d "[?t]" ?i ?t] by fastforce
  with ev show ?thesis by blast
qed

end
