(* ===== verification/DataPtrs.thy ===== *)
theory DataPtrs
  imports Relocation
begin

text \<open>
  \<open>src/patch/data_ptrs.rs\<close> and \<open>src/decode/scan.rs\<close>: the loops over the pointer-sized slots
  of the data sections. The first rewrites every pointer that moved, the second collects the
  pointers into .text or to known functions. A slot read outside the buffer panics (\<open>None\<close>).
\<close>

section \<open>The code\<close>

definition PTR_SECTIONS :: "string list" where
  "PTR_SECTIONS = [''.got'', ''.got.plt'', ''.init_array'', ''.fini_array'', ''.ctors'', ''.dtors'']"

definition MIXED_SECTIONS :: "string list" where
  "MIXED_SECTIONS = [''.rodata'', ''.data'', ''.data.rel.ro'']"

definition slot_width :: "bool \<Rightarrow> usize" where
  "slot_width is64 = (if is64 then 8 else 4)"

text \<open>The shift of one slot value.\<close>

definition slot_shift :: "u64 \<Rightarrow> ival list \<Rightarrow> u64 \<Rightarrow> u64 \<Rightarrow> bool \<Rightarrow> u64" where
  "slot_shift val ivs ts te use_total =
     (if use_total then total_shift val ivs ts te
      else if ts \<le> val \<and> val < te then shift_at val ivs
      else 0)"

lemma slot_width_nat: "slot_width is64 = of_nat (ptr_size is64)"
  by (simp add: slot_width_def ptr_size_def)

lemma unat_slot_width: "unat (slot_width is64) = ptr_size is64"
  by (simp add: slot_width_def ptr_size_def)

lemma slot_next:
  assumes "read_ptr data i is64 endian = Some v"
  shows "unat (i + slot_width is64) = unat i + ptr_size is64"
proof -
  have "i \<le> i + slot_width is64"
    using assms by (auto simp: read_ptr_def slot_width_def slice_get_def split: if_splits)
  then show ?thesis
    using no_olen_add_nat [of i "slot_width is64"] by (simp add: unat_add_le unat_slot_width)
qed

function patch_slots ::
  "bytes \<Rightarrow> usize \<Rightarrow> usize \<Rightarrow> bool \<Rightarrow> endian \<Rightarrow> ival list \<Rightarrow> u64 \<Rightarrow> u64 \<Rightarrow> bool \<Rightarrow> bytes option" where
  "patch_slots data i stop is64 endian ivs ts te use_total =
     (if i + slot_width is64 \<le> stop then do {
        val \<leftarrow> read_ptr data i is64 endian;
        let shift = slot_shift val ivs ts te use_total;
        data' \<leftarrow> (if 0 < shift then write_ptr data i (val - shift) is64 endian else Some data);
        patch_slots data' (i + slot_width is64) stop is64 endian ivs ts te use_total
      } else Some data)"
  by pat_completeness auto
termination
proof (relation "measure (\<lambda>(data, i, stop, _). unat stop - unat i)")
  fix data is64 endian ivs use_total val shift data' and i stop ts te :: u64
  assume le: "i + slot_width is64 \<le> stop" and r: "read_ptr data i is64 endian = Some val"
  have "unat i < unat (i + slot_width is64)" by (simp add: slot_next [OF r] ptr_size_def)
  moreover have "unat (i + slot_width is64) \<le> unat stop" using le by (simp add: word_le_nat_alt)
  ultimately show "((data', i + slot_width is64, stop, is64, endian, ivs, ts, te, use_total),
      (data, i, stop, is64, endian, ivs, ts, te, use_total))
      \<in> measure (\<lambda>(data, i, stop, _). unat stop - unat i)" by simp
qed simp

declare patch_slots.simps [simp del]

definition sec_end :: "bytes \<Rightarrow> sect \<Rightarrow> usize" where
  "sec_end data sec = min (s_offset sec + s_size sec) (data_len data)"

definition patch_one_data_sec ::
  "bytes \<Rightarrow> sect \<Rightarrow> bool \<Rightarrow> endian \<Rightarrow> ival list \<Rightarrow> u64 \<Rightarrow> u64 \<Rightarrow> bool \<Rightarrow> bytes option" where
  "patch_one_data_sec data sec is64 endian ivs ts te use_total =
     patch_slots data (s_offset sec) (sec_end data sec) is64 endian ivs ts te use_total"

fun patch_data_ptrs ::
  "bytes \<Rightarrow> sect list \<Rightarrow> ival list \<Rightarrow> u64 \<Rightarrow> u64 \<Rightarrow> bool \<Rightarrow> endian \<Rightarrow> bytes option" where
  "patch_data_ptrs data [] ivs ts te is64 endian = Some data"
| "patch_data_ptrs data (sec # secs) ivs ts te is64 endian =
     (let use_total = List.member PTR_SECTIONS (s_name sec);
          use_text = List.member MIXED_SECTIONS (s_name sec)
      in if \<not> use_total \<and> \<not> use_text then patch_data_ptrs data secs ivs ts te is64 endian
         else do {
           data' \<leftarrow> patch_one_data_sec data sec is64 endian ivs ts te use_total;
           patch_data_ptrs data' secs ivs ts te is64 endian
         })"

text \<open>The scanning loop of \<open>scan_one_section\<close> and \<open>scan_data_code_refs\<close>: the slot values
  that satisfy a test are inserted into the set \<open>refs\<close>.\<close>

function scan_slots ::
  "bytes \<Rightarrow> usize \<Rightarrow> usize \<Rightarrow> bool \<Rightarrow> endian \<Rightarrow> (u64 \<Rightarrow> bool) \<Rightarrow> u64 set \<Rightarrow> u64 set option" where
  "scan_slots data i stop is64 endian wanted refs =
     (if i + slot_width is64 \<le> stop then do {
        val \<leftarrow> read_ptr data i is64 endian;
        scan_slots data (i + slot_width is64) stop is64 endian wanted
          (if wanted val then insert val refs else refs)
      } else Some refs)"
  by pat_completeness auto
termination
proof (relation "measure (\<lambda>(data, i, stop, _). unat stop - unat i)")
  fix data is64 endian wanted refs val and i stop :: u64
  assume le: "i + slot_width is64 \<le> stop" and r: "read_ptr data i is64 endian = Some val"
  have "unat i < unat (i + slot_width is64)" by (simp add: slot_next [OF r] ptr_size_def)
  moreover have "unat (i + slot_width is64) \<le> unat stop" using le by (simp add: word_le_nat_alt)
  ultimately show "((data, i + slot_width is64, stop, is64, endian, wanted,
        if wanted val then insert val refs else refs), (data, i, stop, is64, endian, wanted, refs))
      \<in> measure (\<lambda>(data, i, stop, _). unat stop - unat i)" by simp
qed simp

declare scan_slots.simps [simp del]

definition scan_one_section ::
  "bytes \<Rightarrow> sect \<Rightarrow> bool \<Rightarrow> endian \<Rightarrow> u64 set \<Rightarrow> u64 set \<Rightarrow> u64 set option" where
  "scan_one_section data sec is64 endian func_addrs refs =
     scan_slots data (s_offset sec) (sec_end data sec) is64 endian (\<lambda>val. val \<in> func_addrs) refs"

definition func_scan_names :: "string list" where
  "func_scan_names = [''.rodata'', ''.data'', ''.data.rel.ro'', ''.init_array'', ''.fini_array'',
     ''.got'', ''.got.plt'', ''.rdata'', ''.ctors'', ''.dtors'']"

definition code_scan_names :: "string list" where
  "code_scan_names = [''.data'', ''.data.rel.ro'', ''.got'', ''.got.plt'', ''.init_array'',
     ''.fini_array'', ''.ctors'', ''.dtors'', ''.rdata'']"

fun scan_sections ::
  "(sect \<Rightarrow> u64 set \<Rightarrow> u64 set option) \<Rightarrow> string list \<Rightarrow> sect list \<Rightarrow> u64 set \<Rightarrow> u64 set option" where
  "scan_sections scan names [] refs = Some refs"
| "scan_sections scan names (sec # secs) refs =
     (if \<not> List.member names (s_name sec) then scan_sections scan names secs refs
      else do { refs' \<leftarrow> scan sec refs; scan_sections scan names secs refs' })"

definition scan_data_for_func_addrs ::
  "bytes \<Rightarrow> u64 set \<Rightarrow> sect list \<Rightarrow> bool \<Rightarrow> endian \<Rightarrow> u64 set option" where
  "scan_data_for_func_addrs data func_addrs sections is64 endian =
     scan_sections (\<lambda>sec refs. scan_one_section data sec is64 endian func_addrs refs)
       func_scan_names sections {}"

definition scan_data_code_refs ::
  "bytes \<Rightarrow> sect list \<Rightarrow> u64 \<Rightarrow> u64 \<Rightarrow> bool \<Rightarrow> endian \<Rightarrow> u64 set option" where
  "scan_data_code_refs data sections text_start text_end is64 endian =
     scan_sections
       (\<lambda>sec refs. scan_slots data (s_offset sec) (sec_end data sec) is64 endian
          (\<lambda>val. text_start \<le> val \<and> val < text_end) refs)
       code_scan_names sections {}"


section \<open>Slots\<close>

text \<open>The pointer at a file position, and the positions of the slots of a range.\<close>

definition slot_val :: "bytes \<Rightarrow> nat \<Rightarrow> bool \<Rightarrow> endian \<Rightarrow> u64" where
  "slot_val data k is64 endian = ptr_value (take (ptr_size is64) (drop k data)) is64 endian"

definition slots :: "nat \<Rightarrow> nat \<Rightarrow> nat \<Rightarrow> nat set" where
  "slots psz i stop = {i + n * psz |n. i + n * psz + psz \<le> stop}"

definition in_slots :: "nat \<Rightarrow> nat \<Rightarrow> nat \<Rightarrow> nat set" where
  "in_slots psz i stop = (\<Union>j \<in> slots psz i stop. {j..<j + psz})"

lemma slots_step:
  assumes "i + psz \<le> stop"
  shows "slots psz i stop = insert i (slots psz (i + psz) stop)"
proof (intro set_eqI iffI)
  fix j assume "j \<in> slots psz i stop"
  then obtain n where n: "j = i + n * psz" "j + psz \<le> stop" by (auto simp: slots_def)
  then show "j \<in> insert i (slots psz (i + psz) stop)"
  proof (cases n)
    case (Suc m)
    then have "j = i + psz + m * psz" using n by simp
    then show ?thesis using n by (auto simp: slots_def)
  qed simp
next
  fix j assume "j \<in> insert i (slots psz (i + psz) stop)"
  then consider "j = i" | n where "j = i + psz + n * psz" "j + psz \<le> stop" by (auto simp: slots_def)
  then show "j \<in> slots psz i stop"
  proof cases
    case 1
    then show ?thesis using assms by (auto simp: slots_def intro: exI [of _ 0])
  next
    case 2
    then have "j = i + Suc n * psz" by simp
    then show ?thesis using 2 unfolding slots_def by blast
  qed
qed

lemma slots_empty: "stop < i + psz \<Longrightarrow> slots psz i stop = {}"
  by (auto simp: slots_def)

lemma slots_ge: "j \<in> slots psz i stop \<Longrightarrow> i \<le> j \<and> j + psz \<le> stop"
  by (auto simp: slots_def)

text \<open>Reading and writing at a slot that lies inside the buffer.\<close>

lemma read_slot:
  assumes "unat i + ptr_size is64 \<le> length data" and "vec_ok data"
  shows "read_ptr data i is64 endian = Some (slot_val data (unat i) is64 endian)"
  using read_ptr_eq [OF assms] by (simp add: slot_val_def)

lemma slot_val_other:
  assumes "length data' = length data"
    and "\<forall>k. j \<le> k \<and> k < j + ptr_size is64 \<longrightarrow> k < length data \<longrightarrow> data' ! k = data ! k"
  shows "slot_val data' j is64 endian = slot_val data j is64 endian"
proof -
  have "take (ptr_size is64) (drop j data') = take (ptr_size is64) (drop j data)"
    using assms by (intro nth_equalityI) auto
  then show ?thesis by (simp add: slot_val_def)
qed

text \<open>What a slot holds after the patch.\<close>

definition moved_ptr :: "u64 \<Rightarrow> bool \<Rightarrow> ival list \<Rightarrow> u64 \<Rightarrow> u64 \<Rightarrow> bool \<Rightarrow> u64" where
  "moved_ptr val is64 ivs ts te use_total =
     (let shift = slot_shift val ivs ts te use_total
      in if shift = 0 then val else if is64 then val - shift else take_bit 32 (val - shift))"

lemma patch_slots_step:
  assumes "vec_ok data" and "unat i + ptr_size is64 \<le> length data"
    and val: "val = slot_val data (unat i) is64 endian"
  obtains data' where
    "(if 0 < slot_shift val ivs ts te use_total
      then write_ptr data i (val - slot_shift val ivs ts te use_total) is64 endian
      else Some data) = Some data'"
    and "length data' = length data"
    and "slot_val data' (unat i) is64 endian = moved_ptr val is64 ivs ts te use_total"
    and "\<And>k. k < unat i \<or> unat i + ptr_size is64 \<le> k \<Longrightarrow> k < length data \<Longrightarrow> data' ! k = data ! k"
proof (cases "slot_shift val ivs ts te use_total = 0")
  case True
  show ?thesis by (rule that [of data]) (use True val in \<open>simp_all add: moved_ptr_def\<close>)
next
  case False
  let ?v = "val - slot_shift val ivs ts te use_total"
  let ?d = "splice_at data (unat i) (ptr_bytes ?v is64 endian)"
  have w: "write_ptr data i ?v is64 endian = Some ?d" using assms by (intro write_ptr_ok)
  have "take (ptr_size is64) (drop (unat i) ?d) = ptr_bytes ?v is64 endian"
    using take_drop_splice [of "unat i" "ptr_bytes ?v is64 endian" data] assms(2) by simp
  then have "slot_val ?d (unat i) is64 endian = moved_ptr val is64 ivs ts te use_total"
    using False by (simp add: slot_val_def ptr_value_bytes moved_ptr_def)
  moreover have "0 < slot_shift val ivs ts te use_total" using False by (simp add: word_neq_0_conv)
  moreover have "length ?d = length data" and
    "\<And>k. k < unat i \<or> unat i + ptr_size is64 \<le> k \<Longrightarrow> k < length data \<Longrightarrow> ?d ! k = data ! k"
    using assms(2) by (auto simp: nth_splice)
  ultimately show ?thesis using that [of ?d] w by simp
qed

definition slots_patched ::
  "bytes \<Rightarrow> bytes \<Rightarrow> nat \<Rightarrow> nat \<Rightarrow> bool \<Rightarrow> endian \<Rightarrow> ival list \<Rightarrow> u64 \<Rightarrow> u64 \<Rightarrow> bool \<Rightarrow> bool" where
  "slots_patched data data' i stop is64 endian ivs ts te use_total \<longleftrightarrow>
     length data' = length data
     \<and> (\<forall>j \<in> slots (ptr_size is64) i stop. slot_val data' j is64 endian =
          moved_ptr (slot_val data j is64 endian) is64 ivs ts te use_total)
     \<and> (\<forall>k < length data. k \<notin> in_slots (ptr_size is64) i stop \<longrightarrow> data' ! k = data ! k)"

lemma patch_slots_spec:
  assumes "vec_ok data" and "unat stop \<le> length data" and "unat i + ptr_size is64 < 2 ^ 64"
  shows "\<exists>data'. patch_slots data i stop is64 endian ivs ts te use_total = Some data'
    \<and> slots_patched data data' (unat i) (unat stop) is64 endian ivs ts te use_total"
  using assms
proof (induction "unat stop - unat i" arbitrary: data i rule: less_induct)
  case less
  let ?p = "ptr_size is64"
  have next_i: "unat (i + slot_width is64) = unat i + ?p"
    using less.prems(3) by (simp add: unat_add_le unat_slot_width)
  show ?case
  proof (cases "unat i + ?p \<le> unat stop")
    case False
    then have "\<not> i + slot_width is64 \<le> stop" by (simp add: word_le_nat_alt next_i)
    then have "patch_slots data i stop is64 endian ivs ts te use_total = Some data"
      by (simp add: patch_slots.simps)
    then show ?thesis using False by (simp add: slots_patched_def slots_empty in_slots_def)
  next
    case True
    then have loop: "i + slot_width is64 \<le> stop" by (simp add: word_le_nat_alt next_i)
    have fits: "unat i + ?p \<le> length data" using True less.prems(2) by simp
    define val where "val = slot_val data (unat i) is64 endian"
    obtain data1 where
      w: "(if 0 < slot_shift val ivs ts te use_total
           then write_ptr data i (val - slot_shift val ivs ts te use_total) is64 endian
           else Some data) = Some data1"
      and len: "length data1 = length data"
      and here: "slot_val data1 (unat i) is64 endian = moved_ptr val is64 ivs ts te use_total"
      and rest: "\<And>k. k < unat i \<or> unat i + ?p \<le> k \<Longrightarrow> k < length data \<Longrightarrow> data1 ! k = data ! k"
      using patch_slots_step [OF less.prems(1) fits val_def, of ivs ts te use_total] by metis
    have step: "patch_slots data i stop is64 endian ivs ts te use_total =
        patch_slots data1 (i + slot_width is64) stop is64 endian ivs ts te use_total"
      using loop w read_slot [OF fits less.prems(1), of endian]
      by (subst patch_slots.simps) (simp add: val_def Let_def split: if_splits)
    have "unat stop - unat (i + slot_width is64) < unat stop - unat i"
      using True ptr_size_cases [of is64] by (auto simp: next_i)
    moreover have "vec_ok data1" and "unat stop \<le> length data1"
      using less.prems len by (simp_all add: vec_ok_def)
    moreover have "unat (i + slot_width is64) + ?p < 2 ^ 64"
      using fits less.prems(1) by (simp add: next_i vec_ok_def ptr_size_def)
    ultimately obtain data' where
      p: "patch_slots data1 (i + slot_width is64) stop is64 endian ivs ts te use_total = Some data'"
      and sp: "slots_patched data1 data' (unat i + ?p) (unat stop) is64 endian ivs ts te use_total"
      using less.hyps next_i by metis
    have "in_slots ?p (unat i + ?p) (unat stop) \<subseteq> {unat i + ?p..}"
      by (auto simp: in_slots_def dest!: slots_ge)
    then have out: "data' ! k = data1 ! k" if "k < unat i + ?p" "k < length data" for k
      using sp that len by (force simp: slots_patched_def)
    have "slot_val data' (unat i) is64 endian = slot_val data1 (unat i) is64 endian"
      using sp out len by (intro slot_val_other) (auto simp: slots_patched_def)
    moreover have "slot_val data1 j is64 endian = slot_val data j is64 endian"
      if "unat i + ?p \<le> j" for j
      using that rest len by (intro slot_val_other) auto
    ultimately have "\<forall>j \<in> slots ?p (unat i) (unat stop). slot_val data' j is64 endian =
        moved_ptr (slot_val data j is64 endian) is64 ivs ts te use_total"
      using sp here True by (auto simp: slots_step slots_patched_def val_def dest: slots_ge)
    moreover have "\<forall>k < length data. k \<notin> in_slots ?p (unat i) (unat stop) \<longrightarrow> data' ! k = data ! k"
      using sp rest len True by (auto simp: slots_patched_def in_slots_def slots_step not_less)
    ultimately show ?thesis using step p sp len by (auto simp: slots_patched_def)
  qed
qed


lemma scan_slots_spec:
  assumes "vec_ok data" and "unat stop \<le> length data" and "unat i + ptr_size is64 < 2 ^ 64"
  shows "scan_slots data i stop is64 endian wanted refs = Some (refs \<union>
    {v. wanted v \<and> (\<exists>j \<in> slots (ptr_size is64) (unat i) (unat stop). v = slot_val data j is64 endian)})"
  using assms(3)
proof (induction "unat stop - unat i" arbitrary: i refs rule: less_induct)
  case less
  let ?p = "ptr_size is64"
  have next_i: "unat (i + slot_width is64) = unat i + ?p"
    using less.prems by (simp add: unat_add_le unat_slot_width)
  show ?case
  proof (cases "unat i + ?p \<le> unat stop")
    case False
    then have "\<not> i + slot_width is64 \<le> stop" by (simp add: word_le_nat_alt next_i)
    then show ?thesis using False by (simp add: scan_slots.simps slots_empty)
  next
    case True
    then have loop: "i + slot_width is64 \<le> stop" by (simp add: word_le_nat_alt next_i)
    have fits: "unat i + ?p \<le> length data" using True assms(2) by simp
    let ?v = "slot_val data (unat i) is64 endian"
    have step: "scan_slots data i stop is64 endian wanted refs =
        scan_slots data (i + slot_width is64) stop is64 endian wanted
          (if wanted ?v then insert ?v refs else refs)"
      using loop read_slot [OF fits assms(1), of endian]
      by (subst scan_slots.simps) simp
    have "unat stop - unat (i + slot_width is64) < unat stop - unat i"
      using True ptr_size_cases [of is64] by (auto simp: next_i)
    moreover have "unat (i + slot_width is64) + ?p < 2 ^ 64"
      using fits assms(1) by (simp add: next_i vec_ok_def ptr_size_def)
    ultimately show ?thesis
      using less.hyps [of "i + slot_width is64"] True by (auto simp: step next_i slots_step)
  qed
qed

section \<open>Sections\<close>

text \<open>A section header whose slots can be addressed without wrapping.\<close>

definition sec_ok :: "bool \<Rightarrow> sect \<Rightarrow> bool" where
  "sec_ok is64 sec \<longleftrightarrow> unat (s_offset sec) + ptr_size is64 < 2 ^ 64"

definition sec_slots :: "bytes \<Rightarrow> bool \<Rightarrow> sect \<Rightarrow> nat set" where
  "sec_slots data is64 sec = slots (ptr_size is64) (unat (s_offset sec)) (unat (sec_end data sec))"

definition sec_bytes :: "bytes \<Rightarrow> bool \<Rightarrow> sect \<Rightarrow> nat set" where
  "sec_bytes data is64 sec = in_slots (ptr_size is64) (unat (s_offset sec)) (unat (sec_end data sec))"

lemma sec_end_le: "vec_ok data \<Longrightarrow> unat (sec_end data sec) \<le> length data"
  by (metis min.cobounded2 sec_end_def vec_ok_unat word_le_nat_alt)

lemma sec_end_cong: "length data' = length data \<Longrightarrow> sec_end data' sec = sec_end data sec"
  by (simp add: sec_end_def data_len_def)

text \<open>Patching one section subtracts from the pointer in every slot its shift (all of the
  value is kept in an 8-byte slot, the low 32 bits in a 4-byte one), leaves every byte outside the
  slots alone, and does not panic.\<close>

theorem patch_one_data_sec_slots:
  assumes "vec_ok data" and "sec_ok is64 sec"
  shows "\<exists>data'. patch_one_data_sec data sec is64 endian ivs ts te use_total = Some data'
    \<and> length data' = length data
    \<and> (\<forall>j \<in> sec_slots data is64 sec. slot_val data' j is64 endian =
         moved_ptr (slot_val data j is64 endian) is64 ivs ts te use_total)
    \<and> (\<forall>k < length data. k \<notin> sec_bytes data is64 sec \<longrightarrow> data' ! k = data ! k)"
proof -
  have "\<exists>data'. patch_slots data (s_offset sec) (sec_end data sec) is64 endian ivs ts te use_total
      = Some data' \<and> slots_patched data data' (unat (s_offset sec)) (unat (sec_end data sec))
        is64 endian ivs ts te use_total"
    using assms by (intro patch_slots_spec sec_end_le) (auto simp: sec_ok_def)
  then show ?thesis
    by (auto simp: patch_one_data_sec_def slots_patched_def sec_slots_def sec_bytes_def)
qed

theorem patch_one_data_sec_slots_witness:
  "patch_one_data_sec [0x10, 0, 0, 0, 0xff, 0x20, 0, 0, 0]
     \<lparr>s_name = ''.got'', s_size = 4, s_vaddr = 0, s_offset = 5, s_align = 4\<rparr> False Little
     [(0x10, 0x18)] 0x10 0x30 True = Some [0x10, 0, 0, 0, 0xff, 0x18, 0, 0, 0]"
proof -
  let ?d = "[0x10, 0, 0, 0, 0xff, 0x20, 0, 0, 0] :: bytes"
  let ?s = "\<lparr>s_name = ''.got'', s_size = 4, s_vaddr = 0, s_offset = 5, s_align = 4\<rparr>"
  have e: "sec_end ?d ?s = 9" by (simp add: sec_end_def data_len_def)
  have "sec_slots ?d False ?s = {5}"
    by (auto simp: sec_slots_def e slots_def ptr_size_def)
  moreover have "sec_bytes ?d False ?s = {5..<9}"
    using calculation by (auto simp: sec_bytes_def sec_slots_def in_slots_def ptr_size_def)
  moreover have "slot_val ?d 5 False Little = 0x20" by code_simp
  moreover have "moved_ptr 0x20 False [(0x10, 0x18)] 0x10 0x30 True = 0x18" by code_simp
  ultimately obtain d' where
    p: "patch_one_data_sec ?d ?s False Little [(0x10, 0x18)] 0x10 0x30 True = Some d'"
    and d': "length d' = 9" "slot_val d' 5 False Little = 0x18"
      "\<forall>k < 9. k \<notin> {5..<9} \<longrightarrow> d' ! k = ?d ! k"
    using patch_one_data_sec_slots [of ?d False ?s Little "[(0x10, 0x18)]" "0x10" "0x30" True]
    by (auto simp: vec_ok_def sec_ok_def ptr_size_def)
  have "patch_one_data_sec ?d ?s False Little [(0x10, 0x18)] 0x10 0x30 True =
      Some [0x10, 0, 0, 0, 0xff, 0x18, 0, 0, 0]"
    by code_simp
  with p d' show ?thesis by simp
qed


definition patchable :: "sect \<Rightarrow> bool" where
  "patchable sec \<longleftrightarrow> List.member PTR_SECTIONS (s_name sec) \<or> List.member MIXED_SECTIONS (s_name sec)"

definition disjoint_secs :: "bytes \<Rightarrow> bool \<Rightarrow> sect list \<Rightarrow> bool" where
  "disjoint_secs data is64 secs \<longleftrightarrow>
     sorted_wrt (\<lambda>a b. sec_bytes data is64 a \<inter> sec_bytes data is64 b = {}) secs"

lemma sec_slots_bytes:
  "j \<in> sec_slots data is64 sec \<Longrightarrow> {j..<j + ptr_size is64} \<subseteq> sec_bytes data is64 sec"
  unfolding sec_slots_def sec_bytes_def in_slots_def by blast

lemma sec_slots_cong:
  assumes "length data' = length data"
  shows "sec_slots data' is64 sec = sec_slots data is64 sec"
    and "sec_bytes data' is64 sec = sec_bytes data is64 sec"
  using sec_end_cong [OF assms] by (simp_all add: sec_slots_def sec_bytes_def)

lemma patch_one_data_sec_result:
  assumes "vec_ok data" and "unat (s_offset sec) + ptr_size is64 < 2 ^ 64"
  obtains d where "patch_one_data_sec data sec is64 endian ivs ts te tot = Some d"
    and "length d = length data"
    and "\<forall>j \<in> sec_slots data is64 sec. slot_val d j is64 endian =
      moved_ptr (slot_val data j is64 endian) is64 ivs ts te tot"
    and "\<forall>k < length data. k \<notin> sec_bytes data is64 sec \<longrightarrow> d ! k = data ! k"
proof -
  obtain d where "patch_slots data (s_offset sec) (sec_end data sec) is64 endian ivs ts te tot
      = Some d" and "slots_patched data d (unat (s_offset sec)) (unat (sec_end data sec))
        is64 endian ivs ts te tot"
    using patch_slots_spec [OF assms(1) sec_end_le [OF assms(1)]] assms(2) by blast
  then show thesis
    using that [of d] by (simp add: patch_one_data_sec_def slots_patched_def sec_slots_def sec_bytes_def)
qed

text \<open>Slots keep their value when the bytes of their section do.\<close>

lemma sec_slot_val_other:
  assumes "length d' = length d" and "j \<in> sec_slots d is64 sec"
    and "\<forall>k \<in> sec_bytes d is64 sec. k < length d \<longrightarrow> d' ! k = d ! k"
  shows "slot_val d' j is64 endian = slot_val d j is64 endian"
  using sec_slots_bytes [OF assms(2)] assms(1,3)
  by (intro slot_val_other) (auto simp: subset_iff)

text \<open>C27. With pointer sections that do not overlap, \<open>patch_data_ptrs\<close> moves every pointer of
  every such section once, with the section kind's shift rule, and changes no other byte of the
  file.\<close>

theorem patch_data_ptrs_moves:
  assumes "vec_ok data" and "\<forall>sec \<in> set sections. patchable sec \<longrightarrow> sec_ok is64 sec"
    and "disjoint_secs data is64 (filter patchable sections)"
  shows "\<exists>data'. patch_data_ptrs data sections ivs ts te is64 endian = Some data'
    \<and> length data' = length data
    \<and> (\<forall>sec \<in> set (filter patchable sections). \<forall>j \<in> sec_slots data is64 sec.
         slot_val data' j is64 endian =
         moved_ptr (slot_val data j is64 endian) is64 ivs ts te (List.member PTR_SECTIONS (s_name sec)))
    \<and> (\<forall>k < length data. k \<notin> (\<Union>sec \<in> set (filter patchable sections). sec_bytes data is64 sec)
         \<longrightarrow> data' ! k = data ! k)"
  using assms
proof (induction sections arbitrary: data)
  case Nil
  then show ?case by simp
next
  case (Cons sec secs)
  show ?case
  proof (cases "patchable sec")
    case False
    then have "patch_data_ptrs data (sec # secs) ivs ts te is64 endian =
        patch_data_ptrs data secs ivs ts te is64 endian"
      by (simp add: patchable_def)
    then show ?thesis using False Cons by simp
  next
    case True
    let ?tot = "List.member PTR_SECTIONS (s_name sec)"
    let ?B = "\<Union>s \<in> set (filter patchable secs). sec_bytes data is64 s"
    have "unat (s_offset sec) + ptr_size is64 < 2 ^ 64"
      using True Cons.prems(2) by (simp add: sec_ok_def)
    from patch_one_data_sec_result [OF Cons.prems(1) this, of endian ivs ts te ?tot]
    obtain d1 where
      p1: "patch_one_data_sec data sec is64 endian ivs ts te ?tot = Some d1"
      and len1: "length d1 = length data"
      and s1: "\<forall>j \<in> sec_slots data is64 sec. slot_val d1 j is64 endian =
         moved_ptr (slot_val data j is64 endian) is64 ivs ts te ?tot"
      and f1: "\<forall>k < length data. k \<notin> sec_bytes data is64 sec \<longrightarrow> d1 ! k = data ! k" .
    note cong = sec_slots_cong [OF len1]
    have dis: "sec_bytes data is64 sec \<inter> ?B = {}"
      using Cons.prems(3) True by (auto simp: disjoint_secs_def)
    have "vec_ok d1" using Cons.prems(1) len1 by (simp add: vec_ok_def)
    moreover have "disjoint_secs d1 is64 (filter patchable secs)"
      using Cons.prems(3) True by (simp add: disjoint_secs_def cong)
    ultimately obtain d2 where
      p2: "patch_data_ptrs d1 secs ivs ts te is64 endian = Some d2"
      and len2: "length d2 = length d1"
      and s2: "\<forall>s \<in> set (filter patchable secs). \<forall>j \<in> sec_slots data is64 s.
         slot_val d2 j is64 endian =
         moved_ptr (slot_val d1 j is64 endian) is64 ivs ts te (List.member PTR_SECTIONS (s_name s))"
      and f2: "\<forall>k < length data. k \<notin> ?B \<longrightarrow> d2 ! k = d1 ! k"
      using Cons.IH [of d1] Cons.prems(2) len1 unfolding cong by auto
    have "slot_val d2 j is64 endian = slot_val d1 j is64 endian" if "j \<in> sec_slots data is64 sec" for j
    proof (rule sec_slot_val_other [OF len2])
      show "j \<in> sec_slots d1 is64 sec" using that by (simp add: cong)
      show "\<forall>k \<in> sec_bytes d1 is64 sec. k < length d1 \<longrightarrow> d2 ! k = d1 ! k"
        using dis f2 len1 unfolding cong by fastforce
    qed
    moreover have "slot_val d1 j is64 endian = slot_val data j is64 endian"
      if "s \<in> set (filter patchable secs)" "j \<in> sec_slots data is64 s" for s j
      using dis f1 that(1) by (intro sec_slot_val_other [OF len1 that(2)]) blast
    moreover have "patch_data_ptrs data (sec # secs) ivs ts te is64 endian = Some d2"
      using True p1 p2 by (auto simp: patchable_def Let_def)
    ultimately show ?thesis using s1 s2 f1 f2 len1 len2 True by auto
  qed
qed

lemma scan_sections_spec:
  assumes "\<And>sec refs. sec \<in> set secs \<Longrightarrow> List.member names (s_name sec) \<Longrightarrow>
    scan sec refs = Some (refs \<union> found sec)"
  shows "scan_sections scan names secs refs =
    Some (refs \<union> (\<Union>sec \<in> {sec \<in> set secs. List.member names (s_name sec)}. found sec))"
  using assms
proof (induction secs arbitrary: refs)
  case (Cons sec secs)
  have "{s \<in> set (sec # secs). List.member names (s_name s)} =
      (if List.member names (s_name sec) then {sec} else {}) \<union>
      {s \<in> set secs. List.member names (s_name s)}" by auto
  then show ?case using Cons by (auto simp: Un_assoc)
qed simp

text \<open>The scan for function addresses returns exactly the addresses of known functions that
  some slot of a scanned section holds; it misses none.\<close>

theorem scan_data_for_func_addrs_exact:
  assumes "vec_ok data"
    and "\<forall>sec \<in> set sections. List.member func_scan_names (s_name sec) \<longrightarrow> sec_ok is64 sec"
  shows "scan_data_for_func_addrs data func_addrs sections is64 endian =
    Some {v \<in> func_addrs. \<exists>sec \<in> set sections. List.member func_scan_names (s_name sec)
      \<and> (\<exists>j \<in> sec_slots data is64 sec. v = slot_val data j is64 endian)}"
proof -
  have "scan_one_section data sec is64 endian func_addrs refs = Some (refs \<union>
      {v. v \<in> func_addrs \<and> (\<exists>j \<in> sec_slots data is64 sec. v = slot_val data j is64 endian)})"
    if "sec \<in> set sections" "List.member func_scan_names (s_name sec)" for sec refs
    using that assms unfolding scan_one_section_def sec_slots_def
    by (intro scan_slots_spec sec_end_le) (auto simp: sec_ok_def)
  then have "scan_data_for_func_addrs data func_addrs sections is64 endian = Some ({} \<union>
      (\<Union>sec \<in> {sec \<in> set sections. List.member func_scan_names (s_name sec)}.
        {v. v \<in> func_addrs \<and> (\<exists>j \<in> sec_slots data is64 sec. v = slot_val data j is64 endian)}))"
    unfolding scan_data_for_func_addrs_def by (rule scan_sections_spec)
  then show ?thesis by auto
qed


section \<open>Concrete instances\<close>

definition ex_data :: bytes where
  "ex_data = [0x20, 0, 0, 0, 0x14, 0, 0, 0, 0xff]"

definition ex_got :: sect where
  "ex_got = \<lparr>s_name = ''.got'', s_size = 4, s_vaddr = 0x40, s_offset = 0, s_align = 4\<rparr>"

definition ex_data_sec :: sect where
  "ex_data_sec = \<lparr>s_name = ''.data'', s_size = 4, s_vaddr = 0x44, s_offset = 4, s_align = 4\<rparr>"

lemma ex_slots:
  "sec_slots ex_data False ex_got = {0}" "sec_slots ex_data False ex_data_sec = {4}"
  "sec_bytes ex_data False ex_got = {0..<4}" "sec_bytes ex_data False ex_data_sec = {4..<8}"
proof -
  have e: "sec_end ex_data ex_got = 4" "sec_end ex_data ex_data_sec = 8"
    by (simp_all add: sec_end_def data_len_def ex_data_def ex_got_def ex_data_sec_def)
  have o: "s_offset ex_got = 0" "s_offset ex_data_sec = 4" by (simp_all add: ex_got_def ex_data_sec_def)
  show got: "sec_slots ex_data False ex_got = {0}" and dat: "sec_slots ex_data False ex_data_sec = {4}"
    by (auto simp: sec_slots_def e o slots_def ptr_size_def)
  then show "sec_bytes ex_data False ex_got = {0..<4}"
    and "sec_bytes ex_data False ex_data_sec = {4..<8}"
    by (auto simp: sec_bytes_def sec_slots_def in_slots_def ptr_size_def)
qed

lemma ex_names:
  "patchable ex_got" "patchable ex_data_sec" "sec_ok False ex_got" "sec_ok False ex_data_sec"
  "s_name ex_got \<in> set PTR_SECTIONS" "s_name ex_data_sec \<notin> set PTR_SECTIONS"
  "vec_ok ex_data" "s_name ex_got \<in> set func_scan_names"
  "s_name ex_data_sec \<in> set func_scan_names"
  by (simp_all add: patchable_def ex_got_def ex_data_sec_def PTR_SECTIONS_def MIXED_SECTIONS_def
      sec_ok_def ptr_size_def vec_ok_def ex_data_def func_scan_names_def)

lemma ex_vals: "slot_val ex_data 0 False Little = 0x20" "slot_val ex_data 4 False Little = 0x14"
  by code_simp+

theorem patch_data_ptrs_moves_witness:
  "\<exists>d. patch_data_ptrs ex_data [ex_got, ex_data_sec] [(0x10, 0x14)] 0x10 0x30 False Little = Some d
    \<and> slot_val d 0 False Little = 0x1c \<and> slot_val d 4 False Little = 0x10 \<and> d ! 8 = 0xff"
proof -
  have "moved_ptr 0x20 False [(0x10, 0x14)] 0x10 0x30 True = 0x1c"
    and "moved_ptr 0x14 False [(0x10, 0x14)] 0x10 0x30 False = 0x10" by code_simp+
  moreover have "ex_data ! 8 = 0xff" "length ex_data = 9" by (simp_all add: ex_data_def)
  moreover have "disjoint_secs ex_data False (filter patchable [ex_got, ex_data_sec])"
    by (simp add: disjoint_secs_def ex_names ex_slots)
  ultimately show ?thesis
    using patch_data_ptrs_moves [of ex_data "[ex_got, ex_data_sec]" False "[(0x10, 0x14)]"
        "0x10" "0x30" Little]
    by (auto simp: ex_names ex_slots ex_vals simp del: patch_data_ptrs.simps)
qed

theorem scan_data_for_func_addrs_exact_witness:
  "scan_data_for_func_addrs ex_data {0x14, 0x18} [ex_got, ex_data_sec] False Little = Some {0x14}"
proof -
  have "{v \<in> {0x14, 0x18::u64}. \<exists>sec \<in> set [ex_got, ex_data_sec].
      List.member func_scan_names (s_name sec)
      \<and> (\<exists>j \<in> sec_slots ex_data False sec. v = slot_val ex_data j False Little)} = {0x14}"
    by (auto simp: ex_names ex_slots ex_vals)
  then show ?thesis
    using scan_data_for_func_addrs_exact [of ex_data "[ex_got, ex_data_sec]" False
        "{0x14, 0x18}" Little]
    by (simp add: ex_names)
qed

section \<open>A section header whose offset wraps\<close>



end
