(* ===== verification/ZeroFill.thy ===== *)
theory ZeroFill
  imports Intervals
begin

text \<open>
  \<open>src/patch/zerofill.rs\<close>: overwriting dead functions and dead blocks in place. The loop over
  the entries is shared by \<open>zero_fill\<close> and \<open>zero_fill_blocks\<close>; it returns the buffer with the
  number of regions and bytes filled, and \<open>None\<close> when the slice to fill panics.
\<close>

section \<open>The code\<close>

definition fill_slice :: "bytes \<Rightarrow> usize \<Rightarrow> usize \<Rightarrow> u8 \<Rightarrow> bytes option" where
  "fill_slice data a b x =
     (if a \<le> b \<and> unat b \<le> length data
      then Some (splice_at data (unat a) (replicate (unat b - unat a) x)) else None)"

fun fill_entries ::
  "bytes \<Rightarrow> ival list \<Rightarrow> sect list \<Rightarrow> u8 \<Rightarrow> usize \<Rightarrow> u64 \<Rightarrow> (bytes \<times> usize \<times> u64) option" where
  "fill_entries data [] sections fill count tot = Some (data, count, tot)"
| "fill_entries data ((addr, sz) # rest) sections fill count tot =
     (case vaddr_to_offset addr sections of
        None \<Rightarrow> fill_entries data rest sections fill count tot
      | Some off \<Rightarrow>
          if off + sz \<le> data_len data then do {
            data' \<leftarrow> fill_slice data off (off + sz) fill;
            fill_entries data' rest sections fill (count + 1) (tot + sz)
          } else fill_entries data rest sections fill count tot)"

definition zero_fill :: "bytes \<Rightarrow> dead_map \<Rightarrow> sect list \<Rightarrow> (bytes \<times> usize \<times> u64) option" where
  "zero_fill data dead sections = fill_entries data (map snd dead) sections 0x00 0 0"

fun fill_byte :: "arch \<Rightarrow> u8" where
  "fill_byte X86_64 = 0xCC"
| "fill_byte X86_32 = 0xCC"
| "fill_byte _ = 0x00"

definition zero_fill_blocks ::
  "bytes \<Rightarrow> dead_block list \<Rightarrow> sect list \<Rightarrow> arch \<Rightarrow> (bytes \<times> usize \<times> u64) option" where
  "zero_fill_blocks data dead_blocks sections arch =
     fill_entries data (map (\<lambda>db. (db_addr db, db_size db)) dead_blocks) sections (fill_byte arch) 0 0"

section \<open>What is filled\<close>

text \<open>The file range of an entry that is mapped and lies inside a file of \<open>n\<close> bytes.\<close>

definition region :: "nat \<Rightarrow> sect list \<Rightarrow> ival \<Rightarrow> nat set option" where
  "region n sections e = (case vaddr_to_offset (fst e) sections of
     None \<Rightarrow> None
   | Some off \<Rightarrow> if unat off + unat (snd e) \<le> n then Some {unat off..<unat off + unat (snd e)} else None)"

definition filled :: "nat \<Rightarrow> sect list \<Rightarrow> ival list \<Rightarrow> nat set" where
  "filled n sections es = \<Union> {r. \<exists>e \<in> set es. region n sections e = Some r}"

text \<open>No entry's file range wraps around the address space.\<close>

definition no_wrap :: "sect list \<Rightarrow> ival \<Rightarrow> bool" where
  "no_wrap sections e \<longleftrightarrow> (case vaddr_to_offset (fst e) sections of
     None \<Rightarrow> True | Some off \<Rightarrow> unat off + unat (snd e) < 2 ^ 64)"

lemma filled_simps:
  "filled n sections [] = {}"
  "filled n sections (e # es) =
    (case region n sections e of None \<Rightarrow> {} | Some r \<Rightarrow> r) \<union> filled n sections es"
  by (auto simp: filled_def split: option.splits)

lemma fill_slice_ok:
  assumes "unat off + unat sz \<le> length data" and "vec_ok data"
  obtains data' where "fill_slice data off (off + sz) x = Some data'"
    and "length data' = length data"
    and "\<And>k. k < length data \<Longrightarrow> data' ! k =
      (if unat off \<le> k \<and> k < unat off + unat sz then x else data ! k)"
proof -
  have sum: "unat (off + sz) = unat off + unat sz"
    using assms by (intro unat_add_le) (simp add: vec_ok_def)
  let ?d = "splice_at data (unat off) (replicate (unat sz) x)"
  have "fill_slice data off (off + sz) x = Some ?d"
    using assms by (simp add: fill_slice_def sum word_le_nat_alt)
  then show ?thesis
    by (rule that) (use assms in \<open>auto simp: nth_splice\<close>)
qed

lemma fill_entries_spec:
  assumes "vec_ok data" and "\<forall>e \<in> set es. no_wrap sections e"
  shows "\<exists>data'. fill_entries data es sections x c t =
      Some (data', c + of_nat (length (filter (\<lambda>e. region (length data) sections e \<noteq> None) es)),
        t + sum_list (map snd (filter (\<lambda>e. region (length data) sections e \<noteq> None) es)))
    \<and> length data' = length data
    \<and> (\<forall>k < length data. data' ! k = (if k \<in> filled (length data) sections es then x else data ! k))"
  using assms
proof (induction es arbitrary: data c t)
  case Nil
  then show ?case by (simp add: filled_simps)
next
  case (Cons e es)
  obtain a sz where e: "e = (a, sz)" by (cases e)
  have tail: "\<forall>e \<in> set es. no_wrap sections e" using Cons.prems(2) by simp
  show ?case
  proof (cases "region (length data) sections e")
    case None
    have "fill_entries data (e # es) sections x c t = fill_entries data es sections x c t"
    proof (cases "vaddr_to_offset a sections")
      case (Some off)
      have "unat (off + sz) = unat off + unat sz"
        using Cons.prems(2) Some by (intro unat_add_le) (simp add: e no_wrap_def)
      then have "\<not> off + sz \<le> data_len data"
        using None Some Cons.prems(1)
        by (simp add: e region_def word_le_nat_alt vec_ok_unat split: if_splits)
      then show ?thesis by (simp add: e Some)
    qed (simp add: e)
    then show ?thesis
      using Cons.IH [OF Cons.prems(1) tail] None by (simp add: filled_simps)
  next
    case (Some r)
    then obtain off where off: "vaddr_to_offset a sections = Some off"
      and fits: "unat off + unat sz \<le> length data" and r: "r = {unat off..<unat off + unat sz}"
      by (auto simp: e region_def split: option.splits if_splits)
    obtain d1 where d1: "fill_slice data off (off + sz) x = Some d1" "length d1 = length data"
      "\<And>k. k < length data \<Longrightarrow> d1 ! k = (if unat off \<le> k \<and> k < unat off + unat sz then x else data ! k)"
      using fill_slice_ok [OF fits Cons.prems(1)] by metis
    have "unat (off + sz) = unat off + unat sz"
      using fits Cons.prems(1) by (intro unat_add_le) (simp add: vec_ok_def)
    then have "off + sz \<le> data_len data"
      using fits Cons.prems(1) by (simp add: word_le_nat_alt vec_ok_unat)
    then have step: "fill_entries data (e # es) sections x c t =
        fill_entries d1 es sections x (c + 1) (t + sz)"
      by (simp add: e off d1(1))
    have "vec_ok d1" using Cons.prems(1) d1(2) by (simp add: vec_ok_def)
    then obtain d2 where
      "fill_entries d1 es sections x (c + 1) (t + sz) = Some (d2,
          c + 1 + of_nat (length (filter (\<lambda>e. region (length data) sections e \<noteq> None) es)),
          t + sz + sum_list (map snd (filter (\<lambda>e. region (length data) sections e \<noteq> None) es)))"
      and "length d2 = length data"
      and "\<forall>k < length data. d2 ! k = (if k \<in> filled (length data) sections es then x else d1 ! k)"
      using Cons.IH [of d1 "c + 1" "t + sz"] tail d1(2) by auto
    then show ?thesis
      unfolding step using Some d1(3)
      by (intro exI [of _ d2]) (auto simp: filled_simps r e algebra_simps simp del: fill_entries.simps)
  qed
qed

text \<open>C29. \<open>zero_fill\<close> zeroes exactly the file ranges of the dead functions that are mapped into
  the file, keeps every other byte and the file's length, and reports how many functions and
  bytes it cleared.\<close>

theorem zero_fill_exact:
  assumes "vec_ok data" and "\<forall>e \<in> set (map snd dead). no_wrap sections e"
  shows "\<exists>data'. zero_fill data dead sections =
      Some (data', of_nat (length (filter (\<lambda>e. region (length data) sections e \<noteq> None) (map snd dead))),
        sum_list (map snd (filter (\<lambda>e. region (length data) sections e \<noteq> None) (map snd dead))))
    \<and> length data' = length data
    \<and> (\<forall>k < length data. data' ! k =
         (if k \<in> filled (length data) sections (map snd dead) then 0 else data ! k))"
  using fill_entries_spec [OF assms, of 0 0 0] by (simp add: zero_fill_def)

theorem zero_fill_exact_witness:
  "zero_fill [0x90, 0x55, 0xC3, 0x90] [(''f'', (0x11, 2))]
     [\<lparr>s_name = ''.text'', s_size = 4, s_vaddr = 0x10, s_offset = 0, s_align = 16\<rparr>] =
     Some ([0x90, 0, 0, 0x90], 1, 2)"
proof -
  let ?d = "[0x90, 0x55, 0xC3, 0x90] :: bytes"
  let ?s = "[\<lparr>s_name = ''.text'', s_size = 4, s_vaddr = 0x10, s_offset = 0, s_align = 16\<rparr>]"
  let ?m = "[(''f'', (0x11, 2))] :: dead_map"
  have len: "length ?d = 4" by simp
  have v: "vaddr_to_offset 0x11 ?s = Some 1" by simp
  have reg: "region 4 ?s (0x11, 2) = Some {1, 2}" by (auto simp: region_def v)
  have "filled 4 ?s [(0x11, 2)] = {1, 2}" by (simp add: filled_simps reg)
  moreover have "no_wrap ?s (0x11, 2)" by (simp add: no_wrap_def v)
  ultimately obtain d' where d': "zero_fill ?d ?m ?s = Some (d', 1, 2)" "length d' = 4"
    "\<forall>k < 4. d' ! k = (if k \<in> {1, 2} then 0 else ?d ! k)"
    using zero_fill_exact [of ?d ?m ?s] unfolding len by (auto simp: vec_ok_def reg)
  obtain x0 x1 x2 x3 where x: "d' = [x0, x1, x2, x3]"
    using d'(2) by (auto simp: length_Suc_conv numeral_eq_Suc)
  have "d' ! 0 = 0x90 \<and> d' ! 1 = 0 \<and> d' ! 2 = 0 \<and> d' ! 3 = 0x90"
    using d'(3) by simp
  then have "d' = [0x90, 0, 0, 0x90]" by (simp add: x)
  with d'(1) show ?thesis by simp
qed

lemma zero_fill_blocks_exact:
  assumes "vec_ok data" and "\<forall>b \<in> set blocks. no_wrap sections (db_addr b, db_size b)"
  shows "\<exists>data' c t. zero_fill_blocks data blocks sections arch = Some (data', c, t)
    \<and> length data' = length data
    \<and> (\<forall>k < length data. data' ! k =
         (if k \<in> filled (length data) sections (map (\<lambda>b. (db_addr b, db_size b)) blocks)
          then fill_byte arch else data ! k))"
  using fill_entries_spec [OF assms(1), of "map (\<lambda>b. (db_addr b, db_size b)) blocks" sections
      "fill_byte arch" 0 0] assms(2)
  by (auto simp: zero_fill_blocks_def)

end
