(* ===== verification/Disp_Fields.thy ===== *)
theory Disp_Fields
  imports Relocation
begin

text \<open>
  Displacement fields of instruction words: the immediates that the decoders read and the
  patchers rewrite. The interface \<open>disp_field\<close> states what a patcher relies on: a displacement
  written is read back if it is in range, and the opcode bits are kept. A field whose bits are
  spread over the word provides the interface once its bits are located (\<open>bit_field\<close>). Both ends
  of a displacement are moved by the plan, so the new displacement is always in range.
\<close>

section \<open>Sign extension\<close>

definition sign_extend :: "i32 \<Rightarrow> nat \<Rightarrow> i32" where
  "sign_extend val n = (let shift = 32 - n in signed_drop_bit shift (push_bit shift val))"

text \<open>The cast \<open>as i64\<close> of an \<open>i32\<close>.\<close>

definition ext64 :: "i32 \<Rightarrow> i64" where
  "ext64 v = scast v"

lemma bit_sign_extend [field_bits]:
  assumes "0 < n" and "n \<le> 32"
  shows "bit (sign_extend v n) i \<longleftrightarrow> i < 32 \<and> bit v (min i (n - 1))"
proof (cases "i < 32")
  case True
  then show ?thesis
  proof (cases "32 - n + i < 32")
    case True
    then have "i < n" and m: "min i (n - 1) = i" using assms by simp_all
    then have "\<not> n \<le> i" and "32 - n + i - (32 - n) = i" and "32 - n \<le> 32 - n + i" by simp_all
    then show ?thesis unfolding m using True \<open>i < 32\<close> assms
      by (simp add: sign_extend_def Let_def bit_simps del: add_diff_assoc2)
  next
    case False
    then have "min i (n - 1) = n - 1" and "31 - (32 - n) = n - 1" using assms by auto
    then show ?thesis using False \<open>i < 32\<close> assms
      by (auto simp: sign_extend_def Let_def bit_simps min_def)
  qed
next
  case False
  then show ?thesis using bit_imp_le_length [of "sign_extend v n" i] by auto
qed

lemma ge_two: "2 \<le> i \<Longrightarrow> \<exists>j. i = j + (2::nat)"
  by (metis add.commute le_Suc_ex)

lemma bit_ext64 [field_bits]: "bit (ext64 v) i \<longleftrightarrow> i < 64 \<and> bit v (min i 31)"
  by (auto simp: ext64_def bit_simps min_def not_le)

section \<open>Opcode tests\<close>

text \<open>Two masked tests of which the common bits differ exclude each other.\<close>

lemma mask_disjoint:
  fixes w :: "'a::len word"
  assumes "w AND m = c" and "c AND m' \<noteq> c' AND m"
  shows "(w AND m' = c') = False"
  using assms by (metis and.assoc and.commute)

lemma mask_transfer:
  fixes w w' :: "'a::len word"
  assumes "w' AND keep = w AND keep" and "keep AND m = m"
  shows "w' AND m = w AND m"
  using assms by (metis and.assoc)

lemma drop_keep:
  fixes w w' :: "'a::len word"
  assumes "w' AND keep = w AND keep" and "drop_bit n keep = drop_bit n (- 1)"
  shows "drop_bit n w' = drop_bit n w"
proof -
  have "drop_bit n x = drop_bit n (x AND keep)" for x
    by (metis and.right_neutral assms(2) drop_bit_and)
  then show ?thesis by (metis assms(1))
qed

text \<open>A test of a shifted word is a masked test.\<close>

lemma shifted_test:
  fixes w m c :: "'a::len word"
  assumes "drop_bit n (push_bit n m) = m" and "drop_bit n (push_bit n c) = c"
  shows "drop_bit n w AND m = c \<longleftrightarrow> w AND push_bit n m = push_bit n c"
proof
  assume "drop_bit n w AND m = c"
  moreover have "push_bit n (drop_bit n w AND m) = w AND push_bit n m"
    by (rule bit_word_eqI) (auto simp: bit_simps)
  ultimately show "w AND push_bit n m = push_bit n c" by simp
next
  assume h: "w AND push_bit n m = push_bit n c"
  have "drop_bit n (w AND push_bit n m) = drop_bit n w AND m"
    unfolding drop_bit_and assms(1) ..
  then show "drop_bit n w AND m = c" unfolding h assms(2) by simp
qed

lemma shifted_eq:
  fixes w c :: "'a::len word"
  assumes "drop_bit n (push_bit n c) = c"
  shows "drop_bit n w = c \<longleftrightarrow> w AND push_bit n (drop_bit n (- 1)) = push_bit n c"
proof -
  have "drop_bit n (push_bit n (drop_bit n (- 1 :: 'a word))) = drop_bit n (- 1)"
    by (rule bit_word_eqI) (auto simp: bit_simps)
  from shifted_test [OF this assms, of w] show ?thesis
    by (metis and.right_neutral drop_bit_and)
qed

section \<open>Displacements in range\<close>

text \<open>A signed displacement of \<open>n\<close> bits, a multiple of \<open>2 ^ k\<close>.\<close>

definition disp_fits :: "nat \<Rightarrow> nat \<Rightarrow> i64 \<Rightarrow> bool" where
  "disp_fits n k d \<longleftrightarrow> - (2 ^ (n - 1)) \<le> sint d \<and> sint d < 2 ^ (n - 1) \<and> 2 ^ k dvd sint d"

lemma disp_fits_iff_bits:
  assumes "0 < n" and "k < n" and "n \<le> 64"
  shows "disp_fits n k d \<longleftrightarrow>
    (\<forall>i < 64. bit d i \<longleftrightarrow> k \<le> i \<and> bit d (min i (n - 1)))"
proof -
  have sb: "bit (sint d) j = bit d j" if "j < 64" for j
    using that by (simp add: bit_sint_iff)
  have range: "- (2 ^ (n - 1)) \<le> sint d \<and> sint d < 2 ^ (n - 1) \<longleftrightarrow>
      signed_take_bit (n - 1) (sint d) = sint d"
    by (simp add: signed_take_bit_int_eq_self_iff)
  have "signed_take_bit (n - 1) (sint d) = sint d \<longleftrightarrow>
      (\<forall>i < 64. bit d i = bit d (min i (n - 1)))"
  proof
    assume eq: "signed_take_bit (n - 1) (sint d) = sint d"
    show "\<forall>i < 64. bit d i = bit d (min i (n - 1))"
    proof (intro allI impI)
      fix i :: nat assume i: "i < 64"
      have "bit (sint d) i = bit (sint d) (min i (n - 1))"
        using bit_signed_take_bit_iff [of "n - 1" "sint d" i] unfolding eq min.commute [of i]
        by (simp only: possible_bit_int simp_thms)
      then show "bit d i = bit d (min i (n - 1))"
        unfolding sb [OF i] sb [OF le_less_trans [OF min.cobounded1 i]] .
    qed
  next
    assume bits: "\<forall>i < 64. bit d i = bit d (min i (n - 1))"
    have m: "min j (n - 1) < 64" if "j < 64" for j using that by simp
    have low: "n - 1 < 64" and top: "min 63 (n - 1) = n - 1" using assms by simp_all
    show "signed_take_bit (n - 1) (sint d) = sint d"
    proof (rule bit_eqI)
      fix i
      have "bit (signed_take_bit (n - 1) (sint d)) i = bit (sint d) (min i (n - 1))"
        by (simp add: bit_signed_take_bit_iff min.commute)
      also have "\<dots> = bit (sint d) i"
      proof (cases "i < 64")
        case True
        then have "bit (sint d) (min i (n - 1)) = bit d (min i (n - 1))"
          by (simp only: sb [OF m])
        also have "\<dots> = bit d i" using bits True by blast
        finally show ?thesis by (simp only: sb [OF True])
      next
        case False
        then have "min i (n - 1) = n - 1" using low by simp
        moreover have "bit d 63 = bit d (n - 1)" using bits top by (metis numeral_less_iff semiring_norm(76,78,81))
        moreover have "bit (sint d) i = bit d 63" using False bit_imp_le_length [of d i]
          by (auto simp: bit_sint_iff)
        ultimately show ?thesis by (simp only: sb [OF low])
      qed
      finally show "bit (signed_take_bit (n - 1) (sint d)) i = bit (sint d) i" .
    qed
  qed
  moreover have "2 ^ k dvd sint d \<longleftrightarrow> (\<forall>i < k. \<not> bit d i)"
  proof -
    have "2 ^ k dvd sint d \<longleftrightarrow> take_bit k (sint d) = 0"
      by (simp add: take_bit_eq_0_iff)
    also have "\<dots> \<longleftrightarrow> (\<forall>i < k. \<not> bit (sint d) i)"
      by (auto simp: bit_eq_iff bit_take_bit_iff)
    also have "\<dots> \<longleftrightarrow> (\<forall>i < k. \<not> bit d i)"
      using assms by (auto simp: bit_sint_iff)
    finally show ?thesis .
  qed
  moreover have "(\<forall>i < 64. bit d i = bit d (min i (n - 1))) \<and> (\<forall>i < k. \<not> bit d i) \<longleftrightarrow>
      (\<forall>i < 64. bit d i \<longleftrightarrow> k \<le> i \<and> bit d (min i (n - 1)))" (is "?l \<longleftrightarrow> ?r")
  proof
    assume l: ?l
    show ?r
    proof (intro allI impI)
      fix i :: nat assume i: "i < 64"
      then have eq: "bit d i = bit d (min i (n - 1))" using l by blast
      show "bit d i \<longleftrightarrow> k \<le> i \<and> bit d (min i (n - 1))"
        using l unfolding eq [symmetric] by (cases "k \<le> i") auto
    qed
  next
    assume r: ?r
    have low: "\<not> bit d i" if "i < k" for i
      using r that assms by (meson linorder_not_le order.strict_trans order_less_le_trans)
    have "bit d i = bit d (min i (n - 1))" if "i < 64" for i
    proof (cases "k \<le> i")
      case True
      then show ?thesis using r that by blast
    next
      case False
      then have "min i (n - 1) = i" using assms by simp
      then show ?thesis by simp
    qed
    with low show ?l by blast
  qed
  ultimately show ?thesis unfolding disp_fits_def using range by blast
qed

text \<open>A displacement between two that fit, with the right alignment, fits.\<close>

lemma disp_fits_between:
  assumes "disp_fits n k d1" and "disp_fits n k d2" and "sint d1 \<le> sint d" and "sint d \<le> sint d2"
    and "2 ^ k dvd sint d"
  shows "disp_fits n k d"
  using assms by (auto simp: disp_fits_def)


section \<open>The interface\<close>

text \<open>\<open>keep\<close> is the mask of the opcode bits that \<open>put\<close> leaves alone.\<close>

locale disp_field =
  fixes get :: "'w::len word \<Rightarrow> i64"
    and put :: "'w word \<Rightarrow> i64 \<Rightarrow> 'w word"
    and n k :: nat
    and keep :: "'w word"
  assumes width_ok: "0 < n \<and> n < 63"
    and get_fits: "disp_fits n k (get w)"
    and get_put: "disp_fits n k d \<Longrightarrow> get (put w d) = d"
    and put_keep: "put w d AND keep = w AND keep"
begin

lemma put_keep_sub: "keep AND c = c \<Longrightarrow> put w d AND c = w AND c"
  by (metis and.assoc and.commute put_keep)

lemma get_between:
  assumes "disp_fits n k d0" and "2 ^ k dvd sint d"
    and "(sint d0 \<le> sint d \<and> sint d \<le> sint (get w)) \<or> (sint (get w) \<le> sint d \<and> sint d \<le> sint d0)"
  shows "get (put w d) = d"
  using assms get_fits by (blast intro: get_put disp_fits_between)

end

text \<open>A field given bit by bit: displacement bit \<open>i\<close> is word bit \<open>pos i\<close>, the sign bit is
  repeated, the low \<open>k\<close> bits are zero.\<close>

locale bit_field =
  fixes get :: "'w::len word \<Rightarrow> i64"
    and put :: "'w word \<Rightarrow> i64 \<Rightarrow> 'w word"
    and n k :: nat
    and keep :: "'w word"
    and pos :: "nat \<Rightarrow> nat"
  assumes width: "0 < n \<and> k < n \<and> n < 63"
    and bit_get: "bit (get w) i \<longleftrightarrow> i < 64 \<and> k \<le> i \<and> bit w (pos (min i (n - 1)))"
    and bit_put: "k \<le> i \<Longrightarrow> i < n \<Longrightarrow> bit (put w d) (pos i) \<longleftrightarrow> bit d i"
    and field_keep: "put w d AND keep = w AND keep"
begin

lemma field_fits: "disp_fits n k (get w)"
proof -
  have "0 < n" "k < n" "n \<le> 64" using width by simp_all
  moreover have "k \<le> i \<Longrightarrow> k \<le> min i (n - 1)" for i using \<open>k < n\<close> by simp
  ultimately show ?thesis by (auto simp: disp_fits_iff_bits bit_get)
qed

lemma field_get_put:
  assumes "disp_fits n k d"
  shows "get (put w d) = d"
proof (rule bit_word_eqI)
  fix i assume i: "i < LENGTH(64)"
  have w: "0 < n" "k < n" "n \<le> 64" using width by simp_all
  have "i < 64" using i by simp
  then have d: "bit d i \<longleftrightarrow> k \<le> i \<and> bit d (min i (n - 1))"
    by (rule mp [OF spec [OF iffD1 [OF disp_fits_iff_bits [OF w] assms]]])
  show "bit (get (put w d)) i = bit d i"
  proof (cases "k \<le> i")
    case True
    then have "k \<le> min i (n - 1)" and "min i (n - 1) < n" using width by auto
    then show ?thesis using True i d by (simp add: bit_get bit_put)
  next
    case False
    then show ?thesis using d by (simp add: bit_get)
  qed
qed

end

sublocale bit_field \<subseteq> disp_field get put n k keep
proof unfold_locales
  show "0 < n \<and> n < 63" using width by simp
qed (rule field_fits field_get_put field_keep | assumption)+


section \<open>Moving a branch\<close>

text \<open>All dead intervals are multiples of the instruction alignment, relative to .text.\<close>

definition plan_aligned :: "nat \<Rightarrow> plan \<Rightarrow> bool" where
  "plan_aligned k p \<longleftrightarrow> (case p of (ivs, ts, te) \<Rightarrow>
     \<forall>(s, e) \<in> set ivs. 2 ^ k dvd unat s - unat ts \<and> 2 ^ k dvd unat e - unat ts)"

lemma plan_aligned_mono:
  assumes "plan_aligned k p" and "k' \<le> k"
  shows "plan_aligned k' p"
proof -
  have "(2::nat) ^ k' dvd 2 ^ k" using assms(2) by (rule le_imp_power_dvd)
  then show ?thesis
    using assms(1) unfolding plan_aligned_def by (fastforce split: prod.splits intro: dvd_trans)
qed

definition in_text :: "plan \<Rightarrow> u64 \<Rightarrow> bool" where
  "in_text p a \<longleftrightarrow> plan_lo p \<le> a \<and> a < plan_hi p"

definition moved :: "plan \<Rightarrow> u64 \<Rightarrow> u64" where
  "moved p a = a - plan_shift p a"

lemma moved_text: "in_text (ivs, ts, te) a \<Longrightarrow> moved (ivs, ts, te) a = new_addr ivs a"
  by (simp add: moved_def plan_defs new_addr_def in_text_def total_shift_def leD)

lemma dvd_diff_base:
  fixes c x y b :: nat
  assumes "c dvd x - b" and "c dvd y - b" and "b \<le> y"
  shows "c dvd x - y"
proof (cases "y \<le> x")
  case True
  then have eq: "x - y = (x - b) - (y - b)" using assms(3) by simp
  show ?thesis unfolding eq by (rule dvd_diff_nat [OF assms(1,2)])
qed simp

lemma sum_list_dvd: "(\<And>x. x \<in> set xs \<Longrightarrow> (c::nat) dvd f x) \<Longrightarrow> c dvd sum_list (map f xs)"
  by (induction xs) auto

lemma shift_dvd:
  assumes ok: "plan_ok p" and al: "plan_aligned k p" and a: "in_text p a"
    and ad: "2 ^ k dvd unat a - unat (plan_lo p)"
  shows "2 ^ k dvd unat (plan_shift p a)"
proof -
  obtain ivs ts te where p: "p = (ivs, ts, te)" by (cases p)
  have ch: "chain ts ivs te" using ok by (simp add: p plan_defs)
  have "{s..<e} \<inter> {..<a} = {s..<min e a}" for s e by auto
  then have card_eq: "card ({s..<e} \<inter> {..<a}) = unat (min e a) - unat s" for s e
    by (simp add: card_word_ivl)
  have "2 ^ k dvd (\<Sum>(s, e)\<leftarrow>ivs. card ({s..<e} \<inter> {..<a}))"
  proof (rule sum_list_dvd, clarify)
    fix s e assume se: "(s, e) \<in> set ivs"
    then have "ts \<le> s" using chain_wf [OF ch] by blast
    then have lo: "unat ts \<le> unat s" by (simp add: word_le_nat_alt)
    have "2 ^ k dvd unat s - unat ts" "2 ^ k dvd unat (min e a) - unat ts"
      using al ad se by (auto simp: p plan_aligned_def plan_lo_def min_def)
    with lo show "2 ^ k dvd card ({s..<e} \<inter> {..<a})"
      unfolding card_eq by (auto intro: dvd_diff_base)
  qed
  also have "(\<Sum>(s, e)\<leftarrow>ivs. card ({s..<e} \<inter> {..<a})) = card (dead_below a ivs)"
    using chain_sum_card [OF ch, of "{..<a}"]
    by (auto simp: dead_below_def intro: arg_cong [where f = card])
  finally show ?thesis
    using plan_shift_text [OF ok, of a] a by (simp add: p in_text_def)
qed

text \<open>The relocated displacement lies between the old one and \<open>- bias\<close>, where \<open>bias\<close> is what the
  architecture adds to the instruction address, and keeps its alignment.\<close>

lemma sint_moved_diff:
  assumes ok: "plan_ok p" and a: "in_text p a" and t: "in_text p t"
  shows "sint (moved p t - moved p a) = int (unat (moved p t)) - int (unat (moved p a))"
    and "sint (t - a) = int (unat t) - int (unat a)"
proof -
  have sp: "unat (plan_hi p) - unat (plan_lo p) < 2 ^ 63" using text_plan.span [OF ok] .
  note ma = text_plan.unat_moved [OF ok a [unfolded in_text_def, THEN conjunct1]
      a [unfolded in_text_def, THEN conjunct2]]
  note mt = text_plan.unat_moved [OF ok t [unfolded in_text_def, THEN conjunct1]
      t [unfolded in_text_def, THEN conjunct2]]
  have in_span: "unat y - unat x < 2 ^ 63" if "plan_lo p \<le> x" "y < plan_hi p" for x y
    using that sp by (auto simp: word_le_nat_alt word_less_nat_alt)
  show "sint (moved p t - moved p a) = int (unat (moved p t)) - int (unat (moved p a))"
    unfolding moved_def by (rule sint_diff; rule in_span) (use ma mt a t in \<open>auto simp: in_text_def\<close>)
  show "sint (t - a) = int (unat t) - int (unat a)"
    by (rule sint_diff; rule in_span) (use a t in \<open>auto simp: in_text_def\<close>)
qed

lemma moved_dvd:
  assumes ok: "plan_ok p" and al: "plan_aligned k p" and a: "in_text p a" and t: "in_text p t"
    and ad: "2 ^ k dvd unat a - unat (plan_lo p)" and td: "2 ^ k dvd unat t - unat (plan_lo p)"
  shows "2 ^ k dvd sint (moved p t - moved p a)"
proof -
  have "2 ^ k dvd unat (moved p x) - unat (plan_lo p) \<and> unat (plan_lo p) \<le> unat (moved p x)"
    if x: "in_text p x" and xd: "2 ^ k dvd unat x - unat (plan_lo p)" for x
  proof -
    have lx: "plan_lo p \<le> x" "x < plan_hi p" using x by (simp_all add: in_text_def)
    note m = text_plan.unat_moved [OF ok lx]
    have eq: "unat (moved p x) - unat (plan_lo p) = (unat x - unat (plan_lo p)) - unat (plan_shift p x)"
      by (simp add: moved_def m(1))
    have "2 ^ k dvd (unat x - unat (plan_lo p)) - unat (plan_shift p x)"
      by (rule dvd_diff_nat [OF xd shift_dvd [OF ok al x xd]])
    then show ?thesis unfolding eq using m(2) by (simp add: moved_def word_le_nat_alt)
  qed
  note x = this [OF a ad] this [OF t td]
  have "int (unat (moved p t)) - int (unat (moved p a)) =
      int (unat (moved p t) - unat (plan_lo p)) - int (unat (moved p a) - unat (plan_lo p))"
    using x by (simp add: of_nat_diff del: of_nat_unat)
  moreover have "(2::int) ^ k dvd int (unat (moved p t) - unat (plan_lo p))"
    and "(2::int) ^ k dvd int (unat (moved p a) - unat (plan_lo p))"
    using x by (metis of_nat_dvd_iff of_nat_numeral of_nat_power)+
  ultimately show ?thesis
    unfolding sint_moved_diff(1) [OF ok a t] by (simp del: of_nat_unat)
qed


text \<open>What a patcher needs: with the biased old displacement in the field, the biased new one is
  read back from the word it writes.\<close>

lemma sint_sub_small:
  fixes x y :: i64
  assumes "- (2 ^ 63) \<le> sint x - sint y" and "sint x - sint y < 2 ^ 63"
  shows "sint (x - y) = sint x - sint y"
proof -
  have "sint (x - y) = sint (word_of_int (sint x - sint y) :: i64)" by simp
  also have "\<dots> = signed_take_bit 63 (sint x - sint y)" by (simp only: sint_sbintrunc') simp
  finally show ?thesis using assms by (simp add: signed_take_bit_int_eq_self)
qed


lemma disp_range:
  assumes "disp_fits n k d" and "0 < n" and "n < 63"
  shows "- (2 ^ 61) \<le> sint d" and "sint d < 2 ^ 61"
proof -
  have "(2::int) ^ (n - 1) \<le> 2 ^ 61" using assms by (intro power_increasing) auto
  then show "- (2 ^ 61) \<le> sint d" and "sint d < 2 ^ 61" using assms(1) by (auto simp: disp_fits_def)
qed

context disp_field
begin

lemma relocated:
  assumes ok: "plan_ok p" and al: "plan_aligned k p"
    and a: "in_text p a" "2 ^ k dvd unat a - unat (plan_lo p)"
    and t: "in_text p t" "t = a + bias + get w"
    and bias: "disp_fits n k (- bias)" "disp_fits n k bias" "0 \<le> sint bias"
  shows "get (put w (moved p t - moved p a - bias)) = moved p t - moved p a - bias"
proof -
  have n: "0 < n" "n < 63" using width_ok by simp_all
  have gr: "- (2 ^ 61) \<le> sint (get w)" "sint (get w) < 2 ^ 61"
    and br: "sint bias < 2 ^ 61"
    using disp_range [OF get_fits n] disp_range [OF bias(2) n] by auto
  have neg: "sint (- bias) = - sint bias"
    using sint_sub_small [of 0 bias] bias(3) br by simp
  have g: "get w = (t - a) - bias" using t(2) by simp
  have old: "sint (t - a) = sint (get w) + sint bias"
    using sint_sub_small [of "get w" "- bias"] gr br bias(3) t(2)
    by (simp add: neg add.commute)
  have kt: "2 ^ k dvd sint (t - a)"
    unfolding old using get_fits [of w] bias(2) by (simp add: disp_fits_def)
  have "int (unat t) - int (unat a) = sint (t - a)"
    using sint_moved_diff(2) [OF ok a(1) t(1)] by simp
  moreover have "unat (plan_lo p) \<le> unat t" "unat (plan_lo p) \<le> unat a"
    using a t by (simp_all add: in_text_def word_le_nat_alt)
  ultimately have "int (unat t - unat (plan_lo p)) =
      sint (t - a) + int (unat a - unat (plan_lo p))" by (simp add: of_nat_diff del: of_nat_unat)
  moreover have "(2::int) ^ k dvd int (unat a - unat (plan_lo p))"
    using a(2) by (metis of_nat_dvd_iff of_nat_numeral of_nat_power)
  ultimately have "(2::int) ^ k dvd int (unat t - unat (plan_lo p))"
    using kt by (metis dvd_add)
  then have td: "2 ^ k dvd unat t - unat (plan_lo p)"
    by (metis of_nat_dvd_iff of_nat_numeral of_nat_power)
  have sh: "shrinks (t - a) (moved p t - moved p a)"
    unfolding moved_def using text_plan.disp_shrinks [OF ok] a(1) t(1) by (auto simp: in_text_def)
  have pw: "(2::int) ^ 63 = 4 * 2 ^ 61" by simp
  from sh have "\<bar>sint (moved p t - moved p a)\<bar> \<le> \<bar>sint (t - a)\<bar>" by (auto simp: shrinks_def)
  then have new: "sint (moved p t - moved p a - bias) = sint (moved p t - moved p a) - sint bias"
    using gr br bias(3) old pw by (intro sint_sub_small) linarith+
  have "2 ^ k dvd sint (moved p t - moved p a - bias)"
    unfolding new using moved_dvd [OF ok al a(1) t(1) a(2) td] bias(2)
    by (simp add: disp_fits_def dvd_diff)
  moreover have "(sint (- bias) \<le> sint (moved p t - moved p a - bias) \<and>
        sint (moved p t - moved p a - bias) \<le> sint (get w))
      \<or> (sint (get w) \<le> sint (moved p t - moved p a - bias) \<and>
        sint (moved p t - moved p a - bias) \<le> sint (- bias))"
    using sh old unfolding new neg shrinks_def by linarith
  ultimately show ?thesis using get_between [OF bias(1)] by blast
qed

end


text \<open>The biases of the supported architectures fit every field.\<close>

lemma small_bias:
  assumes "sint bias \<in> {0, 4, 8}" and "5 \<le> n" and "k \<le> 2"
  shows "disp_fits n k (- bias)" and "disp_fits n k bias" and "0 \<le> sint bias"
proof -
  have p: "(2::int) ^ 4 \<le> 2 ^ (n - 1)" using assms(2) by (intro power_increasing) auto
  have neg: "sint (- bias) = - sint bias" using sint_sub_small [of 0 bias] assms(1) by auto
  have "k \<in> {0, 1, 2}" using assms(3) by auto
  then have d: "(2::int) ^ k dvd sint bias" using assms(1) by auto
  show "disp_fits n k (- bias)" and "disp_fits n k bias" and "0 \<le> sint bias"
    using assms(1) p d unfolding disp_fits_def neg by auto
qed

end
