(* ===== verification/Patching.thy ===== *)
theory Patching
  imports Disp_Fields
begin

text \<open>
  What the decoders and branch patchers of \<open>src/arch/\<close> share: the clipped section bytes, the
  decoding loop of the fixed-width architectures, the rebased displacement, and the loop of
  \<open>patch_branches\<close> over the live instructions. The interface \<open>branch_patcher\<close> says that a patcher
  edits bytes of its own instruction only; from it follows what the whole loop does to the file.
\<close>

section \<open>The code\<close>

text \<open>\<open>src/arch/mod.rs\<close>\<close>

definition section_bytes :: "bytes \<Rightarrow> u64 \<Rightarrow> u64 \<Rightarrow> bytes" where
  "section_bytes data offset sz =
     (let end = min (sat_add offset sz) (data_len data)
      in case slice_get data offset end of Some b \<Rightarrow> b | None \<Rightarrow> [])"

text \<open>The decoding loop over the bytes of a section: \<open>len_at\<close> is the length of the instruction at
  an offset, or \<open>None\<close> where the loop stops (its condition and its breaks); \<open>decode addr raw\<close>
  is the entry pushed for the bytes \<open>raw\<close>. No entry is empty or reaches past the section.\<close>

function decode_loop ::
  "(bytes \<Rightarrow> nat \<Rightarrow> nat option) \<Rightarrow> (u64 \<Rightarrow> bytes \<Rightarrow> decoded_instr) \<Rightarrow> bytes \<Rightarrow> u64 \<Rightarrow> nat \<Rightarrow>
   decoded_instr list" where
  "decode_loop len_at decode sl vaddr offset =
     (case len_at sl offset of
        None \<Rightarrow> []
      | Some n \<Rightarrow>
          if 0 < n \<and> offset + n \<le> length sl
          then decode (vaddr + of_nat offset) (take n (drop offset sl))
            # decode_loop len_at decode sl vaddr (offset + n)
          else [])"
  by pat_completeness auto
termination
  by (relation "measure (\<lambda>(_, _, sl, _, offset). length sl - offset)") auto

declare decode_loop.simps [simp del]

text \<open>\<open>while offset + 4 <= slice.len()\<close>\<close>

definition fixed4_loop ::
  "(u64 \<Rightarrow> bytes \<Rightarrow> decoded_instr) \<Rightarrow> bytes \<Rightarrow> u64 \<Rightarrow> nat \<Rightarrow> decoded_instr list" where
  "fixed4_loop =
     decode_loop (\<lambda>sl offset. if offset + 4 \<le> length sl then Some 4 else None)"

text \<open>\<open>for x in xs { ... }\<close> over a buffer that is passed along; \<open>None\<close> is a panic of the body.\<close>

fun for_each :: "('x \<Rightarrow> 's \<Rightarrow> 's option) \<Rightarrow> 'x list \<Rightarrow> 's \<Rightarrow> 's option" where
  "for_each f [] s = Some s"
| "for_each f (x # xs) s = do { s' \<leftarrow> f x s; for_each f xs s' }"

text \<open>The displacement between the new addresses of an instruction and its target, or \<open>None\<close> if
  both move by the same amount and the instruction is left alone.\<close>

definition rebase :: "u64 \<Rightarrow> u64 \<Rightarrow> ival list \<Rightarrow> u64 \<Rightarrow> u64 \<Rightarrow> i64 option" where
  "rebase addr target ivs ts te =
     (let shift_src = total_shift addr ivs ts te;
          shift_tgt = total_shift target ivs ts te;
          delta = shift_src - shift_tgt
      in if delta = 0 then None
         else Some ((target - shift_tgt) - (addr - shift_src)))"

text \<open>The common frame of the patchers of 32-bit little-endian words: \<open>new_word\<close> is what they
  write for the word they find, \<open>None\<close> if they leave it alone.\<close>

type_synonym new_word = "u64 \<Rightarrow> u32 \<Rightarrow> ival list \<Rightarrow> u64 \<Rightarrow> u64 \<Rightarrow> u32 option"

definition patch_le_word ::
  "new_word \<Rightarrow> bytes \<Rightarrow> decoded_instr \<Rightarrow> ival list \<Rightarrow> sect list \<Rightarrow> u64 \<Rightarrow> u64 \<Rightarrow> bytes option" where
  "patch_le_word new_word data instr ivs secs ts te =
     (if length (raw instr) < 4 then Some data
      else let w = from_le (take 4 (raw instr)) in
        case vaddr_to_offset (i_addr instr) secs of
          None \<Rightarrow> Some data
        | Some foff \<Rightarrow>
            if data_len data < foff + 4 then Some data
            else case new_word (i_addr instr) w ivs ts te of
                   None \<Rightarrow> Some data
                 | Some w' \<Rightarrow> slice_put data foff (to_le 4 w'))"

lemma for_each_inv:
  assumes "\<And>x s. x \<in> set xs \<Longrightarrow> I s \<Longrightarrow> \<exists>s'. f x s = Some s' \<and> I s'" and "I s"
  shows "\<exists>s'. for_each f xs s = Some s' \<and> I s'"
  using assms
proof (induction xs arbitrary: s)
  case (Cons x xs)
  obtain s1 where s1: "f x s = Some s1" "I s1" using Cons.prems by fastforce
  then obtain s2 where "for_each f xs s1 = Some s2" "I s2"
    using Cons.IH [of s1] Cons.prems(1) by (metis list.set_intros(2))
  then show ?case using s1 by simp
qed simp

lemma for_each_append:
  "for_each f (xs @ ys) s = (case for_each f xs s of None \<Rightarrow> None | Some s' \<Rightarrow> for_each f ys s')"
  by (induction xs arbitrary: s) (auto split: Option.bind_split option.split)

lemma for_each_filter:
  "(\<And>x s. x \<in> set xs \<Longrightarrow> \<not> P x \<Longrightarrow> f x s = Some s) \<Longrightarrow> for_each f xs s = for_each f (filter P xs) s"
  by (induction xs arbitrary: s) (auto split: Option.bind_split)

section \<open>The section bytes\<close>

lemma section_bytes_clipped:
  assumes "vec_ok data"
  shows "section_bytes data offset sz =
    take (min (unat offset + unat sz) (length data) - unat offset) (drop (unat offset) data)"
proof -
  have len: "length data < 2 ^ 63" using assms by (simp add: vec_ok_def)
  have e: "unat (min (sat_add offset sz) (data_len data)) = min (unat offset + unat sz) (length data)"
    using len by (auto simp: min_def word_le_nat_alt unat_sat_add vec_ok_unat [OF assms])
  show ?thesis
  proof (cases "unat offset \<le> length data")
    case True
    then show ?thesis
      using e by (simp add: section_bytes_def Let_def slice_get_def word_le_nat_alt)
  next
    case False
    then show ?thesis
      using e by (simp add: section_bytes_def Let_def slice_get_def word_le_nat_alt)
  qed
qed

section \<open>The rebased displacement\<close>

lemma rebase_moved:
  assumes "p = (ivs, ts, te)"
  shows "rebase a t ivs ts te =
    (if plan_shift p a = plan_shift p t then None else Some (moved p t - moved p a))"
  by (auto simp: rebase_def assms moved_def plan_shift_def Let_def)

context disp_field
begin

text \<open>The word a patcher leaves behind, and what it decodes to.\<close>

lemma rebased_word:
  assumes p: "p = (ivs, ts, te)" and ok: "plan_ok p" and al: "plan_aligned k p"
    and a: "in_text p a" "2 ^ k dvd unat a - unat (plan_lo p)"
    and t: "in_text p t" "t = a + bias + get w"
    and bias: "disp_fits n k (- bias)" "disp_fits n k bias" "0 \<le> sint bias"
    and w': "w' = (case rebase a t ivs ts te of None \<Rightarrow> w | Some d \<Rightarrow> put w (d - bias))"
  shows "moved p a + bias + get w' = moved p t" and "w' AND keep = w AND keep"
proof -
  show "w' AND keep = w AND keep" by (simp add: w' put_keep split: option.split)
  show "moved p a + bias + get w' = moved p t"
  proof (cases "plan_shift p a = plan_shift p t")
    case True
    then show ?thesis using t(2) by (simp add: w' rebase_moved [OF p] moved_def)
  next
    case False
    then show ?thesis using relocated [OF ok al a t bias] by (simp add: w' rebase_moved [OF p])
  qed
qed

end



context disp_field
begin

text \<open>The same for a new word computed as the patchers do it.\<close>

lemma rebased_map:
  assumes p: "p = (ivs, ts, te)" and ok: "plan_ok p" and al: "plan_aligned k p"
    and a: "in_text p a" "2 ^ k dvd unat a - unat (plan_lo p)"
    and bias: "sint bias \<in> {0, 4, 8}" "5 \<le> n" "k \<le> 2"
    and t: "in_text p (a + bias + get w)"
    and new: "new = map_option (\<lambda>d. put w (d - bias)) (rebase a (a + bias + get w) ivs ts te)"
  shows "moved p a + bias + get (case new of None \<Rightarrow> w | Some x \<Rightarrow> x) = moved p (a + bias + get w)"
    and "(case new of None \<Rightarrow> w | Some x \<Rightarrow> x) AND keep = w AND keep"
proof -
  have w': "(case new of None \<Rightarrow> w | Some x \<Rightarrow> x) =
      (case rebase a (a + bias + get w) ivs ts te of None \<Rightarrow> w | Some d \<Rightarrow> put w (d - bias))"
    by (simp add: new split: option.split)
  note r = rebased_word [OF p ok al a t refl small_bias [OF bias] w']
  show "moved p a + bias + get (case new of None \<Rightarrow> w | Some x \<Rightarrow> x) = moved p (a + bias + get w)"
    and "(case new of None \<Rightarrow> w | Some x \<Rightarrow> x) AND keep = w AND keep"
    by (rule r)+
qed

lemmas rebased_map0 = rebased_map [where bias = 0, simplified]

end

section \<open>The loop over the live instructions\<close>

text \<open>The instruction's bytes are in the file at the offset its address maps to.\<close>

definition stored :: "bytes \<Rightarrow> sect list \<Rightarrow> decoded_instr \<Rightarrow> nat \<Rightarrow> bool" where
  "stored data secs i off \<longleftrightarrow> map_option unat (vaddr_to_offset (i_addr i) secs) = Some off
     \<and> off + length (raw i) \<le> length data \<and> take (length (raw i)) (drop off data) = raw i"

definition file_range :: "sect list \<Rightarrow> decoded_instr \<Rightarrow> nat set" where
  "file_range secs i = (case vaddr_to_offset (i_addr i) secs of
     None \<Rightarrow> {} | Some foff \<Rightarrow> {unat foff..<unat foff + length (raw i)})"

definition apart :: "sect list \<Rightarrow> decoded_instr list \<Rightarrow> bool" where
  "apart secs instrs \<longleftrightarrow> sorted_wrt (\<lambda>i j. file_range secs i \<inter> file_range secs j = {}) instrs"

lemma stored_range: "stored data secs i off \<Longrightarrow> file_range secs i = {off..<off + length (raw i)}"
  by (auto simp: stored_def file_range_def split: option.splits)

lemma stored_frame:
  assumes "stored data secs i off" and "length d' = length data"
    and "\<forall>k < length data. k \<in> file_range secs i \<longrightarrow> d' ! k = data ! k"
  shows "stored d' secs i off"
proof -
  have "take (length (raw i)) (drop off d') = take (length (raw i)) (drop off data)"
    using assms(2,3) unfolding stored_range [OF assms(1)] by (intro take_drop_cong) auto
  then show ?thesis using assms by (simp add: stored_def)
qed

text \<open>The bounds check of the patchers passes for a stored instruction, and a write at offset
  \<open>k\<close> of it is a rewrite of its bytes.\<close>

lemma splice_splice:
  assumes "take (length r) (drop off data) = r" and "off + length r \<le> length data"
    and "k + length bs \<le> length r"
  shows "splice_at data off (splice_at r k bs) = splice_at data (off + k) bs"
proof (rule nth_equalityI)
  show "length (splice_at data off (splice_at r k bs)) = length (splice_at data (off + k) bs)"
    using assms(2,3) by simp
next
  fix j assume "j < length (splice_at data off (splice_at r k bs))"
  then have j: "j < length data" using assms(2,3) by simp
  have r: "r ! m = data ! (off + m)" if "m < length r" for m
  proof -
    have "r ! m = take (length r) (drop off data) ! m" by (simp only: assms(1))
    then show ?thesis using that assms(2) by simp
  qed
  show "splice_at data off (splice_at r k bs) ! j = splice_at data (off + k) bs ! j"
    using assms(2,3) j by (auto simp: nth_splice r)
qed

lemma stored_check:
  assumes "vec_ok data" and "stored data secs i off" and "n \<le> length (raw i)"
    and "vaddr_to_offset (i_addr i) secs = Some foff"
  shows "\<not> data_len data < foff + of_nat n" and "unat foff = off"
proof -
  show f: "unat foff = off" using assms(2,4) by (simp add: stored_def)
  have l: "off + n \<le> length data" and "length data < 2 ^ 63"
    using assms by (auto simp: stored_def vec_ok_def)
  then have "unat (of_nat n :: u64) = n" by (simp add: unat_of_nat)
  then have "unat (foff + of_nat n) = off + n"
    using f l \<open>length data < 2 ^ 63\<close> by (subst unat_add_le) auto
  then show "\<not> data_len data < foff + of_nat n"
    using l by (simp add: word_less_nat_alt vec_ok_unat [OF assms(1)])
qed

lemma stored_put:
  assumes "vec_ok data" and "stored data secs i off" and "k + length bs \<le> length (raw i)"
    and "vaddr_to_offset (i_addr i) secs = Some foff"
  shows "slice_put data (foff + of_nat k) bs = Some (splice_at data off (splice_at (raw i) k bs))"
proof -
  have f: "unat foff = off" using assms(2,4) by (simp add: stored_def)
  have l: "off + k + length bs \<le> length data" and ld: "length data < 2 ^ 63"
    using assms by (auto simp: stored_def vec_ok_def)
  then have "unat (of_nat k :: u64) = k" by (simp add: unat_of_nat)
  then have a: "unat (foff + of_nat k) = off + k"
    using f l ld by (subst unat_add_le) auto
  show ?thesis
    using slice_put_ok [of "foff + of_nat k" bs data] a l assms(1)
      splice_splice [of "raw i" off data k bs] assms(2,3)
    by (simp add: stored_def)
qed

lemma stored_same: "stored data secs i off \<Longrightarrow> splice_at data off (raw i) = data"
  by (metis append_take_drop_id drop_drop add.commute stored_def splice_at_def)

lemma stored_mapped:
  assumes "stored data secs i off"
  obtains foff where "vaddr_to_offset (i_addr i) secs = Some foff" and "unat foff = off"
  using assms by (auto simp: stored_def)

locale branch_patcher =
  fixes patch_one :: "bytes \<Rightarrow> decoded_instr \<Rightarrow> ival list \<Rightarrow> sect list \<Rightarrow> u64 \<Rightarrow> u64 \<Rightarrow> bytes option"
    and new_raw :: "decoded_instr \<Rightarrow> ival list \<Rightarrow> u64 \<Rightarrow> u64 \<Rightarrow> bytes"
  assumes new_length: "length (new_raw i ivs ts te) = length (raw i)"
    and patch_new: "vec_ok data \<Longrightarrow> stored data secs i off \<Longrightarrow>
      patch_one data i ivs secs ts te = Some (splice_at data off (new_raw i ivs ts te))"
begin

definition live_patch ::
  "ival list \<Rightarrow> sect list \<Rightarrow> u64 \<Rightarrow> u64 \<Rightarrow> decoded_instr \<Rightarrow> bytes \<Rightarrow> bytes option" where
  "live_patch ivs secs ts te i data =
     (if in_dead_range (i_addr i) ivs then Some data else patch_one data i ivs secs ts te)"

lemma live_patch_step:
  assumes "vec_ok data" and "stored data secs i off"
  obtains d1 where "live_patch ivs secs ts te i data = Some d1" and "length d1 = length data"
    and "take (length (raw i)) (drop off d1) =
      (if in_dead_range (i_addr i) ivs then raw i else new_raw i ivs ts te)"
    and "\<forall>k < length data. k \<notin> file_range secs i \<longrightarrow> d1 ! k = data ! k"
proof (cases "in_dead_range (i_addr i) ivs")
  case True
  then show ?thesis
    using assms by (intro that [of data]) (auto simp: live_patch_def stored_def)
next
  case False
  let ?n = "new_raw i ivs ts te"
  have fits: "off + length ?n \<le> length data" using assms(2) by (simp add: stored_def new_length)
  have "take (length (raw i)) (drop off (splice_at data off ?n)) = ?n"
    using take_drop_splice [OF fits] by (simp add: new_length)
  moreover have "\<forall>k < length data. k \<notin> file_range secs i \<longrightarrow> splice_at data off ?n ! k = data ! k"
    using fits stored_range [OF assms(2)] by (auto simp: nth_splice new_length)
  ultimately show ?thesis
    using False fits patch_new [OF assms] by (intro that [of "splice_at data off ?n"])
      (auto simp: live_patch_def)
qed

lemma patch_loop:
  assumes "vec_ok data" and "\<forall>i \<in> set instrs. \<exists>off. stored data secs i off" and "apart secs instrs"
  shows "\<exists>d'. for_each (live_patch ivs secs ts te) instrs data = Some d' \<and> length d' = length data
    \<and> (\<forall>i \<in> set instrs. \<forall>off. stored data secs i off \<longrightarrow> take (length (raw i)) (drop off d') =
         (if in_dead_range (i_addr i) ivs then raw i else new_raw i ivs ts te))
    \<and> (\<forall>k < length data. k \<notin> (\<Union>i \<in> set instrs. file_range secs i) \<longrightarrow> d' ! k = data ! k)"
  using assms
proof (induction instrs arbitrary: data)
  case Nil
  then show ?case by simp
next
  case (Cons i xs)
  obtain off where off: "stored data secs i off" using Cons.prems(2) by auto
  obtain d1 where d1: "live_patch ivs secs ts te i data = Some d1" "length d1 = length data"
    "take (length (raw i)) (drop off d1) =
      (if in_dead_range (i_addr i) ivs then raw i else new_raw i ivs ts te)"
    "\<forall>k < length data. k \<notin> file_range secs i \<longrightarrow> d1 ! k = data ! k"
    using live_patch_step [OF Cons.prems(1) off] by metis
  have dis: "file_range secs i \<inter> file_range secs j = {}" if "j \<in> set xs" for j
    using Cons.prems(3) that by (auto simp: apart_def)
  have keep: "stored d1 secs j o1" if "j \<in> set xs" "stored data secs j o1" for j o1
    using that dis [OF that(1)] d1(2,4) by (intro stored_frame [OF that(2)]) blast+
  have "vec_ok d1" using Cons.prems(1) d1(2) by (simp add: vec_ok_def)
  moreover have "\<forall>j \<in> set xs. \<exists>o1. stored d1 secs j o1" using Cons.prems(2) keep by fastforce
  moreover have "apart secs xs" using Cons.prems(3) by (simp add: apart_def)
  ultimately obtain d2 where
    d2: "for_each (live_patch ivs secs ts te) xs d1 = Some d2" "length d2 = length data"
      "\<forall>j \<in> set xs. \<forall>o1. stored d1 secs j o1 \<longrightarrow> take (length (raw j)) (drop o1 d2) =
         (if in_dead_range (i_addr j) ivs then raw j else new_raw j ivs ts te)"
      "\<forall>k < length data. k \<notin> (\<Union>j \<in> set xs. file_range secs j) \<longrightarrow> d2 ! k = d1 ! k"
    using Cons.IH [of d1] d1(2) by auto
  have first: "take (length (raw i)) (drop o1 d2) =
      (if in_dead_range (i_addr i) ivs then raw i else new_raw i ivs ts te)"
    if "stored data secs i o1" for o1
  proof -
    have eq: "o1 = off" using off that by (auto simp: stored_def)
    have "k \<notin> (\<Union>j \<in> set xs. file_range secs j)" if "k \<in> file_range secs i" for k
      using dis that by blast
    then have "take (length (raw i)) (drop off d2) = take (length (raw i)) (drop off d1)"
      using d2(2,4) d1(2) unfolding stored_range [OF off] by (intro take_drop_cong) auto
    then show ?thesis using d1(3) by (simp add: eq)
  qed
  have "for_each (live_patch ivs secs ts te) (i # xs) data = Some d2" by (simp add: d1(1) d2(1))
  moreover have "\<forall>k < length data. k \<notin> (\<Union>j \<in> set (i # xs). file_range secs j) \<longrightarrow> d2 ! k = data ! k"
    using d2(4) d1(4) by simp
  ultimately show ?case using d2(2,3) first keep by (intro exI [of _ d2]) auto
qed

end

text \<open>A patcher of little-endian words provides the interface.\<close>

definition le_new_raw :: "new_word \<Rightarrow> decoded_instr \<Rightarrow> ival list \<Rightarrow> u64 \<Rightarrow> u64 \<Rightarrow> bytes" where
  "le_new_raw new_word i ivs ts te =
     (if length (raw i) < 4 then raw i
      else case new_word (i_addr i) (from_le (take 4 (raw i))) ivs ts te of
             None \<Rightarrow> raw i
           | Some w \<Rightarrow> splice_at (raw i) 0 (to_le 4 w))"

lemma le_new_raw_length: "length (le_new_raw new_word i ivs ts te) = length (raw i)"
  by (simp add: le_new_raw_def split: option.split)

lemma le_new_raw_word:
  assumes "length (raw i) = 4"
  shows "from_le (le_new_raw new_word i ivs ts te) =
    (case new_word (i_addr i) (from_le (raw i)) ivs ts te of None \<Rightarrow> from_le (raw i) | Some w \<Rightarrow> w)"
proof -
  have "splice_at (raw i) 0 (to_le 4 w) = to_le 4 w" for w :: u32
    using assms by (simp add: splice_at_def)
  then show ?thesis using assms by (simp add: le_new_raw_def from_le_to_le split: option.split)
qed

lemma patch_le_word_new:
  assumes ok: "vec_ok data" and st: "stored data secs i off"
  shows "patch_le_word new_word data i ivs secs ts te =
    Some (splice_at data off (le_new_raw new_word i ivs ts te))"
proof -
  obtain foff where f: "vaddr_to_offset (i_addr i) secs = Some foff" "unat foff = off"
    using st by (rule stored_mapped)
  show ?thesis
  proof (cases "length (raw i) < 4")
    case True
    then show ?thesis by (simp add: patch_le_word_def le_new_raw_def stored_same [OF st])
  next
    case False
    then have "\<not> data_len data < foff + 4" and "\<And>w. slice_put data foff (to_le 4 (w::u32)) =
        Some (splice_at data off (splice_at (raw i) 0 (to_le 4 w)))"
      using stored_check(1) [OF ok st _ f(1), of 4] stored_put [OF ok st _ f(1), of 0] by simp_all
    then show ?thesis using False
      by (simp add: patch_le_word_def le_new_raw_def f(1) stored_same [OF st] split: option.split)
  qed
qed

section \<open>A decoded section\<close>

text \<open>The \<open>size\<close> bytes of a section at file offset \<open>off\<close> and address \<open>vaddr\<close> lie inside the file
  and every one of its addresses maps to its own byte.\<close>

definition mapped :: "bytes \<Rightarrow> sect list \<Rightarrow> u64 \<Rightarrow> u64 \<Rightarrow> u64 \<Rightarrow> bool" where
  "mapped data secs off vaddr sz \<longleftrightarrow> unat off + unat sz \<le> length data
     \<and> (\<forall>j < unat sz. vaddr_to_offset (vaddr + of_nat j) secs = Some (off + of_nat j))"

lemma mapped_unat:
  assumes "vec_ok data" and "mapped data secs off vaddr sz" and "j < unat sz"
  shows "map_option unat (vaddr_to_offset (vaddr + of_nat j) secs) = Some (unat off + j)"
proof -
  have "unat off + j < length data" using assms by (auto simp: mapped_def)
  then have "unat (of_nat j :: u64) = j" and "unat off + j < 2 ^ 64"
    using assms(1) by (auto simp: vec_ok_def unat_of_nat)
  then have "unat (off + of_nat j) = unat off + j" by (simp add: unat_add_le)
  then show ?thesis using assms by (auto simp: mapped_def)
qed

lemma section_bytes_mapped:
  assumes "vec_ok data" and "mapped data secs off vaddr sz"
  shows "section_bytes data off sz = take (unat sz) (drop (unat off) data)"
proof -
  have "min (unat off + unat sz) (length data) = unat off + unat sz"
    using assms(2) by (simp add: mapped_def)
  then show ?thesis by (simp add: section_bytes_clipped [OF assms(1)])
qed

text \<open>The entries a decoder pushes for a section: stored in the file, apart from each other, each
  decoded from its own bytes at an aligned offset.\<close>

definition entry_at ::
  "bytes \<Rightarrow> sect list \<Rightarrow> u64 \<Rightarrow> u64 \<Rightarrow> u64 \<Rightarrow> nat \<Rightarrow> (u64 \<Rightarrow> bytes \<Rightarrow> decoded_instr) \<Rightarrow>
   (bytes \<Rightarrow> bool) \<Rightarrow> decoded_instr \<Rightarrow> nat \<Rightarrow> bool" where
  "entry_at data secs off vaddr sz k decode valid i j \<longleftrightarrow>
     j + length (raw i) \<le> unat sz \<and> 0 < length (raw i) \<and> 2 ^ k dvd j
     \<and> i = decode (vaddr + of_nat j) (raw i) \<and> valid (raw i) \<and> stored data secs i (unat off + j)"

definition decoded_section ::
  "bytes \<Rightarrow> sect list \<Rightarrow> u64 \<Rightarrow> u64 \<Rightarrow> u64 \<Rightarrow> nat \<Rightarrow> (u64 \<Rightarrow> bytes \<Rightarrow> decoded_instr) \<Rightarrow>
   (bytes \<Rightarrow> bool) \<Rightarrow> decoded_instr list \<Rightarrow> bool" where
  "decoded_section data secs off vaddr sz k decode valid instrs \<longleftrightarrow>
     apart secs instrs \<and> (\<forall>i \<in> set instrs. \<exists>j. entry_at data secs off vaddr sz k decode valid i j)"

lemma entry_atD:
  assumes "entry_at data secs off vaddr sz k decode valid i j"
  shows "j + length (raw i) \<le> unat sz" and "0 < length (raw i)" and "2 ^ k dvd j"
    and "i = decode (vaddr + of_nat j) (raw i)" and "valid (raw i)" and "stored data secs i (unat off + j)"
  using assms unfolding entry_at_def by simp_all

lemma decoded_entry:
  "decoded_section data secs off vaddr sz k decode valid instrs \<Longrightarrow> i \<in> set instrs \<Longrightarrow>
     \<exists>j. entry_at data secs off vaddr sz k decode valid i j"
  by (simp add: decoded_section_def)

lemma decode_loop_section:
  assumes ok: "vec_ok data" and m: "mapped data secs off vaddr sz"
    and dec: "\<And>a r. valid r \<Longrightarrow> i_addr (decode a r) = a \<and> raw (decode a r) = r"
    and len: "\<And>sl j n. len_at sl j = Some n \<Longrightarrow> j + n \<le> length sl \<Longrightarrow>
      valid (take n (drop j sl)) \<and> 2 ^ k dvd n"
  shows "decoded_section data secs off vaddr sz k decode valid
    (decode_loop len_at decode (section_bytes data off sz) vaddr 0)"
proof -
  let ?b = "take (unat sz) (drop (unat off) data)"
  let ?ok = "\<lambda>j0 i. \<exists>j \<ge> j0. entry_at data secs off vaddr sz k decode valid i j"
  have lb: "length ?b = unat sz" using m by (auto simp: mapped_def min_def)
  have loop: "apart secs (decode_loop len_at decode ?b vaddr j0)
      \<and> (\<forall>i \<in> set (decode_loop len_at decode ?b vaddr j0). ?ok j0 i)" if "2 ^ k dvd j0" for j0
    using that
  proof (induction "unat sz - j0" arbitrary: j0 rule: less_induct)
    case less
    show ?case
    proof (cases "\<exists>n. len_at ?b j0 = Some n \<and> 0 < n \<and> j0 + n \<le> unat sz")
      case False
      then have "decode_loop len_at decode ?b vaddr j0 = []"
        by (subst decode_loop.simps) (auto simp: lb split: option.split)
      then show ?thesis by (simp add: apart_def)
    next
      case True
      then obtain n where n: "len_at ?b j0 = Some n" "0 < n" "j0 + n \<le> unat sz" by blast
      let ?r = "take n (drop j0 ?b)" and ?rest = "decode_loop len_at decode ?b vaddr (j0 + n)"
      let ?e = "decode (vaddr + of_nat j0) ?r"
      have step: "decode_loop len_at decode ?b vaddr j0 = ?e # ?rest"
        by (subst decode_loop.simps) (simp only: n lb option.case simp_thms if_True)
      have v: "valid ?r" and kn: "2 ^ k dvd n" using len [OF n(1)] n(3) lb by simp_all
      have lr: "length ?r = n" using n(3) lb by simp
      note e = dec [OF v, of "vaddr + of_nat j0"]
      have "take n (drop (unat off + j0) data) = ?r"
        using n(3) by (simp add: drop_take add.commute min_def)
      moreover have "unat off + j0 + n \<le> length data" using n(3) m by (simp add: mapped_def)
      ultimately have st: "stored data secs ?e (unat off + j0)"
        using mapped_unat [OF ok m, of j0] n(2,3) e lr by (simp add: stored_def)
      have IH: "apart secs ?rest \<and> (\<forall>i \<in> set ?rest. ?ok (j0 + n) i)"
        using less.hyps [of "j0 + n"] n(2,3) less.prems kn by simp
      have "file_range secs ?e \<inter> file_range secs i = {}" if mem: "i \<in> set ?rest" for i
      proof -
        obtain j where j: "j0 + n \<le> j" "stored data secs i (unat off + j)"
          using IH mem entry_atD(6) by blast
        have "file_range secs ?e = {unat off + j0..<unat off + j0 + n}"
          using stored_range [OF st] by (simp only: e lr)
        then show ?thesis using j(1) unfolding stored_range [OF j(2)] by auto
      qed
      then have "apart secs (?e # ?rest)" using IH by (simp add: apart_def)
      moreover have "?ok j0 ?e"
        using n(2,3) e lr v st less.prems by (intro exI [of _ j0]) (simp add: entry_at_def)
      moreover have "?ok j0 i" if "?ok (j0 + n) i" for i
        using that by (meson add_leD1)
      ultimately show ?thesis unfolding step using IH by simp
    qed
  qed
  show ?thesis
    using loop [of 0] unfolding decoded_section_def section_bytes_mapped [OF ok m] by auto
qed

text \<open>Addresses of the instructions of a decoded .text.\<close>

lemma text_addr:
  assumes "plan_ok (ivs, vaddr, vaddr + sz)" and "j < unat sz"
  shows "in_text (ivs, vaddr, vaddr + sz) (vaddr + of_nat j)"
    and "unat (vaddr + of_nat j) - unat vaddr = j" and "unat ((vaddr + of_nat j) - vaddr) = j"
proof -
  have "vaddr \<le> vaddr + sz" using assms(1) by (auto simp: plan_ok_def dest: chain_le)
  then have s: "unat (vaddr + sz) = unat vaddr + unat sz" and "unat vaddr + unat sz < 2 ^ 64"
    using no_olen_add_nat [of vaddr sz] by (simp_all add: unat_add_le)
  moreover have j: "unat (of_nat j :: u64) = j"
    using lt64I [OF less_imp_le [OF assms(2)]] by (simp add: unat_of_nat)
  ultimately have "unat (vaddr + of_nat j) = unat vaddr + j"
    using assms(2) by (subst unat_add_le) auto
  with s assms(2) j show "in_text (ivs, vaddr, vaddr + sz) (vaddr + of_nat j)"
    and "unat (vaddr + of_nat j) - unat vaddr = j" and "unat ((vaddr + of_nat j) - vaddr) = j"
    by (auto simp: in_text_def plan_lo_def plan_hi_def word_le_nat_alt word_less_nat_alt)
qed



section \<open>A patched section\<close>

text \<open>An instruction entry moved by a plan, with new bytes.\<close>

definition move_instr :: "plan \<Rightarrow> bytes \<Rightarrow> decoded_instr \<Rightarrow> decoded_instr" where
  "move_instr p r i = i\<lparr>i_addr := moved p (i_addr i), raw := r,
     targets := map (moved p) (targets i), pc_rel_target := map_option (moved p) (pc_rel_target i)\<rparr>"

definition move_triple ::
  "plan \<Rightarrow> u64 list \<times> u64 option \<times> flow_type \<Rightarrow> u64 list \<times> u64 option \<times> flow_type" where
  "move_triple p d = (case d of (ts, r, f) \<Rightarrow> (map (moved p) ts, map_option (moved p) r, f))"

text \<open>The file bytes of the instruction with address \<open>a\<close> of a section at \<open>off\<close> and \<open>vaddr\<close>.\<close>

definition bytes_at :: "bytes \<Rightarrow> u64 \<Rightarrow> u64 \<Rightarrow> nat \<Rightarrow> u64 \<Rightarrow> bytes" where
  "bytes_at data off vaddr n a = take n (drop (unat off + unat (a - vaddr)) data)"

text \<open>What patching achieves for a section that is decoded as \<open>instrs\<close>.\<close>

definition text_moved ::
  "(u64 \<Rightarrow> bytes \<Rightarrow> decoded_instr) \<Rightarrow> (decoded_instr \<Rightarrow> bool) \<Rightarrow> decoded_instr list \<Rightarrow> ival list \<Rightarrow>
   u64 \<Rightarrow> u64 \<Rightarrow> u64 \<Rightarrow> bytes \<Rightarrow> bytes \<Rightarrow> bool" where
  "text_moved decode supported instrs ivs off vaddr sz data d' \<longleftrightarrow>
     (\<forall>i \<in> set instrs. \<not> in_dead_range (i_addr i) ivs \<longrightarrow> supported i \<longrightarrow>
        (\<forall>t \<in> set (targets i). in_text (ivs, vaddr, vaddr + sz) t) \<longrightarrow>
        (let r = bytes_at d' off vaddr (length (raw i)) (i_addr i)
         in decode (new_addr ivs (i_addr i)) r = move_instr (ivs, vaddr, vaddr + sz) r i))
     \<and> length d' = length data
     \<and> (\<forall>k < length data. k < unat off \<or> unat off + unat sz \<le> k \<longrightarrow> d' ! k = data ! k)"

locale section_patcher = branch_patcher patch_one new_raw
  for patch_one :: "bytes \<Rightarrow> decoded_instr \<Rightarrow> ival list \<Rightarrow> sect list \<Rightarrow> u64 \<Rightarrow> u64 \<Rightarrow> bytes option"
    and new_raw :: "decoded_instr \<Rightarrow> ival list \<Rightarrow> u64 \<Rightarrow> u64 \<Rightarrow> bytes" +
  fixes decode :: "u64 \<Rightarrow> bytes \<Rightarrow> decoded_instr"
    and supported :: "plan \<Rightarrow> decoded_instr \<Rightarrow> bool"
    and valid :: "bytes \<Rightarrow> bool"
    and k :: nat
  assumes decode_fields: "valid r \<Longrightarrow> i_addr (decode a r) = a \<and> raw (decode a r) = r"
    and new_raw_moves: "p = (ivs, ts, te) \<Longrightarrow> plan_ok p \<Longrightarrow> plan_aligned k p \<Longrightarrow>
      in_text p a \<Longrightarrow> 2 ^ k dvd unat a - unat ts \<Longrightarrow> valid r \<Longrightarrow> supported p (decode a r) \<Longrightarrow>
      \<forall>t \<in> set (targets (decode a r)). in_text p t \<Longrightarrow>
      decode (moved p a) (new_raw (decode a r) ivs ts te)
        = move_instr p (new_raw (decode a r) ivs ts te) (decode a r)"
begin

lemma text_relocated:
  assumes ok: "vec_ok data" and m: "mapped data secs off vaddr sz"
    and pl: "plan_ok (ivs, vaddr, vaddr + sz)" and al: "plan_aligned k (ivs, vaddr, vaddr + sz)"
    and sec: "decoded_section data secs off vaddr sz k decode valid instrs"
  shows "\<exists>d'. for_each (live_patch ivs secs vaddr (vaddr + sz)) instrs data = Some d'
    \<and> text_moved decode (supported (ivs, vaddr, vaddr + sz)) instrs ivs off vaddr sz data d'"
proof -
  let ?p = "(ivs, vaddr, vaddr + sz)"
  have st: "\<forall>i \<in> set instrs. \<exists>o1. stored data secs i o1" "apart secs instrs"
    using sec entry_atD(6) unfolding decoded_section_def by blast+
  obtain d' where d': "for_each (live_patch ivs secs vaddr (vaddr + sz)) instrs data = Some d'"
    "length d' = length data"
    "\<forall>i \<in> set instrs. \<forall>o1. stored data secs i o1 \<longrightarrow> take (length (raw i)) (drop o1 d') =
       (if in_dead_range (i_addr i) ivs then raw i else new_raw i ivs vaddr (vaddr + sz))"
    "\<forall>k < length data. k \<notin> (\<Union>i \<in> set instrs. file_range secs i) \<longrightarrow> d' ! k = data ! k"
    using patch_loop [OF ok st(1,2), of ivs vaddr "vaddr + sz"] by blast
  have live: "decode (new_addr ivs (i_addr i)) r = move_instr ?p r i"
    if i: "i \<in> set instrs" and l: "\<not> in_dead_range (i_addr i) ivs"
      and s: "supported ?p i" and t: "\<forall>t \<in> set (targets i). in_text ?p t"
      and r: "r = bytes_at d' off vaddr (length (raw i)) (i_addr i)" for i r
  proof -
    obtain j0 where "entry_at data secs off vaddr sz k decode valid i j0"
      using sec i unfolding decoded_section_def by blast
    note j = entry_atD [OF this]
    let ?a = "vaddr + of_nat j0"
    have ia: "i_addr i = ?a" using j(4) decode_fields [OF j(5)] by metis
    have lt: "j0 < unat sz" using j(1,2) by linarith
    note ta = text_addr [OF pl lt]
    have al4: "2 ^ k dvd unat ?a - unat vaddr" using j(3) by (simp only: ta(2))
    have new: "new_raw i ivs vaddr (vaddr + sz) = r"
      using d'(3) [rule_format, OF i j(6)] l by (simp only: r bytes_at_def ia ta(3) if_False)
    have "decode (moved ?p ?a) (new_raw i ivs vaddr (vaddr + sz))
        = move_instr ?p (new_raw i ivs vaddr (vaddr + sz)) i"
      using new_raw_moves [OF refl pl al ta(1) al4 j(5)] s t unfolding j(4) [symmetric] by blast
    then show ?thesis using moved_text [OF ta(1)] by (simp only: new ia)
  qed
  have sub: "file_range secs i \<subseteq> {unat off..<unat off + unat sz}" if mem: "i \<in> set instrs" for i
  proof -
    obtain j where j: "j + length (raw i) \<le> unat sz" "stored data secs i (unat off + j)"
    proof -
      obtain j where "entry_at data secs off vaddr sz k decode valid i j"
        using sec mem unfolding decoded_section_def by blast
      from entry_atD(1,6) [OF this] show ?thesis by (rule that)
    qed
    show ?thesis using j(1) unfolding stored_range [OF j(2)] by simp
  qed
  have "x \<notin> (\<Union>i \<in> set instrs. file_range secs i)" if "x < unat off \<or> unat off + unat sz \<le> x" for x
  proof
    assume "x \<in> (\<Union>i \<in> set instrs. file_range secs i)"
    then obtain i where "i \<in> set instrs" and "x \<in> file_range secs i" by blast
    then have "x \<in> {unat off..<unat off + unat sz}" using sub by blast
    then show False using that by auto
  qed
  then have "\<forall>k < length data. k < unat off \<or> unat off + unat sz \<le> k \<longrightarrow> d' ! k = data ! k"
    using d'(4) by blast
  then show ?thesis using d'(1,2) live unfolding text_moved_def Let_def by blast
qed

end

lemma fixed4_section:
  assumes "vec_ok data" and "mapped data secs off vaddr sz"
    and "\<And>a r. length r = 4 \<Longrightarrow> i_addr (decode a r) = a \<and> raw (decode a r) = r"
  shows "decoded_section data secs off vaddr sz 2 decode (\<lambda>r. length r = 4)
    (fixed4_loop decode (section_bytes data off sz) vaddr 0)"
  unfolding fixed4_loop_def
  using assms by (intro decode_loop_section) (auto split: if_splits)

lemma mapped_first:
  assumes "unat (s_vaddr s) + unat (s_size s) < 2 ^ 64"
    and "unat (s_offset s) + unat (s_size s) \<le> length data"
  shows "mapped data (s # secs) (s_offset s) (s_vaddr s) (s_size s)"
proof -
  have sum: "unat (s_vaddr s + s_size s) = unat (s_vaddr s) + unat (s_size s)"
    using assms(1) by (simp add: unat_add_le)
  have "vaddr_to_offset (s_vaddr s + of_nat j) (s # secs) = Some (s_offset s + of_nat j)"
    if "j < unat (s_size s)" for j
  proof -
    have "unat (of_nat j :: u64) = j"
      using lt64I [OF less_imp_le [OF that]] by (simp add: unat_of_nat)
    then have "unat (s_vaddr s + of_nat j) = unat (s_vaddr s) + j"
      using assms(1) that by (subst unat_add_le) auto
    then show ?thesis using sum that by (simp add: word_le_nat_alt word_less_nat_alt)
  qed
  then show ?thesis using assms(2) by (simp add: mapped_def)
qed



lemma text_moved_targets:
  assumes "text_moved decode supported instrs ivs off vaddr sz data d'" and "i \<in> set instrs"
    and "\<not> in_dead_range (i_addr i) ivs" and "supported i"
    and "\<forall>t \<in> set (targets i). in_text (ivs, vaddr, vaddr + sz) t"
  shows "targets (decode (new_addr ivs (i_addr i)) (bytes_at d' off vaddr (length (raw i)) (i_addr i)))
    = map (moved (ivs, vaddr, vaddr + sz)) (targets i)"
  using assms by (simp add: text_moved_def Let_def move_instr_def)

text \<open>The plan of the concrete instances: a 16-byte .text whose second and third words are dead.\<close>

definition ex_text :: sect where
  "ex_text = \<lparr>s_name = ''.text'', s_size = 16, s_vaddr = 0x1000, s_offset = 0, s_align = 4\<rparr>"

definition ex_dead :: "ival list" where
  "ex_dead = [(0x1004, 0x100C)]"

lemma ex_plan:
  "plan_ok (ex_dead, 0x1000, 0x1000 + 16)" "plan_aligned 2 (ex_dead, 0x1000, 0x1000 + 16)"
  "new_addr ex_dead 0x1000 = 0x1000" "moved (ex_dead, 0x1000, 0x1000 + 16) 0x100C = 0x1004"
  "in_text (ex_dead, 0x1000, 0x1000 + 16) 0x100C" "\<not> in_dead_range 0x1000 ex_dead"
  by (simp_all add: ex_dead_def plan_ok_def plan_aligned_def in_text_def plan_lo_def plan_hi_def
      new_addr_def moved_def plan_shift_def total_shift_def shift_at_def sat_sub_def in_dead_range_def)

lemma ex_mapped: "length data = 16 \<Longrightarrow> mapped data [ex_text] 0 0x1000 16 \<and> vec_ok data"
  using mapped_first [of ex_text data "[]"] by (simp add: ex_text_def vec_ok_def)

lemma ex_section: "length data = 16 \<Longrightarrow> section_bytes data 0 16 = data"
  using section_bytes_mapped ex_mapped by fastforce

end
