(* ===== verification/Aarch64.thy ===== *)
theory Aarch64
  imports Patching
begin

text \<open>
  \<open>src/arch/aarch64.rs\<close> and \<open>src/arch/aarch64_patch.rs\<close>: the A64 decoder (branch targets and
  PC-relative references) and the patcher of branch and ADR(P) immediates. The main fact is that
  the patched word decodes, at its new address, to the same instruction with every target moved.
\<close>

section \<open>Decoder\<close>

record decoded =
  d_targets :: "u64 list"
  d_pc_rel :: "u64 option"
  d_flow :: flow_type

definition a64_imm26 :: "u32 \<Rightarrow> i64" where
  "a64_imm26 w = push_bit 2 (ext64 (sign_extend (w AND 0x03FFFFFF) 26))"

definition a64_imm19 :: "u32 \<Rightarrow> i64" where
  "a64_imm19 w = push_bit 2 (ext64 (sign_extend (drop_bit 5 w AND 0x7FFFF) 19))"

definition a64_imm14 :: "u32 \<Rightarrow> i64" where
  "a64_imm14 w = push_bit 2 (ext64 (sign_extend (drop_bit 5 w AND 0x3FFF) 14))"

text \<open>The split immediate \<open>immhi:immlo\<close> of ADR and ADRP.\<close>

definition a64_imm21 :: "u32 \<Rightarrow> i64" where
  "a64_imm21 w =
     (let immhi = drop_bit 5 w AND 0x7FFFF; immlo = drop_bit 29 w AND 0x3
      in ext64 (sign_extend (push_bit 2 immhi OR immlo) 21))"

definition branch26_target :: "u64 \<Rightarrow> u32 \<Rightarrow> u64" where
  "branch26_target addr w = addr + a64_imm26 w"

definition branch19_target :: "u64 \<Rightarrow> u32 \<Rightarrow> u64" where
  "branch19_target addr w = addr + a64_imm19 w"

definition branch14_target :: "u64 \<Rightarrow> u32 \<Rightarrow> u64" where
  "branch14_target addr w = addr + a64_imm14 w"

definition adrp_target :: "u64 \<Rightarrow> u32 \<Rightarrow> u64" where
  "adrp_target addr w = (addr AND NOT 0xFFF) + push_bit 12 (a64_imm21 w)"

definition adr_target :: "u64 \<Rightarrow> u32 \<Rightarrow> u64" where
  "adr_target addr w = addr + a64_imm21 w"

definition decode_a64_pcrel :: "u64 \<Rightarrow> u32 \<Rightarrow> decoded \<Rightarrow> decoded" where
  "decode_a64_pcrel addr w d =
     (if w AND 0x9F000000 = 0x90000000 then d\<lparr>d_pc_rel := Some (adrp_target addr w)\<rparr>
      else if w AND 0x9F000000 = 0x10000000 then d\<lparr>d_pc_rel := Some (adr_target addr w)\<rparr>
      else if w AND 0x3B000000 = 0x18000000 then d\<lparr>d_pc_rel := Some (branch19_target addr w)\<rparr>
      else d)"

definition decode_a64_branches :: "u64 \<Rightarrow> u32 \<Rightarrow> decoded \<Rightarrow> decoded" where
  "decode_a64_branches addr w d =
     (if w AND 0xFF000010 = 0x54000000 then
        d\<lparr>d_targets := d_targets d @ [branch19_target addr w], d_flow := ConditionalBranch\<rparr>
      else if w AND 0x7E000000 = 0x34000000 then
        d\<lparr>d_targets := d_targets d @ [branch19_target addr w], d_flow := ConditionalBranch\<rparr>
      else if w AND 0x7E000000 = 0x36000000 then
        d\<lparr>d_targets := d_targets d @ [branch14_target addr w], d_flow := ConditionalBranch\<rparr>
      else decode_a64_pcrel addr w d)"

definition decode_a64_other :: "u64 \<Rightarrow> u32 \<Rightarrow> decoded \<Rightarrow> decoded" where
  "decode_a64_other addr w d =
     (if w AND 0xFFFFFC1F = 0xD65F0000 then d\<lparr>d_flow := Return\<rparr>
      else if w AND 0xFFFFFC1F = 0xD61F0000 then d\<lparr>d_flow := IndirectBranch\<rparr>
      else if w AND 0xFFFFFC1F = 0xD63F0000 then d\<lparr>d_flow := IndirectCall\<rparr>
      else if w AND 0xFFE00000 = 0xD4200000 then d\<lparr>d_flow := Halt\<rparr>
      else decode_a64_branches addr w d)"

definition add_pc_rel :: "decoded \<Rightarrow> decoded" where
  "add_pc_rel d = (case d_pc_rel d of
     None \<Rightarrow> d
   | Some t \<Rightarrow> if t \<notin> set (d_targets d) then d\<lparr>d_targets := d_targets d @ [t]\<rparr> else d)"

definition decode_a64_word :: "u64 \<Rightarrow> u32 \<Rightarrow> decoded" where
  "decode_a64_word addr w =
     (let d = \<lparr>d_targets = [], d_pc_rel = None, d_flow = Normal\<rparr>; op = drop_bit 26 w
      in add_pc_rel
        (if op = 0b000101 then
           d\<lparr>d_targets := [branch26_target addr w], d_flow := UnconditionalBranch\<rparr>
         else if op = 0b100101 then
           d\<lparr>d_targets := [branch26_target addr w], d_flow := Call\<rparr>
         else decode_a64_other addr w d))"

definition a64_instr :: "u64 \<Rightarrow> bytes \<Rightarrow> decoded_instr" where
  "a64_instr addr r =
     (let d = decode_a64_word addr (from_le r)
      in \<lparr>i_addr = addr, raw = r, i_len = 4, targets = d_targets d, pc_rel_target = d_pc_rel d,
          is_call = (d_flow d = Call), flow = d_flow d\<rparr>)"

definition decode_text_aarch64 :: "bytes \<Rightarrow> u64 \<Rightarrow> u64 \<Rightarrow> u64 \<Rightarrow> decoded_instr list" where
  "decode_text_aarch64 data text_offset text_vaddr text_size =
     fixed4_loop a64_instr (section_bytes data text_offset text_size) text_vaddr 0"

section \<open>Patcher\<close>

definition is_padding_aarch64 :: "u8 \<Rightarrow> bool" where
  "is_padding_aarch64 b \<longleftrightarrow> b = 0x00"

definition a64_put26 :: "u32 \<Rightarrow> i64 \<Rightarrow> u32" where
  "a64_put26 w new_offset =
     (w AND 0xFC000000) OR (ucast (sar new_offset 2) AND 0x03FFFFFF)"

definition a64_put19 :: "u32 \<Rightarrow> i64 \<Rightarrow> u32" where
  "a64_put19 w new_offset =
     (w AND 0xFF00001F) OR push_bit 5 (ucast (sar new_offset 2) AND 0x7FFFF)"

definition a64_put14 :: "u32 \<Rightarrow> i64 \<Rightarrow> u32" where
  "a64_put14 w new_offset =
     (w AND 0xFFF8001F) OR push_bit 5 (ucast (sar new_offset 2) AND 0x3FFF)"

definition a64_put21 :: "u32 \<Rightarrow> i64 \<Rightarrow> u32" where
  "a64_put21 w new_imm =
     (let imm = ucast new_imm :: u32
      in (w AND 0x9F00001F) OR push_bit 5 (drop_bit 2 imm AND 0x7FFFF) OR push_bit 29 (imm AND 0x3))"

definition patch_branch19 :: "u64 \<Rightarrow> u32 \<Rightarrow> ival list \<Rightarrow> u64 \<Rightarrow> u64 \<Rightarrow> u32 option" where
  "patch_branch19 addr w ivs ts te =
     map_option (a64_put19 w) (rebase addr (addr + a64_imm19 w) ivs ts te)"

text \<open>The word the patcher writes for the word \<open>w\<close> at \<open>addr\<close>, \<open>None\<close> if it leaves it alone.\<close>

definition a64_new_word :: "u64 \<Rightarrow> u32 \<Rightarrow> ival list \<Rightarrow> u64 \<Rightarrow> u64 \<Rightarrow> u32 option" where
  "a64_new_word addr w ivs ts te =
     (let op = drop_bit 26 w in
      if op = 0b000101 \<or> op = 0b100101 then
        map_option (a64_put26 w) (rebase addr (addr + a64_imm26 w) ivs ts te)
      else if w AND 0xFF000010 = 0x54000000 then patch_branch19 addr w ivs ts te
      else if w AND 0x7E000000 = 0x34000000 then patch_branch19 addr w ivs ts te
      else if w AND 0x7E000000 = 0x36000000 then
        map_option (a64_put14 w) (rebase addr (addr + a64_imm14 w) ivs ts te)
      else if w AND 0x9F000000 = 0x90000000 then
        let page = addr AND NOT 0xFFF;
            target = page + push_bit 12 (a64_imm21 w);
            shift_src = total_shift addr ivs ts te;
            shift_tgt = total_shift target ivs ts te;
            delta = shift_src - shift_tgt
        in if delta = 0 then None
           else let new_addr = addr - shift_src;
                    new_target = target - shift_tgt;
                    new_page = new_addr AND NOT 0xFFF
                in Some (a64_put21 w (sar (new_target - new_page) 12))
      else if w AND 0x9F000000 = 0x10000000 then
        map_option (a64_put21 w) (rebase addr (addr + a64_imm21 w) ivs ts te)
      else None)"

definition a64_patch_one ::
  "bytes \<Rightarrow> decoded_instr \<Rightarrow> ival list \<Rightarrow> sect list \<Rightarrow> u64 \<Rightarrow> u64 \<Rightarrow> bytes option" where
  "a64_patch_one = patch_le_word a64_new_word"

definition a64_patch_branches ::
  "bytes \<Rightarrow> decoded_instr list \<Rightarrow> ival list \<Rightarrow> sect list \<Rightarrow> u64 \<Rightarrow> u64 \<Rightarrow> bytes option" where
  "a64_patch_branches data instrs ivs secs ts te =
     for_each (\<lambda>instr data.
         if in_dead_range (i_addr instr) ivs then Some data
         else a64_patch_one data instr ivs secs ts te)
       instrs data"

section \<open>The immediate fields\<close>

lemma mask_lits32 [mask_lits]:
  "(0x03FFFFFF::u32) = mask 26" "(0x7FFFF::u32) = mask 19" "(0x3FFF::u32) = mask 14"
  "(0x3::u32) = mask 2" "(0xFC000000::u32) = push_bit 26 (mask 6)"
  "(0xFF00001F::u32) = push_bit 24 (mask 8) OR mask 5"
  "(0xFFF8001F::u32) = push_bit 19 (mask 13) OR mask 5"
  "(0x9F00001F::u32) = push_bit 31 1 OR push_bit 24 (mask 5) OR mask 5"
  by (simp_all add: mask_eq_exp_minus_1)

lemma bit_top32 [field_bits]: "bit (0x80000000::int) j \<longleftrightarrow> j = 31"
proof -
  have "(0x80000000::int) = 2 ^ 31" by simp
  then show ?thesis by (simp only: bit_exp_iff) auto
qed

interpretation a64_f26: bit_field a64_imm26 a64_put26 28 2 "0xFC000000" "\<lambda>i. i - 2"
proof
  show "bit (a64_imm26 w) i \<longleftrightarrow> i < 64 \<and> 2 \<le> i \<and> bit w (min i (28 - 1) - 2)" for w i
    unfolding a64_imm26_def mask_lits
    by (auto simp: bit_simps field_bits min_def not_le)
  show "bit (a64_put26 w d) (i - 2) \<longleftrightarrow> bit d i" if "2 \<le> i" "i < 28" for w d i
    using that ge_two [OF that(1)] unfolding a64_put26_def mask_lits sar_def
    by (auto simp: bit_simps)
  show "a64_put26 w d AND 0xFC000000 = w AND 0xFC000000" for w d
    unfolding a64_put26_def mask_lits by (rule bit_word_eqI) (auto simp: bit_simps)
qed auto

interpretation a64_f19: bit_field a64_imm19 a64_put19 21 2 "0xFF00001F" "\<lambda>i. i + 3"
proof
  show "bit (a64_imm19 w) i \<longleftrightarrow> i < 64 \<and> 2 \<le> i \<and> bit w (min i (21 - 1) + 3)" for w i
    using ge_two [of i] unfolding a64_imm19_def mask_lits
    by (auto simp: bit_simps field_bits min_def not_le add.commute)
  show "bit (a64_put19 w d) (i + 3) \<longleftrightarrow> bit d i" if "2 \<le> i" "i < 21" for w d i
    using that ge_two [OF that(1)] unfolding a64_put19_def mask_lits sar_def
    by (auto simp: bit_simps)
  show "a64_put19 w d AND 0xFF00001F = w AND 0xFF00001F" for w d
    unfolding a64_put19_def mask_lits by (rule bit_word_eqI) (auto simp: bit_simps)
qed auto

interpretation a64_f14: bit_field a64_imm14 a64_put14 16 2 "0xFFF8001F" "\<lambda>i. i + 3"
proof
  show "bit (a64_imm14 w) i \<longleftrightarrow> i < 64 \<and> 2 \<le> i \<and> bit w (min i (16 - 1) + 3)" for w i
    using ge_two [of i] unfolding a64_imm14_def mask_lits
    by (auto simp: bit_simps field_bits min_def not_le add.commute)
  show "bit (a64_put14 w d) (i + 3) \<longleftrightarrow> bit d i" if "2 \<le> i" "i < 16" for w d i
    using that ge_two [OF that(1)] unfolding a64_put14_def mask_lits sar_def
    by (auto simp: bit_simps)
  show "a64_put14 w d AND 0xFFF8001F = w AND 0xFFF8001F" for w d
    unfolding a64_put14_def mask_lits by (rule bit_word_eqI) (auto simp: bit_simps)
qed auto

interpretation a64_f21: bit_field a64_imm21 a64_put21 21 0 "0x9F00001F"
  "\<lambda>i. if i < 2 then i + 29 else i + 3"
proof
  show "bit (a64_imm21 w) i \<longleftrightarrow>
      i < 64 \<and> 0 \<le> i \<and> bit w (if min i (21 - 1) < 2 then min i (21 - 1) + 29 else min i (21 - 1) + 3)"
    for w i
    using ge_two [of i] unfolding a64_imm21_def mask_lits Let_def
    by (auto simp: bit_simps field_bits min_def not_le not_less add.commute)
  show "bit (a64_put21 w d) (if i < 2 then i + 29 else i + 3) \<longleftrightarrow> bit d i" if "i < 21" for w d i
    using that ge_two [of i] unfolding a64_put21_def mask_lits Let_def
    by (auto simp: bit_simps field_bits not_less)
  show "a64_put21 w d AND 0x9F00001F = w AND 0x9F00001F" for w d
    unfolding a64_put21_def mask_lits Let_def by (rule bit_word_eqI) (auto simp: bit_simps field_bits)
qed auto


section \<open>One instruction\<close>

lemma a64_ops:
  "drop_bit 26 (w::u32) = 5 \<longleftrightarrow> w AND 0xFC000000 = 0x14000000"
  "drop_bit 26 (w::u32) = 37 \<longleftrightarrow> w AND 0xFC000000 = 0x94000000"
  by (simp_all add: shifted_eq mask_eq_exp_minus_1)

lemmas a64_decode_defs = decode_a64_word_def decode_a64_other_def decode_a64_branches_def
  decode_a64_pcrel_def add_pc_rel_def branch26_target_def branch19_target_def branch14_target_def
  adr_target_def

lemma a64_b:
  assumes "w AND 0xFC000000 = 0x14000000 \<or> w AND 0xFC000000 = 0x94000000"
  shows "decode_a64_word a w = \<lparr>d_targets = [a + a64_imm26 w], d_pc_rel = None,
      d_flow = (if w AND 0xFC000000 = 0x14000000 then UnconditionalBranch else Call)\<rparr>"
    and "a64_new_word a w ivs ts te =
      map_option (a64_put26 w) (rebase a (a + a64_imm26 w) ivs ts te)"
  using assms by (auto simp: a64_decode_defs a64_new_word_def a64_ops Let_def)

lemma a64_bcond:
  assumes "w AND 0xFF000010 = 0x54000000"
  shows "decode_a64_word a w = \<lparr>d_targets = [a + a64_imm19 w], d_pc_rel = None,
      d_flow = ConditionalBranch\<rparr>"
    and "a64_new_word a w ivs ts te =
      map_option (a64_put19 w) (rebase a (a + a64_imm19 w) ivs ts te)"
  using assms
  by (simp_all add: a64_decode_defs a64_new_word_def a64_ops Let_def patch_branch19_def
      mask_disjoint [OF assms])

lemma a64_cbz:
  assumes "w AND 0x7E000000 = 0x34000000"
  shows "decode_a64_word a w = \<lparr>d_targets = [a + a64_imm19 w], d_pc_rel = None,
      d_flow = ConditionalBranch\<rparr>"
    and "a64_new_word a w ivs ts te =
      map_option (a64_put19 w) (rebase a (a + a64_imm19 w) ivs ts te)"
  using assms
  by (simp_all add: a64_decode_defs a64_new_word_def a64_ops Let_def patch_branch19_def
      mask_disjoint [OF assms])

lemma a64_tbz:
  assumes "w AND 0x7E000000 = 0x36000000"
  shows "decode_a64_word a w = \<lparr>d_targets = [a + a64_imm14 w], d_pc_rel = None,
      d_flow = ConditionalBranch\<rparr>"
    and "a64_new_word a w ivs ts te =
      map_option (a64_put14 w) (rebase a (a + a64_imm14 w) ivs ts te)"
  using assms
  by (simp_all add: a64_decode_defs a64_new_word_def a64_ops Let_def mask_disjoint [OF assms])

lemma a64_adr:
  assumes "w AND 0x9F000000 = 0x10000000"
  shows "decode_a64_word a w = \<lparr>d_targets = [a + a64_imm21 w], d_pc_rel = Some (a + a64_imm21 w),
      d_flow = Normal\<rparr>"
    and "a64_new_word a w ivs ts te =
      map_option (a64_put21 w) (rebase a (a + a64_imm21 w) ivs ts te)"
  using assms
  by (simp_all add: a64_decode_defs a64_new_word_def a64_ops Let_def mask_disjoint [OF assms])


text \<open>The forms the patcher does not relocate exactly: page addresses, and literal loads, which it
  does not touch.\<close>

definition a64_unsupported :: "u32 \<Rightarrow> bool" where
  "a64_unsupported w \<longleftrightarrow> w AND 0x9F000000 = 0x90000000 \<or> w AND 0x3B000000 = 0x18000000"

definition move_decoded :: "plan \<Rightarrow> decoded \<Rightarrow> decoded" where
  "move_decoded p d = d\<lparr>d_targets := map (moved p) (d_targets d),
     d_pc_rel := map_option (moved p) (d_pc_rel d)\<rparr>"

lemma a64_plain:
  assumes "\<not> (w AND 0xFC000000 = 0x14000000 \<or> w AND 0xFC000000 = 0x94000000)"
    and "w AND 0xFF000010 \<noteq> 0x54000000" and "w AND 0x7E000000 \<noteq> 0x34000000"
    and "w AND 0x7E000000 \<noteq> 0x36000000" and "w AND 0x9F000000 \<noteq> 0x10000000"
    and "\<not> a64_unsupported w"
  shows "decode_a64_word a w =
      \<lparr>d_targets = [], d_pc_rel = None, d_flow = d_flow (decode_a64_word 0 w)\<rparr>"
    and "a64_new_word a w ivs ts te = None"
  using assms
  by (simp_all add: a64_decode_defs a64_new_word_def a64_ops Let_def a64_unsupported_def)

lemma a64_new_word_moves:
  assumes p: "p = (ivs, ts, te)" and ok: "plan_ok p" and al: "plan_aligned 2 p"
    and a: "in_text p a" "4 dvd unat a - unat (plan_lo p)"
    and sup: "\<not> a64_unsupported w"
    and t: "\<forall>t \<in> set (d_targets (decode_a64_word a w)). in_text p t"
  defines "w' \<equiv> (case a64_new_word a w ivs ts te of None \<Rightarrow> w | Some x \<Rightarrow> x)"
  shows "decode_a64_word (moved p a) w' = move_decoded p (decode_a64_word a w)"
proof -
  have a4: "2 ^ 2 dvd unat a - unat (plan_lo p)" and al0: "plan_aligned 0 p"
    using a(2) by (simp_all add: plan_aligned_def)
  consider (b) "w AND 0xFC000000 = 0x14000000 \<or> w AND 0xFC000000 = 0x94000000"
    | (bcond) "w AND 0xFF000010 = 0x54000000" | (cbz) "w AND 0x7E000000 = 0x34000000"
    | (tbz) "w AND 0x7E000000 = 0x36000000" | (adr) "w AND 0x9F000000 = 0x10000000"
    | (plain) "\<not> (w AND 0xFC000000 = 0x14000000 \<or> w AND 0xFC000000 = 0x94000000)"
      "w AND 0xFF000010 \<noteq> 0x54000000" "w AND 0x7E000000 \<noteq> 0x34000000"
      "w AND 0x7E000000 \<noteq> 0x36000000" "w AND 0x9F000000 \<noteq> 0x10000000"
    by blast
  then show ?thesis
  proof cases
    case b
    note r = a64_f26.rebased_map0 [OF p ok al a(1) a4 _ _ _ a64_b(2) [OF b], folded w'_def]
    have t': "in_text p (a + a64_imm26 w)" using t by (simp add: a64_b [OF b])
    have k: "w' AND 0xFC000000 = w AND 0xFC000000"
      and m: "moved p a + a64_imm26 w' = moved p (a + a64_imm26 w)"
      using r t' by simp_all
    have b': "w' AND 0xFC000000 = 0x14000000 \<or> w' AND 0xFC000000 = 0x94000000"
      using b unfolding k .
    show ?thesis by (simp add: a64_b(1) [OF b] a64_b(1) [OF b'] m k move_decoded_def)
  next
    case bcond
    note r = a64_f19.rebased_map0 [OF p ok al a(1) a4 _ _ _ a64_bcond(2) [OF bcond], folded w'_def]
    have t': "in_text p (a + a64_imm19 w)" using t by (simp add: a64_bcond [OF bcond])
    have m: "moved p a + a64_imm19 w' = moved p (a + a64_imm19 w)"
      and k: "w' AND 0xFF00001F = w AND 0xFF00001F" using r t' by simp_all
    have b': "w' AND 0xFF000010 = 0x54000000" using mask_transfer [OF k] bcond by simp
    show ?thesis by (simp add: a64_bcond(1) [OF bcond] a64_bcond(1) [OF b'] m move_decoded_def)
  next
    case cbz
    note r = a64_f19.rebased_map0 [OF p ok al a(1) a4 _ _ _ a64_cbz(2) [OF cbz], folded w'_def]
    have t': "in_text p (a + a64_imm19 w)" using t by (simp add: a64_cbz [OF cbz])
    have m: "moved p a + a64_imm19 w' = moved p (a + a64_imm19 w)"
      and k: "w' AND 0xFF00001F = w AND 0xFF00001F" using r t' by simp_all
    have b': "w' AND 0x7E000000 = 0x34000000" using mask_transfer [OF k] cbz by simp
    show ?thesis by (simp add: a64_cbz(1) [OF cbz] a64_cbz(1) [OF b'] m move_decoded_def)
  next
    case tbz
    note r = a64_f14.rebased_map0 [OF p ok al a(1) a4 _ _ _ a64_tbz(2) [OF tbz], folded w'_def]
    have t': "in_text p (a + a64_imm14 w)" using t by (simp add: a64_tbz [OF tbz])
    have m: "moved p a + a64_imm14 w' = moved p (a + a64_imm14 w)"
      and k: "w' AND 0xFFF8001F = w AND 0xFFF8001F" using r t' by simp_all
    have b': "w' AND 0x7E000000 = 0x36000000" using mask_transfer [OF k] tbz by simp
    show ?thesis by (simp add: a64_tbz(1) [OF tbz] a64_tbz(1) [OF b'] m move_decoded_def)
  next
    case adr
    note r = a64_f21.rebased_map0 [OF p ok al0 a(1) _ _ _ _ a64_adr(2) [OF adr], folded w'_def]
    have t': "in_text p (a + a64_imm21 w)" using t by (simp add: a64_adr [OF adr])
    have m: "moved p a + a64_imm21 w' = moved p (a + a64_imm21 w)"
      and k: "w' AND 0x9F00001F = w AND 0x9F00001F" using r t' by simp_all
    have b': "w' AND 0x9F000000 = 0x10000000" using mask_transfer [OF k] adr by simp
    show ?thesis by (simp add: a64_adr(1) [OF adr] a64_adr(1) [OF b'] m move_decoded_def)
  next
    case plain
    have "w' = w" using a64_plain(2) [OF plain sup] by (simp add: w'_def)
    then show ?thesis
      using a64_plain(1) [OF plain sup, of a] a64_plain(1) [OF plain sup, of "moved p a"]
      by (simp only: move_decoded_def) simp
  qed
qed


section \<open>A whole section\<close>

definition a64_supported :: "decoded_instr \<Rightarrow> bool" where
  "a64_supported i \<longleftrightarrow> \<not> a64_unsupported (from_le (raw i))"

lemma a64_instr_fields: "i_addr (a64_instr a r) = a \<and> raw (a64_instr a r) = r"
  by (simp add: a64_instr_def Let_def split: prod.split)

interpretation a64: section_patcher a64_patch_one "le_new_raw a64_new_word" a64_instr "\<lambda>_. a64_supported"
  "\<lambda>r. length r = 4" 2
proof
  show "length (le_new_raw a64_new_word i ivs ts te) = length (raw i)" for i ivs ts te
    by (rule le_new_raw_length)
  show "a64_patch_one data i ivs secs ts te = Some (splice_at data off (le_new_raw a64_new_word i ivs ts te))"
    if "vec_ok data" "stored data secs i off" for data secs i off ivs ts te
    unfolding a64_patch_one_def using that by (rule patch_le_word_new)
next
  show "i_addr (a64_instr a r) = a \<and> raw (a64_instr a r) = r" for a r
    by (simp add: a64_instr_def Let_def)
next
  fix p ivs ts te a and r :: bytes
  assume p: "p = (ivs, ts, te)" and pl: "plan_ok p" "plan_aligned 2 p" and a: "in_text p a"
    "2 ^ 2 dvd unat a - unat ts" and r: "length r = 4" and s: "a64_supported (a64_instr a r)"
    and t: "\<forall>t \<in> set (targets (a64_instr a r)). in_text p t"
  let ?i = "a64_instr a r"
  have i: "i_addr ?i = a" "raw ?i = r" "targets ?i = d_targets (decode_a64_word a (from_le r))"
    by (simp_all add: a64_instr_def Let_def)
  have "from_le (le_new_raw a64_new_word ?i ivs ts te) =
      (case a64_new_word a (from_le r) ivs ts te of None \<Rightarrow> from_le r | Some w \<Rightarrow> w)"
    using le_new_raw_word [of ?i a64_new_word] r unfolding i by blast
  then have "decode_a64_word (moved p a) (from_le (le_new_raw a64_new_word ?i ivs ts te))
      = move_decoded p (decode_a64_word a (from_le r))"
    using a64_new_word_moves [OF p pl a(1), of "from_le r"] a(2) s t
    by (simp add: i p plan_lo_def a64_supported_def)
  then show "a64_instr (moved p a) (le_new_raw a64_new_word ?i ivs ts te) = move_instr p (le_new_raw a64_new_word ?i ivs ts te) ?i"
    by (simp add: a64_instr_def move_instr_def move_decoded_def Let_def)
qed

text \<open>C22. Patching the whole of .text before compaction: every live instruction (other than ADRP
  and the literal loads) whose targets are in .text decodes, at the address it will have after
  compaction, to the same instruction with every target moved to where compaction puts it; no
  byte outside .text changes and nothing panics.\<close>

theorem a64_text_relocated:
  assumes "vec_ok data" and "mapped data secs off vaddr sz"
    and "plan_ok (ivs, vaddr, vaddr + sz)" and "plan_aligned 2 (ivs, vaddr, vaddr + sz)"
  shows "\<exists>d'. a64_patch_branches data (decode_text_aarch64 data off vaddr sz) ivs secs vaddr (vaddr + sz)
      = Some d'
    \<and> text_moved a64_instr a64_supported (decode_text_aarch64 data off vaddr sz) ivs off vaddr sz data d'"
  using a64.text_relocated [OF assms fixed4_section [OF assms(1,2) a64_instr_fields]]
  unfolding a64_patch_branches_def a64.live_patch_def decode_text_aarch64_def .

text \<open>A branch over two dead instructions.\<close>

definition ex_a64 :: bytes where
  "ex_a64 = [0x03, 0, 0, 0x14, 0x1F, 0x20, 0x03, 0xD5, 0x1F, 0x20, 0x03, 0xD5, 0xC0, 0x03, 0x5F, 0xD6]"

theorem a64_text_relocated_witness:
  "\<exists>d'. a64_patch_branches ex_a64 (decode_text_aarch64 ex_a64 0 0x1000 16) ex_dead [ex_text]
      0x1000 (0x1000 + 16) = Some d'
    \<and> targets (a64_instr 0x1000 (bytes_at d' 0 0x1000 4 0x1000)) = [0x1004]"
proof -
  let ?is = "decode_text_aarch64 ex_a64 0 0x1000 16"
  let ?i = "a64_instr 0x1000 [0x03, 0, 0, 0x14]"
  have l: "length ex_a64 = 16" by (simp add: ex_a64_def)
  have "?i \<in> set (fixed4_loop a64_instr ex_a64 0x1000 0)" by code_simp
  then have mem: "?i \<in> set ?is" by (simp only: decode_text_aarch64_def ex_section [OF l])
  have i: "i_addr ?i = 0x1000" "length (raw ?i) = 4" "targets ?i = [0x100C]" "a64_supported ?i"
    by code_simp+
  obtain d' where "a64_patch_branches ex_a64 ?is ex_dead [ex_text] 0x1000 (0x1000 + 16) = Some d'"
    and m: "text_moved a64_instr a64_supported ?is ex_dead 0 0x1000 16 ex_a64 d'"
    using a64_text_relocated [OF _ _ ex_plan(1,2)] ex_mapped [OF l] by blast
  moreover have "targets (a64_instr 0x1000 (bytes_at d' 0 0x1000 4 0x1000)) = [0x1004]"
    using text_moved_targets [OF m mem]
    by (simp only: i ex_plan list.set list.map ball_simps simp_thms)
  ultimately show ?thesis by blast
qed


section \<open>Forms that are left stale\<close>

text \<open>The decoder reports the literal of an LDR (literal) as a PC-relative reference, but the
  patcher never rewrites it: after compaction the load reads from the wrong address whenever the
  instruction and its literal move by different amounts.\<close>

theorem a64_literal_load_stale:
  assumes "w AND 0x3B000000 = 0x18000000"
    and "plan_shift (ivs, ts, te) a \<noteq> plan_shift (ivs, ts, te) (branch19_target a w)"
  shows "d_pc_rel (decode_a64_word a w) = Some (branch19_target a w)
    \<and> a64_new_word a w ivs ts te = None
    \<and> d_pc_rel (decode_a64_word (moved (ivs, ts, te) a) w)
        \<noteq> Some (moved (ivs, ts, te) (branch19_target a w))"
proof -
  have dec: "d_pc_rel (decode_a64_word b w) = Some (branch19_target b w)" for b
    using assms(1)
    by (simp add: decode_a64_word_def decode_a64_other_def decode_a64_branches_def
        decode_a64_pcrel_def add_pc_rel_def a64_ops Let_def mask_disjoint [OF assms(1)])
  have "a64_new_word a w ivs ts te = None"
    by (simp add: a64_new_word_def a64_ops Let_def mask_disjoint [OF assms(1)])
  moreover have "branch19_target (moved (ivs, ts, te) a) w \<noteq> moved (ivs, ts, te) (branch19_target a w)"
    using assms(2) by (simp add: branch19_target_def moved_def)
  ultimately show ?thesis by (simp add: dec)
qed

theorem a64_literal_load_stale_witness:
  "d_pc_rel (decode_a64_word 0x1000 0x58000060) = Some 0x100C
   \<and> a64_new_word 0x1000 0x58000060 [(0x1004, 0x1008)] 0x1000 0x1010 = None
   \<and> d_pc_rel (decode_a64_word 0x1000 0x58000060) \<noteq> Some (moved ([(0x1004, 0x1008)], 0x1000, 0x1010) 0x100C)"
proof -
  have t: "branch19_target 0x1000 0x58000060 = 0x100C" by code_simp
  have s: "plan_shift ([(0x1004, 0x1008)], 0x1000, 0x1010) 0x1000 = 0"
    "plan_shift ([(0x1004, 0x1008)], 0x1000, 0x1010) 0x100C = 4"
    by (simp_all add: plan_shift_def total_shift_def shift_at_def sat_sub_def)
  have "moved ([(0x1004, 0x1008)], 0x1000, 0x1010) 0x1000 = 0x1000"
    and "moved ([(0x1004, 0x1008)], 0x1000, 0x1010) 0x100C = 0x1008" by (simp_all add: moved_def s)
  then show ?thesis
    using a64_literal_load_stale [of "0x58000060" "[(0x1004, 0x1008)]" "0x1000" "0x1010" "0x1000"]
    by (simp add: t s)
qed

text \<open>C32. An ADRP whose page begins inside .text is relocated by the shift of the page's first
  byte. Here .text is [0x1000, 0x2800), its first 0x800 bytes are dead, and the ADRP at 0x2000
  addresses data at 0x2900, past .text in the same page, which does not move (less than a page is
  removed). The instruction moves to 0x1800, is left unchanged, and then yields page 0x1000
  instead of 0x2000.\<close>

theorem a64_adrp_text_page_stale:
  "adrp_target 0x2000 0x90000000 = 0x2000
   \<and> total_shift 0x2900 [(0x1000, 0x1800)] 0x1000 0x2800 = 0
   \<and> new_addr [(0x1000, 0x1800)] 0x2000 = 0x1800
   \<and> a64_new_word 0x2000 0x90000000 [(0x1000, 0x1800)] 0x1000 0x2800 = None
   \<and> adrp_target 0x1800 0x90000000 = 0x1000"
proof -
  have t: "adrp_target 0x2000 0x90000000 = 0x2000" "adrp_target 0x1800 0x90000000 = 0x1000" by code_simp+
  have s: "total_shift 0x2000 [(0x1000, 0x1800)] 0x1000 0x2800 = 0x800"
    by (simp add: total_shift_def shift_at_def sat_sub_def)
  have "total_shift 0x2900 [(0x1000, 0x1800)] 0x1000 0x2800 = 0"
    by (simp add: total_shift_def page_shrink_def total_dead_def PAGE_SIZE_def sat_sub_def)
  moreover have "new_addr [(0x1000, 0x1800)] 0x2000 = 0x1800"
    by (simp add: new_addr_def shift_at_def sat_sub_def)
  moreover have "(0x2000::u64) AND NOT 0xFFF = 0x2000" and "a64_imm21 0x90000000 = 0" by code_simp+
  then have "a64_new_word 0x2000 0x90000000 [(0x1000, 0x1800)] 0x1000 0x2800 = None"
    by (simp add: a64_new_word_def Let_def s)
  ultimately show ?thesis using t by simp
qed

end
