(* ===== verification/Arm32.thy ===== *)
theory Arm32
  imports Patching
begin

text \<open>
  \<open>src/arch/arm32.rs\<close> and \<open>src/arch/arm32_patch.rs\<close>: the A32 decoder (B, BL, BLX immediate, BX)
  and its branch patcher. A32 branches are relative to the instruction address plus 8.
\<close>

section \<open>Decoder\<close>

definition arm_imm24 :: "u32 \<Rightarrow> i64" where
  "arm_imm24 w = push_bit 2 (ext64 (sign_extend (w AND 0x00FFFFFF) 24))"

definition arm_blx_imm :: "u32 \<Rightarrow> i64" where
  "arm_blx_imm w =
     push_bit 2 (ext64 (sign_extend (w AND 0x00FFFFFF) 24)) OR push_bit 1 (ucast (drop_bit 24 w AND 1))"

definition decode_arm32_b_bl :: "u64 \<Rightarrow> u32 \<Rightarrow> u64 list \<times> u64 option \<times> flow_type" where
  "decode_arm32_b_bl addr w =
     (let top = drop_bit 25 w AND 0x7F; cond = drop_bit 28 w in
      if top AND 0x7 \<noteq> 0b101 \<or> cond = 0xF then ([], None, Normal)
      else let is_link = (drop_bit 24 w AND 1 = 1);
               t = addr + 8 + arm_imm24 w;
               flow = (if is_link then Call
                       else if cond = 0xE then UnconditionalBranch else ConditionalBranch)
           in ([t], None, flow))"

definition decode_arm32_word :: "u64 \<Rightarrow> u32 \<Rightarrow> u64 list \<times> u64 option \<times> flow_type" where
  "decode_arm32_word addr w =
     (if w AND 0xFE000000 = 0xFA000000 then ([addr + 8 + arm_blx_imm w], None, Call)
      else if w AND 0x0FFFFFF0 = 0x012FFF10 then
        let rm = w AND 0xF in if rm = 14 then ([], None, Return) else ([], None, IndirectBranch)
      else decode_arm32_b_bl addr w)"

definition arm_instr :: "u64 \<Rightarrow> bytes \<Rightarrow> decoded_instr" where
  "arm_instr addr r =
     (case decode_arm32_word addr (from_le r) of (ts, pc_rel, f) \<Rightarrow>
        \<lparr>i_addr = addr, raw = r, i_len = 4, targets = ts, pc_rel_target = pc_rel,
         is_call = (f = Call), flow = f\<rparr>)"

definition decode_text_arm32 :: "bytes \<Rightarrow> u64 \<Rightarrow> u64 \<Rightarrow> u64 \<Rightarrow> decoded_instr list" where
  "decode_text_arm32 data text_offset text_vaddr text_size =
     fixed4_loop arm_instr (section_bytes data text_offset text_size) text_vaddr 0"

section \<open>Patcher\<close>

definition is_padding_arm32 :: "u8 \<Rightarrow> bool" where
  "is_padding_arm32 b \<longleftrightarrow> b = 0x00"

definition arm_put_blx :: "u32 \<Rightarrow> i64 \<Rightarrow> u32" where
  "arm_put_blx w new_offset =
     (let new_h = ucast (sar new_offset 1 AND 1) :: u32;
          new_imm24 = ucast (sar new_offset 2) AND 0x00FFFFFF
      in (w AND 0xFE000000) OR push_bit 24 new_h OR new_imm24)"

definition arm_put24 :: "u32 \<Rightarrow> i64 \<Rightarrow> u32" where
  "arm_put24 w new_offset = (w AND 0xFF000000) OR (ucast (sar new_offset 2) AND 0x00FFFFFF)"

definition arm_new_word :: "u64 \<Rightarrow> u32 \<Rightarrow> ival list \<Rightarrow> u64 \<Rightarrow> u64 \<Rightarrow> u32 option" where
  "arm_new_word addr w ivs ts te =
     (if w AND 0xFE000000 = 0xFA000000 then
        map_option (\<lambda>d. arm_put_blx w (d - 8)) (rebase addr (addr + 8 + arm_blx_imm w) ivs ts te)
      else let cond = drop_bit 28 w in
        if drop_bit 25 w AND 7 = 0b101 \<and> cond \<noteq> 0xF then
          map_option (\<lambda>d. arm_put24 w (d - 8)) (rebase addr (addr + 8 + arm_imm24 w) ivs ts te)
        else None)"

definition arm_patch_one ::
  "bytes \<Rightarrow> decoded_instr \<Rightarrow> ival list \<Rightarrow> sect list \<Rightarrow> u64 \<Rightarrow> u64 \<Rightarrow> bytes option" where
  "arm_patch_one = patch_le_word arm_new_word"

definition arm_patch_branches ::
  "bytes \<Rightarrow> decoded_instr list \<Rightarrow> ival list \<Rightarrow> sect list \<Rightarrow> u64 \<Rightarrow> u64 \<Rightarrow> bytes option" where
  "arm_patch_branches data instrs ivs secs ts te =
     for_each (\<lambda>instr data.
         if in_dead_range (i_addr instr) ivs then Some data
         else arm_patch_one data instr ivs secs ts te)
       instrs data"

section \<open>The immediate fields\<close>

lemma arm_mask_lits [mask_lits]:
  "(0x00FFFFFF::u32) = mask 24" "(0xFE000000::u32) = push_bit 25 (mask 7)"
  "(0xFF000000::u32) = push_bit 24 (mask 8)"
  by (simp_all add: mask_eq_exp_minus_1)

interpretation arm_f24: bit_field arm_imm24 arm_put24 26 2 "0xFF000000" "\<lambda>i. i - 2"
proof
  show "bit (arm_imm24 w) i \<longleftrightarrow> i < 64 \<and> 2 \<le> i \<and> bit w (min i (26 - 1) - 2)" for w i
    unfolding arm_imm24_def mask_lits
    by (auto simp: bit_simps field_bits min_def not_le)
  show "bit (arm_put24 w d) (i - 2) \<longleftrightarrow> bit d i" if "2 \<le> i" "i < 26" for w d i
    using that ge_two [OF that(1)] unfolding arm_put24_def mask_lits sar_def
    by (auto simp: bit_simps)
  show "arm_put24 w d AND 0xFF000000 = w AND 0xFF000000" for w d
    unfolding arm_put24_def mask_lits by (rule bit_word_eqI) (auto simp: bit_simps)
qed auto

lemma bit_blx_h:
  "bit (push_bit 1 (ucast (drop_bit 24 (w::u32) AND 1)) :: i64) i \<longleftrightarrow> i = 1 \<and> bit w 24"
  by (auto simp only: bit_push_bit_iff bit_unsigned_iff bit_and_iff bit_drop_bit_eq bit_1_iff comp_apply
      possible_bit_word) auto

lemma one_or_two: "1 \<le> i \<Longrightarrow> i = 1 \<or> (\<exists>j. i = j + (2::nat))"
  using ge_two [of i] by fastforce

interpretation arm_blx: bit_field arm_blx_imm arm_put_blx 26 1 "0xFE000000"
  "\<lambda>i. if i = 1 then 24 else i - 2"
proof
  show "bit (arm_blx_imm w) i \<longleftrightarrow>
      i < 64 \<and> 1 \<le> i \<and> bit w (if min i (26 - 1) = 1 then 24 else min i (26 - 1) - 2)" for w i
    using one_or_two [of i] unfolding arm_blx_imm_def mask_lits bit_or_iff bit_blx_h
    by (auto simp: bit_simps field_bits min_def not_le)
  show "bit (arm_put_blx w d) (if i = 1 then 24 else i - 2) \<longleftrightarrow> bit d i" if "1 \<le> i" "i < 26" for w d i
    using that one_or_two [OF that(1)] unfolding arm_put_blx_def mask_lits sar_def Let_def
    by (auto simp: bit_simps bit_1_iff)
  show "arm_put_blx w d AND 0xFE000000 = w AND 0xFE000000" for w d
    unfolding arm_put_blx_def mask_lits Let_def by (rule bit_word_eqI) (auto simp: bit_simps bit_1_iff)
qed auto


section \<open>One instruction\<close>

lemma arm_tests:
  "drop_bit 28 (w::u32) = 15 \<longleftrightarrow> w AND 0xF0000000 = 0xF0000000"
  "drop_bit 28 (w::u32) = 14 \<longleftrightarrow> w AND 0xF0000000 = 0xE0000000"
  "drop_bit 25 (w::u32) AND 7 = 5 \<longleftrightarrow> w AND 0x0E000000 = 0x0A000000"
  "drop_bit 24 (w::u32) AND 1 = 1 \<longleftrightarrow> w AND 0x01000000 = 0x01000000"
  by (simp_all add: shifted_eq shifted_test mask_eq_exp_minus_1)

lemma arm_top: "(drop_bit 25 (w::u32) AND 0x7F) AND 7 = drop_bit 25 w AND 7"
  by (simp add: and.assoc)

lemmas arm_defs = decode_arm32_word_def decode_arm32_b_bl_def arm_new_word_def arm_tests arm_top Let_def

lemma arm_is_blx:
  assumes "w AND 0xFE000000 = 0xFA000000"
  shows "decode_arm32_word a w = ([a + 8 + arm_blx_imm w], None, Call)"
    and "arm_new_word a w ivs ts te =
      map_option (\<lambda>d. arm_put_blx w (d - 8)) (rebase a (a + 8 + arm_blx_imm w) ivs ts te)"
  using assms by (simp_all add: arm_defs)

lemma arm_is_b:
  assumes "w AND 0x0E000000 = 0x0A000000" and "w AND 0xF0000000 \<noteq> 0xF0000000"
  shows "decode_arm32_word a w = ([a + 8 + arm_imm24 w], None,
      if w AND 0x01000000 = 0x01000000 then Call
      else if w AND 0xF0000000 = 0xE0000000 then UnconditionalBranch else ConditionalBranch)"
    and "arm_new_word a w ivs ts te =
      map_option (\<lambda>d. arm_put24 w (d - 8)) (rebase a (a + 8 + arm_imm24 w) ivs ts te)"
proof -
  have "w AND 0xFE000000 \<noteq> 0xFA000000"
  proof
    assume "w AND 0xFE000000 = 0xFA000000"
    then have "(w AND 0xFE000000) AND 0xF0000000 = 0xF0000000" by simp
    then show False using assms(2) by (simp add: and.assoc)
  qed
  then show "decode_arm32_word a w = ([a + 8 + arm_imm24 w], None,
      if w AND 0x01000000 = 0x01000000 then Call
      else if w AND 0xF0000000 = 0xE0000000 then UnconditionalBranch else ConditionalBranch)"
    and "arm_new_word a w ivs ts te =
      map_option (\<lambda>d. arm_put24 w (d - 8)) (rebase a (a + 8 + arm_imm24 w) ivs ts te)"
    using assms by (simp_all add: arm_defs mask_disjoint [OF assms(1)])
qed

lemma arm_plain:
  assumes "w AND 0xFE000000 \<noteq> 0xFA000000"
    and "\<not> (w AND 0x0E000000 = 0x0A000000 \<and> w AND 0xF0000000 \<noteq> 0xF0000000)"
  shows "\<exists>f. decode_arm32_word a w = ([], None, f) \<and> decode_arm32_word a' w = ([], None, f)"
    and "arm_new_word a w ivs ts te = None"
  using assms by (auto simp: arm_defs)

lemma arm_new_word_moves:
  assumes p: "p = (ivs, ts, te)" and ok: "plan_ok p" and al: "plan_aligned 2 p"
    and a: "in_text p a" "4 dvd unat a - unat (plan_lo p)"
    and t: "\<forall>t \<in> set (fst (decode_arm32_word a w)). in_text p t"
  defines "w' \<equiv> (case arm_new_word a w ivs ts te of None \<Rightarrow> w | Some x \<Rightarrow> x)"
  shows "decode_arm32_word (moved p a) w' = move_triple p (decode_arm32_word a w)"
proof -
  have a4: "2 ^ 2 dvd unat a - unat (plan_lo p)" and al1: "plan_aligned 1 p"
    using a(2) plan_aligned_mono [OF al, of 1] by simp_all
  have a2: "2 ^ 1 dvd unat a - unat (plan_lo p)"
    by (rule dvd_trans [OF _ a(2)]) simp
  consider (blx) "w AND 0xFE000000 = 0xFA000000"
    | (b) "w AND 0x0E000000 = 0x0A000000" "w AND 0xF0000000 \<noteq> 0xF0000000"
    | (plain) "w AND 0xFE000000 \<noteq> 0xFA000000"
      "\<not> (w AND 0x0E000000 = 0x0A000000 \<and> w AND 0xF0000000 \<noteq> 0xF0000000)"
    by blast
  then show ?thesis
  proof cases
    case blx
    note r = arm_blx.rebased_map [OF p ok al1 a(1) a2 _ _ _ _ arm_is_blx(2) [OF blx], folded w'_def]
    have t': "in_text p (a + 8 + arm_blx_imm w)" using t by (simp add: arm_is_blx(1) [OF blx])
    have m: "moved p a + 8 + arm_blx_imm w' = moved p (a + 8 + arm_blx_imm w)"
      and k: "w' AND 0xFE000000 = w AND 0xFE000000" using r t' by simp_all
    have b': "w' AND 0xFE000000 = 0xFA000000" using k blx by simp
    show ?thesis by (simp add: arm_is_blx(1) [OF blx] arm_is_blx(1) [OF b'] m move_triple_def)
  next
    case b
    note r = arm_f24.rebased_map [OF p ok al a(1) a4 _ _ _ _ arm_is_b(2) [OF b], folded w'_def]
    have t': "in_text p (a + 8 + arm_imm24 w)" using t by (simp add: arm_is_b(1) [OF b])
    have m: "moved p a + 8 + arm_imm24 w' = moved p (a + 8 + arm_imm24 w)"
      and k: "w' AND 0xFF000000 = w AND 0xFF000000" using r t' by simp_all
    have k': "w' AND 0x0E000000 = w AND 0x0E000000" "w' AND 0xF0000000 = w AND 0xF0000000"
      "w' AND 0x01000000 = w AND 0x01000000"
      by (rule mask_transfer [OF k]; simp)+
    have b': "w' AND 0x0E000000 = 0x0A000000" "w' AND 0xF0000000 \<noteq> 0xF0000000"
      using b k' by simp_all
    show ?thesis by (simp add: arm_is_b(1) [OF b] arm_is_b(1) [OF b'] m move_triple_def k')
  next
    case plain
    have "w' = w" using arm_plain(2) [OF plain] by (simp add: w'_def)
    moreover obtain f where "decode_arm32_word a w = ([], None, f)"
      "decode_arm32_word (moved p a) w = ([], None, f)" using arm_plain(1) [OF plain] by blast
    ultimately show ?thesis by (simp add: move_triple_def)
  qed
qed

section \<open>A whole section\<close>

lemma arm_instr_fields: "i_addr (arm_instr a r) = a \<and> raw (arm_instr a r) = r"
  by (simp add: arm_instr_def Let_def split: prod.split)

interpretation arm: section_patcher arm_patch_one "le_new_raw arm_new_word" arm_instr "\<lambda>_ _. True"
  "\<lambda>r. length r = 4" 2
proof
  show "length (le_new_raw arm_new_word i ivs ts te) = length (raw i)" for i ivs ts te
    by (rule le_new_raw_length)
  show "arm_patch_one data i ivs secs ts te = Some (splice_at data off (le_new_raw arm_new_word i ivs ts te))"
    if "vec_ok data" "stored data secs i off" for data secs i off ivs ts te
    unfolding arm_patch_one_def using that by (rule patch_le_word_new)
next
  show "i_addr (arm_instr a r) = a \<and> raw (arm_instr a r) = r" for a r
    by (simp add: arm_instr_def split: prod.split)
next
  fix p ivs ts te a and r :: bytes
  assume p: "p = (ivs, ts, te)" and pl: "plan_ok p" "plan_aligned 2 p" and a: "in_text p a"
    "2 ^ 2 dvd unat a - unat ts" and r: "length r = 4"
    and t: "\<forall>t \<in> set (targets (arm_instr a r)). in_text p t"
  let ?i = "arm_instr a r"
  have i: "i_addr ?i = a" "raw ?i = r" "targets ?i = fst (decode_arm32_word a (from_le r))"
    by (simp_all add: arm_instr_def split: prod.split)
  have "from_le (le_new_raw arm_new_word ?i ivs ts te) =
      (case arm_new_word a (from_le r) ivs ts te of None \<Rightarrow> from_le r | Some w \<Rightarrow> w)"
    using le_new_raw_word [of ?i arm_new_word] r unfolding i by blast
  then have "decode_arm32_word (moved p a) (from_le (le_new_raw arm_new_word ?i ivs ts te))
      = move_triple p (decode_arm32_word a (from_le r))"
    using arm_new_word_moves [OF p pl a(1), of "from_le r"] a(2) t
    by (simp add: i p plan_lo_def)
  then show "arm_instr (moved p a) (le_new_raw arm_new_word ?i ivs ts te)
      = move_instr p (le_new_raw arm_new_word ?i ivs ts te) ?i"
    by (simp add: arm_instr_def move_instr_def move_triple_def split: prod.splits)
qed

text \<open>C26. The A32 counterpart: after patching .text, every live instruction whose targets are in
  .text, BLX to Thumb code included, decodes at its new address to the same instruction with its
  target moved; nothing outside .text changes and nothing panics.\<close>

theorem arm_text_relocated:
  assumes "vec_ok data" and "mapped data secs off vaddr sz"
    and "plan_ok (ivs, vaddr, vaddr + sz)" and "plan_aligned 2 (ivs, vaddr, vaddr + sz)"
  shows "\<exists>d'. arm_patch_branches data (decode_text_arm32 data off vaddr sz) ivs secs vaddr (vaddr + sz)
      = Some d'
    \<and> text_moved arm_instr (\<lambda>_. True) (decode_text_arm32 data off vaddr sz) ivs off vaddr sz data d'"
  using arm.text_relocated [OF assms fixed4_section [OF assms(1,2) arm_instr_fields]]
  unfolding arm_patch_branches_def arm.live_patch_def decode_text_arm32_def .


text \<open>A branch over two dead instructions.\<close>

definition ex_arm :: bytes where
  "ex_arm = [0x01, 0, 0, 0xEA, 0, 0, 0xA0, 0xE1, 0, 0, 0xA0, 0xE1, 0x1E, 0xFF, 0x2F, 0xE1]"

theorem arm_text_relocated_witness:
  "\<exists>d'. arm_patch_branches ex_arm (decode_text_arm32 ex_arm 0 0x1000 16) ex_dead [ex_text]
      0x1000 (0x1000 + 16) = Some d'
    \<and> targets (arm_instr 0x1000 (bytes_at d' 0 0x1000 4 0x1000)) = [0x1004]"
proof -
  let ?is = "decode_text_arm32 ex_arm 0 0x1000 16"
  let ?i = "arm_instr 0x1000 [0x01, 0, 0, 0xEA]"
  have l: "length ex_arm = 16" by (simp add: ex_arm_def)
  have "?i \<in> set (fixed4_loop arm_instr ex_arm 0x1000 0)" by code_simp
  then have mem: "?i \<in> set ?is" by (simp only: decode_text_arm32_def ex_section [OF l])
  have i: "i_addr ?i = 0x1000" "length (raw ?i) = 4" "targets ?i = [0x100C]"
    by code_simp+
  obtain d' where "arm_patch_branches ex_arm ?is ex_dead [ex_text] 0x1000 (0x1000 + 16) = Some d'"
    and m: "text_moved arm_instr (\<lambda>_. True) ?is ex_dead 0 0x1000 16 ex_arm d'"
    using arm_text_relocated [OF _ _ ex_plan(1,2)] ex_mapped [OF l] by blast
  moreover have "targets (arm_instr 0x1000 (bytes_at d' 0 0x1000 4 0x1000)) = [0x1004]"
    using text_moved_targets [OF m mem]
    by (simp only: i ex_plan list.set list.map ball_simps simp_thms)
  ultimately show ?thesis by blast
qed

end
