(* ===== verification/Mips.thy ===== *)
theory Mips
  imports Patching
begin

text \<open>
  \<open>src/arch/mips.rs\<close> and \<open>src/arch/mips_patch.rs\<close>: the MIPS decoder in both byte orders and its
  patcher. Branches are relative to the instruction address plus 4; J and JAL hold the low 28
  bits of an absolute address.
\<close>

section \<open>Decoder\<close>

definition mips_imm16 :: "u32 \<Rightarrow> i64" where
  "mips_imm16 w = push_bit 2 (scast (ucast (w AND 0xFFFF) :: u16))"

definition j_target :: "u64 \<Rightarrow> u32 \<Rightarrow> u64" where
  "j_target addr w = (addr AND 0xFFFFFFFFF0000000) OR push_bit 2 (ucast (w AND 0x03FFFFFF))"

definition branch_target :: "u64 \<Rightarrow> u32 \<Rightarrow> u64" where
  "branch_target addr w = addr + 4 + mips_imm16 w"

definition decode_special :: "u32 \<Rightarrow> u64 list \<times> flow_type" where
  "decode_special w =
     (let funct = w AND 0x3F in
      if funct = 0x08 then
        let rs = drop_bit 21 w AND 0x1F
        in if rs = 31 then ([], Return) else ([], IndirectBranch)
      else if funct = 0x09 then ([], IndirectCall)
      else if funct = 0x0C then ([], Halt)
      else if funct = 0x0D then ([], Halt)
      else ([], Normal))"

definition decode_regimm :: "u64 \<Rightarrow> u32 \<Rightarrow> u64 list \<times> flow_type" where
  "decode_regimm addr w =
     (let rt = drop_bit 16 w AND 0x1F in
      if rt = 0x00 \<or> rt = 0x01 then ([branch_target addr w], ConditionalBranch) else ([], Normal))"

definition decode_mips_word :: "u64 \<Rightarrow> u32 \<Rightarrow> u64 list \<times> flow_type" where
  "decode_mips_word addr w =
     (let op = drop_bit 26 w in
      if op = 0x02 then ([j_target addr w], UnconditionalBranch)
      else if op = 0x03 then ([j_target addr w], Call)
      else if op = 0x00 then decode_special w
      else if op = 0x01 then decode_regimm addr w
      else if op = 0x04 \<or> op = 0x05 \<or> op = 0x06 \<or> op = 0x07 then
        ([branch_target addr w], ConditionalBranch)
      else ([], Normal))"

text \<open>Reading and writing a word in the file's byte order.\<close>

definition read_word :: "bytes \<Rightarrow> bool \<Rightarrow> u32" where
  "read_word r big_endian = (if big_endian then from_be (take 4 r) else from_le (take 4 r))"

definition word_bytes :: "u32 \<Rightarrow> bool \<Rightarrow> bytes" where
  "word_bytes w big_endian = (if big_endian then to_be 4 w else to_le 4 w)"

definition mips_instr :: "bool \<Rightarrow> u64 \<Rightarrow> bytes \<Rightarrow> decoded_instr" where
  "mips_instr big_endian addr r =
     (case decode_mips_word addr (read_word r big_endian) of (ts, f) \<Rightarrow>
        \<lparr>i_addr = addr, raw = r, i_len = 4, targets = ts, pc_rel_target = None,
         is_call = (f = Call), flow = f\<rparr>)"

definition decode_text_mips :: "bytes \<Rightarrow> u64 \<Rightarrow> u64 \<Rightarrow> u64 \<Rightarrow> bool \<Rightarrow> decoded_instr list" where
  "decode_text_mips data text_offset text_vaddr text_size big_endian =
     fixed4_loop (mips_instr big_endian) (section_bytes data text_offset text_size) text_vaddr 0"

section \<open>Patcher\<close>

definition is_padding_mips :: "u8 \<Rightarrow> bool" where
  "is_padding_mips b \<longleftrightarrow> b = 0x00"

definition target_moved :: "u32 \<Rightarrow> u64 \<Rightarrow> u64 \<Rightarrow> bool" where
  "target_moved op shift_src shift_tgt \<longleftrightarrow>
     (if op = 0x02 \<or> op = 0x03 then shift_tgt \<noteq> 0 else shift_src \<noteq> shift_tgt)"

definition mips_put16 :: "u32 \<Rightarrow> i64 \<Rightarrow> u32" where
  "mips_put16 w d = (w AND 0xFFFF0000) OR (ucast (sar d 2) AND 0xFFFF)"

definition mips_put_index :: "u32 \<Rightarrow> u64 \<Rightarrow> u32" where
  "mips_put_index w new_target =
     (w AND 0xFC000000) OR ucast (drop_bit 2 new_target AND 0x03FFFFFF)"

text \<open>The word \<open>patch_one\<close> writes, by opcode.\<close>

definition mips_new_word :: "u64 \<Rightarrow> u64 \<Rightarrow> u32 \<Rightarrow> u64 \<Rightarrow> u64 \<Rightarrow> u32 option" where
  "mips_new_word addr target w shift_src shift_tgt =
     (let op = drop_bit 26 w in
      if op = 0x02 \<or> op = 0x03 then Some (mips_put_index w (target - shift_tgt))
      else if op = 0x04 \<or> op = 0x05 \<or> op = 0x06 \<or> op = 0x07 then
        Some (mips_put16 w ((target - shift_tgt) - (addr - shift_src) - 4))
      else if op = 0x01 then
        Some (mips_put16 w ((target - shift_tgt) - (addr - shift_src) - 4))
      else None)"

definition mips_patch_one ::
  "bool \<Rightarrow> bytes \<Rightarrow> decoded_instr \<Rightarrow> ival list \<Rightarrow> sect list \<Rightarrow> u64 \<Rightarrow> u64 \<Rightarrow> bytes option" where
  "mips_patch_one big_endian data instr ivs secs ts te =
     (if length (raw instr) < 4 then Some data
      else case targets instr of
        [] \<Rightarrow> Some data
      | target # _ \<Rightarrow>
          let shift_src = total_shift (i_addr instr) ivs ts te;
              shift_tgt = total_shift target ivs ts te;
              w = read_word (raw instr) big_endian
          in if \<not> target_moved (drop_bit 26 w) shift_src shift_tgt then Some data
             else case vaddr_to_offset (i_addr instr) secs of
                    None \<Rightarrow> Some data
                  | Some foff \<Rightarrow>
                      if data_len data < foff + 4 then Some data
                      else case mips_new_word (i_addr instr) target w shift_src shift_tgt of
                             None \<Rightarrow> Some data
                           | Some new_w \<Rightarrow> slice_put data foff (word_bytes new_w big_endian))"

definition mips_patch_branches ::
  "bytes \<Rightarrow> decoded_instr list \<Rightarrow> ival list \<Rightarrow> sect list \<Rightarrow> u64 \<Rightarrow> u64 \<Rightarrow> bool \<Rightarrow> bytes option" where
  "mips_patch_branches data instrs ivs secs ts te big_endian =
     for_each (\<lambda>instr data.
         if in_dead_range (i_addr instr) ivs then Some data
         else mips_patch_one big_endian data instr ivs secs ts te)
       instrs data"

section \<open>The immediate fields\<close>

lemma mips_mask_lits [mask_lits]:
  "(0xFFFF::u32) = mask 16" "(0xFFFF0000::u32) = push_bit 16 (mask 16)"
  "(0x03FFFFFF::u32) = mask 26" "(0xFC000000::u32) = push_bit 26 (mask 6)"
  "(0x03FFFFFF::u64) = mask 26" "(0xFFFFFFFFF0000000::u64) = push_bit 28 (mask 36)"
  by (simp_all add: mask_eq_exp_minus_1)

lemma top_bit16: "15 \<le> i - (2::nat) \<Longrightarrow> i \<le> 17 \<Longrightarrow> i = 17"
  by simp

interpretation mips_f16: bit_field mips_imm16 mips_put16 18 2 "0xFFFF0000" "\<lambda>i. i - 2"
proof
  show "bit (mips_imm16 w) i \<longleftrightarrow> i < 64 \<and> 2 \<le> i \<and> bit w (min i (18 - 1) - 2)" for w i
    unfolding mips_imm16_def mask_lits
    by (auto simp: bit_simps min_def not_le dest: top_bit16)
  show "bit (mips_put16 w d) (i - 2) \<longleftrightarrow> bit d i" if "2 \<le> i" "i < 18" for w d i
    using that le_Suc_ex [OF that(1)] unfolding mips_put16_def mask_lits sar_def
    by (auto simp: bit_simps)
  show "mips_put16 w d AND 0xFFFF0000 = w AND 0xFFFF0000" for w d
    unfolding mips_put16_def mask_lits by (rule bit_word_eqI) (auto simp: bit_simps)
qed auto


lemma bit_j_target:
  "bit (j_target a w) i \<longleftrightarrow> (28 \<le> i \<and> i < 64 \<and> bit a i) \<or> (2 \<le> i \<and> i < 28 \<and> bit w (i - 2))"
  unfolding j_target_def mask_lits by (auto simp: bit_simps dest: bit_imp_le_length)

definition region :: "u64 \<Rightarrow> u64" where
  "region a = a AND 0xFFFFFFFFF0000000"

lemma bit_region: "bit (region a) i \<longleftrightarrow> 28 \<le> i \<and> bit a i"
proof (cases "i < 64")
  case True
  then have "28 \<le> i \<Longrightarrow> i - 28 < 36" by simp
  then show ?thesis using True unfolding region_def mask_lits by (auto simp: bit_simps)
next
  case False
  then show ?thesis using bit_imp_le_length [of a i] bit_imp_le_length [of "region a" i] by auto
qed

lemma region_bits: "region a = region b \<Longrightarrow> 28 \<le> i \<Longrightarrow> bit a i = bit b i"
  using bit_region [of a i] bit_region [of b i] by simp

lemma j_target_same:
  assumes "region b = region (j_target a w)"
  shows "j_target b w = j_target a w"
proof (rule bit_word_eqI)
  fix i assume "i < LENGTH(64)"
  then show "bit (j_target b w) i = bit (j_target a w) i"
    using region_bits [OF assms, of i] by (auto simp: bit_j_target)
qed

lemma j_target_put:
  assumes "region b = region t" and "4 dvd unat t"
  shows "j_target b (mips_put_index w t) = t"
proof (rule bit_word_eqI)
  fix i assume i: "i < LENGTH(64)"
  have "take_bit 2 t = 0"
    using assms(2) by (simp add: word_unat_eq_iff take_bit_eq_mod unat_mod)
  then have low: "\<not> bit t j" if "j < 2" for j
    using bit_take_bit_iff [of 2 t j] that by auto
  have put: "bit (mips_put_index w t) (i - 2) = bit t i" if "2 \<le> i" "i < 28"
    using that le_Suc_ex [OF that(1)] unfolding mips_put_index_def mask_lits by (auto simp: bit_simps)
  show "bit (j_target b (mips_put_index w t)) i = bit t i"
  proof (cases "28 \<le> i")
    case True
    then show ?thesis using i region_bits [OF assms(1), of i] by (simp add: bit_j_target)
  next
    case False
    then show ?thesis using low [of i] put by (cases "2 \<le> i") (simp_all add: bit_j_target)
  qed
qed


section \<open>One instruction\<close>

text \<open>A jump is supported if .text is word-aligned and the jump and its target stay in the same
  256 MB region.\<close>

definition mips_supported :: "bool \<Rightarrow> plan \<Rightarrow> decoded_instr \<Rightarrow> bool" where
  "mips_supported be p i \<longleftrightarrow>
     (drop_bit 26 (read_word (raw i) be) \<in> {0x02, 0x03} \<longrightarrow>
        4 dvd unat (plan_lo p)
        \<and> (\<forall>t \<in> set (targets i). region (moved p (i_addr i)) = region (moved p t)))"

text \<open>What the patcher makes of a word with one target.\<close>

definition mips_edit :: "u64 \<Rightarrow> u64 \<Rightarrow> u32 \<Rightarrow> ival list \<Rightarrow> u64 \<Rightarrow> u64 \<Rightarrow> u32" where
  "mips_edit a t w ivs ts te =
     (let ss = total_shift a ivs ts te; st = total_shift t ivs ts te in
      if \<not> target_moved (drop_bit 26 w) ss st then w
      else case mips_new_word a t w ss st of None \<Rightarrow> w | Some w' \<Rightarrow> w')"

lemma mips_op_keep: "w' AND 0xFFFF0000 = w AND 0xFFFF0000 \<Longrightarrow>
    drop_bit 26 w' = drop_bit 26 (w::u32) \<and> drop_bit 16 w' AND 0x1F = drop_bit 16 w AND 0x1F"
proof -
  assume k: "w' AND 0xFFFF0000 = w AND 0xFFFF0000"
  have eq: "bit w' i = bit w i" if "16 \<le> i" for i
  proof (cases "i < 32")
    case True
    then have "i - 16 < 16" using that by simp
    then show ?thesis
      using True arg_cong [where f = "\<lambda>x. bit x i", OF k] that unfolding mask_lits by (simp add: bit_simps)
  next
    case False
    then show ?thesis using bit_imp_le_length [of w i] bit_imp_le_length [of w' i] by auto
  qed
  show ?thesis
    by (intro conjI; rule bit_word_eqI) (auto simp: bit_simps eq)
qed

lemma mips_op_index: "drop_bit 26 (mips_put_index w t) = drop_bit 26 w"
  unfolding mips_put_index_def mask_lits
  by (rule bit_word_eqI) (auto simp: bit_simps dest: bit_imp_le_length)

lemma mips_branch_decode:
  assumes "drop_bit 26 w \<in> {4, 5, 6, 7} \<or> drop_bit 26 w = 1 \<and> drop_bit 16 w AND 0x1F \<in> {0, 1}"
  shows "decode_mips_word a w = ([a + 4 + mips_imm16 w], ConditionalBranch)"
  using assms by (auto simp: decode_mips_word_def decode_regimm_def branch_target_def Let_def)

lemma mips_branch_edit:
  assumes "drop_bit 26 w \<in> {4, 5, 6, 7} \<or> drop_bit 26 w = 1"
  shows "mips_edit a t w ivs ts te =
    (case map_option (\<lambda>d. mips_put16 w (d - 4)) (rebase a t ivs ts te) of None \<Rightarrow> w | Some x \<Rightarrow> x)"
  using assms by (auto simp: mips_edit_def target_moved_def mips_new_word_def rebase_def Let_def)

lemma mips_moves:
  assumes p: "p = (ivs, ts, te)" and ok: "plan_ok p" and al: "plan_aligned 2 p"
    and a: "in_text p a" "4 dvd unat a - unat ts"
    and t: "fst (decode_mips_word a w) = [t]" "in_text p t"
    and j: "drop_bit 26 w \<in> {2, 3} \<longrightarrow> 4 dvd unat ts \<and> region (moved p a) = region (moved p t)"
  shows "decode_mips_word (moved p a) (mips_edit a t w ivs ts te) = ([moved p t], snd (decode_mips_word a w))"
proof -
  let ?w' = "mips_edit a t w ivs ts te"
  consider (jump) "drop_bit 26 w = 2 \<or> drop_bit 26 w = 3"
    | (branch) "drop_bit 26 w \<in> {4, 5, 6, 7} \<or> drop_bit 26 w = 1 \<and> drop_bit 16 w AND 0x1F \<in> {0, 1}"
    using t(1) by (auto simp: decode_mips_word_def decode_special_def decode_regimm_def Let_def
        split: if_splits)
  then show ?thesis
  proof cases
    case branch
    have a4: "2 ^ 2 dvd unat a - unat (plan_lo p)" using a(2) by (simp add: p plan_lo_def)
    have tt: "t = a + 4 + mips_imm16 w" using t(1) by (simp add: mips_branch_decode [OF branch])
    have "drop_bit 26 w \<in> {4, 5, 6, 7} \<or> drop_bit 26 w = 1" using branch by blast
    note e = mips_branch_edit [OF this, of a t ivs ts te, folded tt]
    note r = mips_f16.rebased_map [OF p ok al a(1) a4 _ _ _ _ refl, of 4 w, folded tt, folded e]
    have m: "moved p a + 4 + mips_imm16 ?w' = moved p t" using r t(2) by simp
    have k: "?w' AND 0xFFFF0000 = w AND 0xFFFF0000" using r t(2) by simp
    have "drop_bit 26 ?w' \<in> {4, 5, 6, 7} \<or> drop_bit 26 ?w' = 1 \<and> drop_bit 16 ?w' AND 0x1F \<in> {0, 1}"
      using branch mips_op_keep [OF k] by simp
    note d = mips_branch_decode [OF branch, of a] mips_branch_decode [OF this, of "moved p a"]
    show ?thesis by (simp only: d m snd_conv)
  next
    case jump
    then have tt: "t = j_target a w" using t(1) by (auto simp: decode_mips_word_def)
    have reg: "region (moved p a) = region (moved p t)" and ts4: "4 dvd unat ts" using j jump by auto
    show ?thesis
    proof (cases "total_shift t ivs ts te = 0")
      case True
      then have "moved p t = t" by (simp add: moved_def p plan_shift_def)
      moreover have "?w' = w" using True jump by (auto simp: mips_edit_def target_moved_def Let_def)
      ultimately show ?thesis
        using jump reg j_target_same [of "moved p a" a w] by (auto simp: decode_mips_word_def tt)
    next
      case False
      then have w': "?w' = mips_put_index w (moved p t)"
        using jump by (auto simp: mips_edit_def target_moved_def mips_new_word_def Let_def
            moved_def p plan_shift_def)
      have "4 dvd unat t"
      proof -
        have "take_bit 2 t = 0"
          unfolding tt by (rule bit_word_eqI) (auto simp: bit_simps bit_j_target)
        then show ?thesis by (simp add: word_unat_eq_iff take_bit_eq_mod unat_mod mod_0_imp_dvd)
      qed
      then have "2 ^ 2 dvd unat t - unat (plan_lo p)" using ts4 by (simp add: p plan_lo_def dvd_diff_nat)
      from shift_dvd [OF ok al t(2) this] have "4 dvd unat (plan_shift p t)" by simp
      moreover have "plan_lo p \<le> t" "t < plan_hi p" using t(2) by (simp_all add: in_text_def)
      ultimately have "4 dvd unat (moved p t)"
        using text_plan.unat_moved(1) [OF ok] \<open>4 dvd unat t\<close> by (simp add: moved_def dvd_diff_nat)
      then have "j_target (moved p a) (mips_put_index w (moved p t)) = moved p t"
        by (rule j_target_put [OF reg])
      then show ?thesis using jump by (auto simp: w' decode_mips_word_def mips_op_index)
    qed
  qed
qed


section \<open>A whole section\<close>

definition mips_new_raw :: "bool \<Rightarrow> decoded_instr \<Rightarrow> ival list \<Rightarrow> u64 \<Rightarrow> u64 \<Rightarrow> bytes" where
  "mips_new_raw be i ivs ts te =
     (if length (raw i) < 4 then raw i
      else case targets i of
        [] \<Rightarrow> raw i
      | t # _ \<Rightarrow>
          let w = read_word (raw i) be; ss = total_shift (i_addr i) ivs ts te;
              st = total_shift t ivs ts te
          in if \<not> target_moved (drop_bit 26 w) ss st then raw i
             else case mips_new_word (i_addr i) t w ss st of
                    None \<Rightarrow> raw i
                  | Some w' \<Rightarrow> splice_at (raw i) 0 (word_bytes w' be))"

lemma length_word_bytes [simp]: "length (word_bytes w be) = 4"
  by (simp add: word_bytes_def)

lemma read_word_bytes [simp]: "read_word (word_bytes w be) be = w"
  by (simp add: read_word_def word_bytes_def from_le_to_le from_be_to_be)

lemma mips_new_raw_length: "length (mips_new_raw be i ivs ts te) = length (raw i)"
  by (simp add: mips_new_raw_def Let_def split: option.split list.split)

lemma mips_new_raw_word:
  assumes "length (raw i) = 4"
  shows "read_word (mips_new_raw be i ivs ts te) be =
    (case targets i of [] \<Rightarrow> read_word (raw i) be
     | t # _ \<Rightarrow> mips_edit (i_addr i) t (read_word (raw i) be) ivs ts te)"
proof -
  have "splice_at (raw i) 0 (word_bytes w be) = word_bytes w be" for w
    using assms by (simp add: splice_at_def)
  then show ?thesis
    using assms by (simp add: mips_new_raw_def mips_edit_def Let_def split: option.split list.split)
qed

lemma mips_patch_new:
  assumes ok: "vec_ok data" and st: "stored data secs i off"
  shows "mips_patch_one be data i ivs secs ts te = Some (splice_at data off (mips_new_raw be i ivs ts te))"
proof -
  obtain foff where f: "vaddr_to_offset (i_addr i) secs = Some foff" "unat foff = off"
    using st by (rule stored_mapped)
  show ?thesis
  proof (cases "length (raw i) < 4")
    case True
    then show ?thesis by (simp add: mips_patch_one_def mips_new_raw_def stored_same [OF st])
  next
    case False
    then have "\<not> data_len data < foff + 4" and "\<And>w. slice_put data foff (word_bytes w be) =
        Some (splice_at data off (splice_at (raw i) 0 (word_bytes w be)))"
      using stored_check(1) [OF ok st _ f(1), of 4] stored_put [OF ok st _ f(1), of 0] by simp_all
    then show ?thesis using False
      by (simp add: mips_patch_one_def mips_new_raw_def f(1) stored_same [OF st] Let_def
          split: option.split list.split)
  qed
qed

lemma mips_targets_flow: "fst (decode_mips_word a w) = [] \<Longrightarrow> decode_mips_word a' w = decode_mips_word a w"
  by (auto simp: decode_mips_word_def decode_special_def decode_regimm_def Let_def split: if_splits)

lemma mips_one_target: "fst (decode_mips_word a w) = [] \<or> (\<exists>t. fst (decode_mips_word a w) = [t])"
  by (auto simp: decode_mips_word_def decode_special_def decode_regimm_def Let_def)

lemma mips_instr_fields: "i_addr (mips_instr be a r) = a \<and> raw (mips_instr be a r) = r"
  by (simp add: mips_instr_def Let_def split: prod.split)

interpretation mips: section_patcher "mips_patch_one be" "mips_new_raw be" "mips_instr be" "mips_supported be"
    "\<lambda>r. length r = 4" 2 for be
proof
  show "length (mips_new_raw be i ivs ts te) = length (raw i)" for i ivs ts te
    by (rule mips_new_raw_length)
  show "mips_patch_one be data i ivs secs ts te = Some (splice_at data off (mips_new_raw be i ivs ts te))"
    if "vec_ok data" "stored data secs i off" for data secs i off ivs ts te
    using that by (rule mips_patch_new)
  show "i_addr (mips_instr be a r) = a \<and> raw (mips_instr be a r) = r" for a r
    by (simp add: mips_instr_def split: prod.split)
  fix p ivs ts te a and r :: bytes
  assume p: "p = (ivs, ts, te)" and pl: "plan_ok p" "plan_aligned 2 p" and a: "in_text p a"
    "2 ^ 2 dvd unat a - unat ts" and r: "length r = 4" and s: "mips_supported be p (mips_instr be a r)"
    and t: "\<forall>t \<in> set (targets (mips_instr be a r)). in_text p t"
  let ?i = "mips_instr be a r" and ?w = "read_word r be"
  have i: "i_addr ?i = a" "raw ?i = r" "targets ?i = fst (decode_mips_word a ?w)"
    by (simp_all add: mips_instr_def split: prod.split)
  have w: "read_word (mips_new_raw be ?i ivs ts te) be = (case fst (decode_mips_word a ?w) of [] \<Rightarrow> ?w
     | t # _ \<Rightarrow> mips_edit a t ?w ivs ts te)"
    using mips_new_raw_word [of ?i be] r unfolding i by blast
  have "decode_mips_word (moved p a) (read_word (mips_new_raw be ?i ivs ts te) be) =
      (map (moved p) (fst (decode_mips_word a ?w)), snd (decode_mips_word a ?w))"
    using mips_one_target [of a ?w]
  proof (elim disjE exE)
    assume "fst (decode_mips_word a ?w) = []"
    then show ?thesis
      using mips_targets_flow [of a ?w "moved p a"] by (simp add: w prod_eq_iff)
  next
    fix tg assume tg: "fst (decode_mips_word a ?w) = [tg]"
    have "in_text p tg" using t by (simp add: i tg)
    moreover have "drop_bit 26 ?w \<in> {2, 3} \<longrightarrow> 4 dvd unat ts \<and> region (moved p a) = region (moved p tg)"
      using s by (simp add: mips_supported_def i tg p plan_lo_def)
    ultimately show ?thesis
      using mips_moves [OF p pl a(1) _ tg] a(2) by (simp add: w tg)
  qed
  then show "mips_instr be (moved p a) (mips_new_raw be ?i ivs ts te)
      = move_instr p (mips_new_raw be ?i ivs ts te) ?i"
    by (simp add: mips_instr_def move_instr_def split: prod.splits)
qed

text \<open>C24. MIPS, in either byte order: after patching .text, every live instruction whose targets are
  in .text decodes at its new address to the same instruction with its target moved, provided a
  J or JAL and its target end up in the same 256 MB region; nothing outside .text changes and
  nothing panics.\<close>

theorem mips_text_relocated:
  assumes "vec_ok data" and "mapped data secs off vaddr sz"
    and "plan_ok (ivs, vaddr, vaddr + sz)" and "plan_aligned 2 (ivs, vaddr, vaddr + sz)"
  shows "\<exists>d'. mips_patch_branches data (decode_text_mips data off vaddr sz be) ivs secs vaddr (vaddr + sz) be
      = Some d'
    \<and> text_moved (mips_instr be) (mips_supported be (ivs, vaddr, vaddr + sz))
        (decode_text_mips data off vaddr sz be) ivs off vaddr sz data d'"
  using mips.text_relocated [OF assms fixed4_section [OF assms(1,2) mips_instr_fields]]
  unfolding mips_patch_branches_def mips.live_patch_def decode_text_mips_def .

text \<open>A big-endian jump over two dead instructions.\<close>

definition ex_mips :: bytes where
  "ex_mips = [0x08, 0, 0x04, 0x03, 0, 0, 0, 0, 0, 0, 0, 0, 0x03, 0xE0, 0, 0x08]"

theorem mips_text_relocated_witness:
  "\<exists>d'. mips_patch_branches ex_mips (decode_text_mips ex_mips 0 0x1000 16 True) ex_dead [ex_text]
      0x1000 (0x1000 + 16) True = Some d'
    \<and> targets (mips_instr True 0x1000 (bytes_at d' 0 0x1000 4 0x1000)) = [0x1004]"
proof -
  let ?is = "decode_text_mips ex_mips 0 0x1000 16 True"
  let ?i = "mips_instr True 0x1000 [0x08, 0, 0x04, 0x03]"
  have l: "length ex_mips = 16" by (simp add: ex_mips_def)
  have "?i \<in> set (fixed4_loop (mips_instr True) ex_mips 0x1000 0)" by code_simp
  then have mem: "?i \<in> set ?is" by (simp only: decode_text_mips_def ex_section [OF l])
  have i: "i_addr ?i = 0x1000" "length (raw ?i) = 4" "targets ?i = [0x100C]" by code_simp+
  have m0: "moved (ex_dead, 0x1000, 0x1000 + 16) 0x1000 = 0x1000"
    using ex_plan(3) moved_text [of ex_dead "0x1000" "0x1000 + 16" "0x1000"]
    by (simp add: in_text_def plan_lo_def plan_hi_def)
  have "region 0x1000 = region 0x1004" by code_simp
  then have s: "mips_supported True (ex_dead, 0x1000, 0x1000 + 16) ?i"
    by (simp only: mips_supported_def i ex_plan m0 plan_lo_def list.set ball_simps) simp
  obtain d' where "mips_patch_branches ex_mips ?is ex_dead [ex_text] 0x1000 (0x1000 + 16) True = Some d'"
    and m: "text_moved (mips_instr True) (mips_supported True (ex_dead, 0x1000, 0x1000 + 16)) ?is
      ex_dead 0 0x1000 16 ex_mips d'"
    using mips_text_relocated [OF _ _ ex_plan(1,2)] ex_mapped [OF l] by blast
  moreover have "targets (mips_instr True 0x1000 (bytes_at d' 0 0x1000 4 0x1000)) = [0x1004]"
    using text_moved_targets [OF m mem] s
    by (simp only: i ex_plan list.set list.map ball_simps simp_thms)
  ultimately show ?thesis by blast
qed

end
