(* ===== verification/LoongArch.thy ===== *)
theory LoongArch
  imports Patching
begin

text \<open>
  \<open>src/arch/loongarch.rs\<close> and \<open>src/arch/loongarch_patch.rs\<close>: the LoongArch64 decoder and its
  patcher. The 26-bit and 21-bit branch immediates are split over the word.
\<close>

section \<open>Decoder\<close>

definition la_imm26 :: "u32 \<Rightarrow> i64" where
  "la_imm26 w =
     (let lo16 = w AND 0x03FF; hi16 = drop_bit 10 w AND 0xFFFF;
          r = push_bit 16 lo16 OR hi16
      in push_bit 2 (ext64 (sign_extend r 26)))"

definition la_imm16 :: "u32 \<Rightarrow> i64" where
  "la_imm16 w = push_bit 2 (ext64 (sign_extend (drop_bit 10 w AND 0xFFFF) 16))"

definition la_imm21 :: "u32 \<Rightarrow> i64" where
  "la_imm21 w =
     (let lo16 = drop_bit 10 w AND 0xFFFF; hi5 = w AND 0x1F;
          r = push_bit 16 hi5 OR lo16
      in push_bit 2 (ext64 (sign_extend r 21)))"

definition la_imm20 :: "u32 \<Rightarrow> i64" where
  "la_imm20 w = ext64 (sign_extend (drop_bit 5 w AND 0xFFFFF) 20)"

definition i26_target :: "u64 \<Rightarrow> u32 \<Rightarrow> u64" where
  "i26_target addr w = addr + la_imm26 w"

definition i16_target :: "u64 \<Rightarrow> u32 \<Rightarrow> u64" where
  "i16_target addr w = addr + la_imm16 w"

definition i21_target :: "u64 \<Rightarrow> u32 \<Rightarrow> u64" where
  "i21_target addr w = addr + la_imm21 w"

type_synonym la_decoded = "u64 list \<times> u64 option \<times> flow_type"

definition decode_jirl :: "u32 \<Rightarrow> la_decoded" where
  "decode_jirl w =
     (let rd = w AND 0x1F; rj = drop_bit 5 w AND 0x1F;
          f = (if rd = 0 \<and> rj = 1 then Return else if rd = 1 then IndirectCall else IndirectBranch)
      in ([], None, f))"

definition decode_la_other :: "u64 \<Rightarrow> u32 \<Rightarrow> la_decoded" where
  "decode_la_other addr w =
     (if drop_bit 25 w = 0x0E then ([], Some (addr + push_bit 12 (la_imm20 w)), Normal)
      else if drop_bit 26 w = 0x0D then ([], Some (addr + push_bit 2 (la_imm20 w)), Normal)
      else if drop_bit 25 w = 0x0D then
        ([], Some ((addr AND NOT 0xFFF) + push_bit 12 (la_imm20 w)), Normal)
      else if w = 0x002A0000 then ([], None, Halt)
      else if w AND 0xFFFF8000 = 0x002A8000 then ([], None, Halt)
      else ([], None, Normal))"

definition decode_la_word :: "u64 \<Rightarrow> u32 \<Rightarrow> la_decoded" where
  "decode_la_word addr w =
     (let op6 = drop_bit 26 w in
      if op6 = 0x14 then ([i26_target addr w], None, UnconditionalBranch)
      else if op6 = 0x15 then ([i26_target addr w], None, Call)
      else if op6 = 0x13 then decode_jirl w
      else if op6 \<in> {0x16, 0x17, 0x18, 0x19, 0x1A, 0x1B} then
        ([i16_target addr w], None, ConditionalBranch)
      else if op6 = 0x10 \<or> op6 = 0x11 then ([i21_target addr w], None, ConditionalBranch)
      else decode_la_other addr w)"

definition la_instr :: "u64 \<Rightarrow> bytes \<Rightarrow> decoded_instr" where
  "la_instr addr r =
     (case decode_la_word addr (from_le r) of (ts, pc_rel, f) \<Rightarrow>
        \<lparr>i_addr = addr, raw = r, i_len = 4, targets = ts, pc_rel_target = pc_rel,
         is_call = (f = Call), flow = f\<rparr>)"

definition decode_text_loongarch :: "bytes \<Rightarrow> u64 \<Rightarrow> u64 \<Rightarrow> u64 \<Rightarrow> decoded_instr list" where
  "decode_text_loongarch data text_offset text_vaddr text_size =
     fixed4_loop la_instr (section_bytes data text_offset text_size) text_vaddr 0"

section \<open>Patcher\<close>

definition is_padding_loongarch :: "u8 \<Rightarrow> bool" where
  "is_padding_loongarch b \<longleftrightarrow> b = 0x00"

definition la_put26 :: "u32 \<Rightarrow> i64 \<Rightarrow> u32" where
  "la_put26 w d =
     (let new_imm = ucast (sar d 2) AND 0x03FFFFFF;
          lo_part = drop_bit 16 new_imm AND 0x3FF;
          hi_part = new_imm AND 0xFFFF
      in (w AND 0xFC000000) OR (push_bit 10 hi_part AND 0x03FFFC00) OR (lo_part AND 0x3FF))"

definition la_put16 :: "u32 \<Rightarrow> i64 \<Rightarrow> u32" where
  "la_put16 w d =
     (let new_imm16 = ucast (sar d 2) AND 0xFFFF
      in (w AND 0xFC0003FF) OR (push_bit 10 new_imm16 AND 0x03FFFC00))"

definition la_put21 :: "u32 \<Rightarrow> i64 \<Rightarrow> u32" where
  "la_put21 w d =
     (let new_imm = ucast (sar d 2) AND 0x001FFFFF;
          new_lo16 = new_imm AND 0xFFFF;
          new_hi5 = drop_bit 16 new_imm AND 0x1F
      in (w AND 0xFC0003E0) OR (push_bit 10 new_lo16 AND 0x03FFFC00) OR (new_hi5 AND 0x1F))"

definition la_put20 :: "u32 \<Rightarrow> u32 \<Rightarrow> u32" where
  "la_put20 w new_imm20 = (w AND 0xFE00001F) OR (push_bit 5 new_imm20 AND 0x01FFFFE0)"

text \<open>\<open>patch_branch\<close>: the word written for a branch to \<open>target\<close>.\<close>

definition la_patch_branch :: "u64 \<Rightarrow> u64 \<Rightarrow> u32 \<Rightarrow> ival list \<Rightarrow> u64 \<Rightarrow> u64 \<Rightarrow> u32 option" where
  "la_patch_branch addr target w ivs ts te =
     (case rebase addr target ivs ts te of
        None \<Rightarrow> None
      | Some d \<Rightarrow>
          let op6 = drop_bit 26 w in
          if op6 = 0x14 \<or> op6 = 0x15 then Some (la_put26 w d)
          else if op6 \<in> {0x16, 0x17, 0x18, 0x19, 0x1A, 0x1B} then Some (la_put16 w d)
          else if op6 = 0x10 \<or> op6 = 0x11 then Some (la_put21 w d)
          else None)"

definition la_patch_pc_rel :: "u64 \<Rightarrow> u64 \<Rightarrow> u32 \<Rightarrow> ival list \<Rightarrow> u64 \<Rightarrow> u64 \<Rightarrow> u32 option" where
  "la_patch_pc_rel addr pc_target w ivs ts te =
     (let shift_src = total_shift addr ivs ts te;
          shift_tgt = total_shift pc_target ivs ts te;
          delta = shift_src - shift_tgt
      in if delta = 0 then None
         else let new_addr = addr - shift_src;
                  new_target = pc_target - shift_tgt;
                  op7 = drop_bit 25 w
              in if op7 = 0x0E \<or> op7 = 0x0D then
                   let new_offset = new_target - (new_addr AND NOT 0xFFF)
                   in Some (la_put20 w (ucast (sar new_offset 12) AND 0xFFFFF))
                 else if drop_bit 26 w = 0x0D then
                   let new_offset = new_target - new_addr
                   in Some (la_put20 w (ucast (sar new_offset 2) AND 0xFFFFF))
                 else None)"

definition la_patch_one ::
  "bytes \<Rightarrow> decoded_instr \<Rightarrow> ival list \<Rightarrow> sect list \<Rightarrow> u64 \<Rightarrow> u64 \<Rightarrow> bytes option" where
  "la_patch_one data instr ivs secs ts te =
     (if length (raw instr) < 4 then Some data
      else if targets instr = [] \<and> pc_rel_target instr = None then Some data
      else case vaddr_to_offset (i_addr instr) secs of
        None \<Rightarrow> Some data
      | Some foff \<Rightarrow>
          if data_len data < foff + 4 then Some data
          else let w = from_le (take 4 (raw instr));
                   new_w = (case targets instr of
                       target # _ \<Rightarrow> la_patch_branch (i_addr instr) target w ivs ts te
                     | [] \<Rightarrow> (case pc_rel_target instr of
                         Some t \<Rightarrow> la_patch_pc_rel (i_addr instr) t w ivs ts te
                       | None \<Rightarrow> None))
               in case new_w of
                    None \<Rightarrow> Some data
                  | Some x \<Rightarrow> slice_put data foff (to_le 4 x))"

definition la_patch_branches ::
  "bytes \<Rightarrow> decoded_instr list \<Rightarrow> ival list \<Rightarrow> sect list \<Rightarrow> u64 \<Rightarrow> u64 \<Rightarrow> bytes option" where
  "la_patch_branches data instrs ivs secs ts te =
     for_each (\<lambda>instr data.
         if in_dead_range (i_addr instr) ivs then Some data
         else la_patch_one data instr ivs secs ts te)
       instrs data"

section \<open>The immediate fields\<close>

lemma la_mask_lits [mask_lits]:
  "(0x03FF::u32) = mask 10" "(0xFFFF::u32) = mask 16" "(0x1F::u32) = mask 5"
  "(0xFFFFF::u32) = mask 20" "(0x03FFFFFF::u32) = mask 26" "(0x001FFFFF::u32) = mask 21"
  "(0xFC000000::u32) = push_bit 26 (mask 6)" "(0x03FFFC00::u32) = push_bit 10 (mask 16)"
  "(0xFC0003FF::u32) = push_bit 26 (mask 6) OR mask 10"
  "(0xFC0003E0::u32) = push_bit 26 (mask 6) OR push_bit 5 (mask 5)"
  "(0xFE00001F::u32) = push_bit 25 (mask 7) OR mask 5" "(0x01FFFFE0::u32) = push_bit 5 (mask 20)"
  by (simp_all add: mask_eq_exp_minus_1)

interpretation la_f16: bit_field la_imm16 la_put16 18 2 "0xFC0003FF" "\<lambda>i. i + 8"
proof
  show "bit (la_imm16 w) i \<longleftrightarrow> i < 64 \<and> 2 \<le> i \<and> bit w (min i (18 - 1) + 8)" for w i
    using ge_two [of i] unfolding la_imm16_def mask_lits
    by (auto simp: bit_simps field_bits min_def not_le add.commute)
  show "bit (la_put16 w d) (i + 8) \<longleftrightarrow> bit d i" if "2 \<le> i" "i < 18" for w d i
    using that ge_two [OF that(1)] unfolding la_put16_def mask_lits sar_def Let_def
    by (auto simp: bit_simps)
  show "la_put16 w d AND 0xFC0003FF = w AND 0xFC0003FF" for w d
    unfolding la_put16_def mask_lits Let_def by (rule bit_word_eqI) (auto simp: bit_simps)
qed auto

interpretation la_f26: bit_field la_imm26 la_put26 28 2 "0xFC000000" "\<lambda>i. if i < 18 then i + 8 else i - 18"
proof
  show "bit (la_imm26 w) i \<longleftrightarrow> i < 64 \<and> 2 \<le> i
      \<and> bit w (if min i (28 - 1) < 18 then min i (28 - 1) + 8 else min i (28 - 1) - 18)" for w i
    using ge_two [of i] unfolding la_imm26_def mask_lits Let_def
    by (auto simp: bit_simps field_bits min_def not_le not_less add.commute)
  show "bit (la_put26 w d) (if i < 18 then i + 8 else i - 18) \<longleftrightarrow> bit d i" if "2 \<le> i" "i < 28" for w d i
    using that ge_two [OF that(1)] unfolding la_put26_def mask_lits sar_def Let_def
    by (auto simp: bit_simps not_less)
  show "la_put26 w d AND 0xFC000000 = w AND 0xFC000000" for w d
    unfolding la_put26_def mask_lits Let_def by (rule bit_word_eqI) (auto simp: bit_simps)
qed auto

interpretation la_f21: bit_field la_imm21 la_put21 23 2 "0xFC0003E0" "\<lambda>i. if i < 18 then i + 8 else i - 18"
proof
  show "bit (la_imm21 w) i \<longleftrightarrow> i < 64 \<and> 2 \<le> i
      \<and> bit w (if min i (23 - 1) < 18 then min i (23 - 1) + 8 else min i (23 - 1) - 18)" for w i
    using ge_two [of i] unfolding la_imm21_def mask_lits Let_def
    by (auto simp: bit_simps field_bits min_def not_le not_less add.commute)
  show "bit (la_put21 w d) (if i < 18 then i + 8 else i - 18) \<longleftrightarrow> bit d i" if "2 \<le> i" "i < 23" for w d i
    using that ge_two [OF that(1)] unfolding la_put21_def mask_lits sar_def Let_def
    by (auto simp: bit_simps not_less)
  show "la_put21 w d AND 0xFC0003E0 = w AND 0xFC0003E0" for w d
    unfolding la_put21_def mask_lits Let_def by (rule bit_word_eqI) (auto simp: bit_simps)
qed auto

interpretation la_f20: bit_field "\<lambda>w. push_bit 2 (la_imm20 w)"
  "\<lambda>w d. la_put20 w (ucast (sar d 2) AND 0xFFFFF)" 22 2 "0xFE00001F" "\<lambda>i. i + 3"
proof
  show "bit (push_bit 2 (la_imm20 w)) i \<longleftrightarrow> i < 64 \<and> 2 \<le> i \<and> bit w (min i (22 - 1) + 3)" for w i
    using ge_two [of i] unfolding la_imm20_def mask_lits
    by (auto simp: bit_simps field_bits min_def not_le add.commute)
  show "bit (la_put20 w (ucast (sar d 2) AND 0xFFFFF)) (i + 3) \<longleftrightarrow> bit d i" if "2 \<le> i" "i < 22" for w d i
    using that ge_two [OF that(1)] unfolding la_put20_def mask_lits sar_def
    by (auto simp: bit_simps)
  show "la_put20 w (ucast (sar d 2) AND 0xFFFFF) AND 0xFE00001F = w AND 0xFE00001F" for w d
    unfolding la_put20_def mask_lits by (rule bit_word_eqI) (auto simp: bit_simps)
qed auto


section \<open>One instruction\<close>

text \<open>The word the patcher leaves behind.\<close>

definition la_edit :: "decoded_instr \<Rightarrow> u32 \<Rightarrow> ival list \<Rightarrow> u64 \<Rightarrow> u64 \<Rightarrow> u32 option" where
  "la_edit i w ivs ts te = (case targets i of
       t # _ \<Rightarrow> la_patch_branch (i_addr i) t w ivs ts te
     | [] \<Rightarrow> (case pc_rel_target i of
         Some t \<Rightarrow> la_patch_pc_rel (i_addr i) t w ivs ts te
       | None \<Rightarrow> None))"

definition la_result :: "u32 option \<Rightarrow> u32 \<Rightarrow> u32" where
  "la_result x w = (case x of None \<Rightarrow> w | Some w' \<Rightarrow> w')"

text \<open>The page-relative forms (PCALAU12I and PCADDU12I) are not relocated exactly.\<close>

definition la_supported :: "plan \<Rightarrow> decoded_instr \<Rightarrow> bool" where
  "la_supported p i \<longleftrightarrow> (case pc_rel_target i of
     None \<Rightarrow> True
   | Some t \<Rightarrow> drop_bit 26 (from_le (raw i) :: u32) = 0x0D \<and> in_text p t)"

lemma la_b26:
  assumes "drop_bit 26 w = 0x14 \<or> drop_bit 26 w = 0x15"
  shows "decode_la_word a w = ([a + la_imm26 w], None,
      if drop_bit 26 w = 0x14 then UnconditionalBranch else Call)"
    and "la_patch_branch a t w ivs ts te = map_option (la_put26 w) (rebase a t ivs ts te)"
  using assms by (auto simp: decode_la_word_def i26_target_def la_patch_branch_def Let_def split: option.split)

lemma la_b16:
  assumes "drop_bit 26 w \<in> {0x16, 0x17, 0x18, 0x19, 0x1A, 0x1B}"
  shows "decode_la_word a w = ([a + la_imm16 w], None, ConditionalBranch)"
    and "la_patch_branch a t w ivs ts te = map_option (la_put16 w) (rebase a t ivs ts te)"
  using assms by (auto simp: decode_la_word_def i16_target_def la_patch_branch_def Let_def split: option.split)

lemma la_b21:
  assumes "drop_bit 26 w = 0x10 \<or> drop_bit 26 w = 0x11"
  shows "decode_la_word a w = ([a + la_imm21 w], None, ConditionalBranch)"
    and "la_patch_branch a t w ivs ts te = map_option (la_put21 w) (rebase a t ivs ts te)"
  using assms by (auto simp: decode_la_word_def i21_target_def la_patch_branch_def Let_def split: option.split)

lemma la_op7:
  assumes "drop_bit 26 (w::u32) = 0x0D"
  shows "drop_bit 25 w \<noteq> 0x0E" and "drop_bit 25 w \<noteq> 0x0D"
proof -
  have e: "drop_bit 26 w = drop_bit 1 (drop_bit 25 w)" by (simp only: drop_bit_drop_bit) simp
  show "drop_bit 25 w \<noteq> 0x0E"
  proof
    assume h: "drop_bit 25 w = 0x0E"
    show False using e assms unfolding h by simp
  qed
  show "drop_bit 25 w \<noteq> 0x0D"
  proof
    assume h: "drop_bit 25 w = 0x0D"
    show False using e assms unfolding h by simp
  qed
qed

lemma la_pc18:
  assumes "drop_bit 26 w = 0x0D"
  shows "decode_la_word a w = ([], Some (a + push_bit 2 (la_imm20 w)), Normal)"
    and "la_patch_pc_rel a t w ivs ts te =
      map_option (\<lambda>d. la_put20 w (ucast (sar d 2) AND 0xFFFFF)) (rebase a t ivs ts te)"
  using assms la_op7 [OF assms]
  by (simp_all add: decode_la_word_def decode_la_other_def la_patch_pc_rel_def rebase_def Let_def)

lemma la_plain:
  assumes "drop_bit 26 w \<notin> {0x14, 0x15, 0x16, 0x17, 0x18, 0x19, 0x1A, 0x1B, 0x10, 0x11, 0x0D}"
    and "fst (snd (decode_la_word a w)) = None"
  shows "\<exists>f. decode_la_word a w = ([], None, f) \<and> decode_la_word b w = ([], None, f)"
  using assms by (auto simp: decode_la_word_def decode_jirl_def decode_la_other_def Let_def split: if_splits)

lemma la_moves:
  assumes p: "p = (ivs, ts, te)" and ok: "plan_ok p" and al: "plan_aligned 2 p"
    and a: "in_text p a" "2 ^ 2 dvd unat a - unat ts" and r: "length r = 4"
    and s: "la_supported p (la_instr a r)"
    and t: "\<forall>t \<in> set (targets (la_instr a r)). in_text p t"
  shows "decode_la_word (moved p a) (la_result (la_edit (la_instr a r) (from_le r) ivs ts te) (from_le r))
    = move_triple p (decode_la_word a (from_le r))"
proof -
  let ?w = "from_le r :: u32"
  let ?w' = "la_result (la_edit (la_instr a r) ?w ivs ts te) ?w"
  have a4: "2 ^ 2 dvd unat a - unat (plan_lo p)" using a(2) by (simp add: p plan_lo_def)
  have i: "i_addr (la_instr a r) = a" "raw (la_instr a r) = r"
    "targets (la_instr a r) = fst (decode_la_word a ?w)"
    "pc_rel_target (la_instr a r) = fst (snd (decode_la_word a ?w))"
    by (simp_all add: la_instr_def split: prod.split)
  have op: "drop_bit 26 w' = drop_bit 26 ?w" if "w' AND k = ?w AND k" "drop_bit 26 k = drop_bit 26 (- 1 :: u32)"
    for w' k using drop_keep [OF that] .
  consider (b26) "drop_bit 26 ?w = 0x14 \<or> drop_bit 26 ?w = 0x15"
    | (b16) "drop_bit 26 ?w \<in> {0x16, 0x17, 0x18, 0x19, 0x1A, 0x1B}"
    | (b21) "drop_bit 26 ?w = 0x10 \<or> drop_bit 26 ?w = 0x11" | (pc) "drop_bit 26 ?w = 0x0D"
    | (plain) "drop_bit 26 ?w \<notin> {0x14, 0x15, 0x16, 0x17, 0x18, 0x19, 0x1A, 0x1B, 0x10, 0x11, 0x0D}"
    by auto
  then show ?thesis
  proof cases
    case b26
    have w': "?w' = (case map_option (la_put26 ?w) (rebase a (a + la_imm26 ?w) ivs ts te) of
        None \<Rightarrow> ?w | Some x \<Rightarrow> x)"
      by (simp add: la_result_def la_edit_def i la_b26 [OF b26])
    have t': "in_text p (a + la_imm26 ?w)" using t by (simp add: i la_b26(1) [OF b26])
    note r = la_f26.rebased_map0 [OF p ok al a(1) a4 _ _ t' refl, folded w']
    have m: "moved p a + la_imm26 ?w' = moved p (a + la_imm26 ?w)" and k: "drop_bit 26 ?w' = drop_bit 26 ?w"
      using r(1) op [OF r(2)] by (simp_all add: mask_eq_exp_minus_1)
    have b': "drop_bit 26 ?w' = 0x14 \<or> drop_bit 26 ?w' = 0x15" using b26 unfolding k .
    show ?thesis unfolding la_b26(1) [OF b26] la_b26(1) [OF b'] by (simp add: move_triple_def m k)
  next
    case b16
    have w': "?w' = (case map_option (la_put16 ?w) (rebase a (a + la_imm16 ?w) ivs ts te) of
        None \<Rightarrow> ?w | Some x \<Rightarrow> x)"
      by (simp add: la_result_def la_edit_def i la_b16 [OF b16])
    have t': "in_text p (a + la_imm16 ?w)" using t by (simp add: i la_b16(1) [OF b16])
    note r = la_f16.rebased_map0 [OF p ok al a(1) a4 _ _ t' refl, folded w']
    have m: "moved p a + la_imm16 ?w' = moved p (a + la_imm16 ?w)" and k: "drop_bit 26 ?w' = drop_bit 26 ?w"
      using r(1) op [OF r(2)] by (simp_all add: mask_eq_exp_minus_1)
    have b': "drop_bit 26 ?w' \<in> {0x16, 0x17, 0x18, 0x19, 0x1A, 0x1B}" using b16 unfolding k .
    show ?thesis unfolding la_b16(1) [OF b16] la_b16(1) [OF b'] by (simp add: move_triple_def m)
  next
    case b21
    have w': "?w' = (case map_option (la_put21 ?w) (rebase a (a + la_imm21 ?w) ivs ts te) of
        None \<Rightarrow> ?w | Some x \<Rightarrow> x)"
      by (simp add: la_result_def la_edit_def i la_b21 [OF b21])
    have t': "in_text p (a + la_imm21 ?w)" using t by (simp add: i la_b21(1) [OF b21])
    note r = la_f21.rebased_map0 [OF p ok al a(1) a4 _ _ t' refl, folded w']
    have m: "moved p a + la_imm21 ?w' = moved p (a + la_imm21 ?w)" and k: "drop_bit 26 ?w' = drop_bit 26 ?w"
      using r(1) op [OF r(2)] by (simp_all add: mask_eq_exp_minus_1)
    have b': "drop_bit 26 ?w' = 0x10 \<or> drop_bit 26 ?w' = 0x11" using b21 unfolding k .
    show ?thesis unfolding la_b21(1) [OF b21] la_b21(1) [OF b'] by (simp add: move_triple_def m)
  next
    case pc
    have w': "?w' = (case map_option (\<lambda>d. la_put20 ?w (ucast (sar d 2) AND 0xFFFFF))
        (rebase a (a + push_bit 2 (la_imm20 ?w)) ivs ts te) of None \<Rightarrow> ?w | Some x \<Rightarrow> x)"
      by (simp add: la_result_def la_edit_def i la_pc18 [OF pc])
    have t': "in_text p (a + push_bit 2 (la_imm20 ?w))"
      using s by (simp add: la_supported_def i la_pc18(1) [OF pc])
    note r = la_f20.rebased_map0 [OF p ok al a(1) a4 _ _ t' refl, folded w']
    have m: "moved p a + push_bit 2 (la_imm20 ?w') = moved p (a + push_bit 2 (la_imm20 ?w))"
      and k: "drop_bit 26 ?w' = drop_bit 26 ?w"
      using r(1) op [OF r(2)] by (simp_all add: mask_eq_exp_minus_1)
    have b': "drop_bit 26 ?w' = 0x0D" using pc unfolding k .
    show ?thesis unfolding la_pc18(1) [OF pc] la_pc18(1) [OF b'] by (simp add: move_triple_def m)
  next
    case plain
    then have n: "fst (snd (decode_la_word a ?w)) = None"
      using s by (auto simp: la_supported_def i split: option.splits)
    obtain f where f: "decode_la_word a ?w = ([], None, f)" "decode_la_word (moved p a) ?w = ([], None, f)"
      using la_plain [OF plain n] by blast
    then have "?w' = ?w" by (simp add: la_result_def la_edit_def i)
    then show ?thesis using f by (simp add: move_triple_def)
  qed
qed


section \<open>A whole section\<close>

definition la_new_raw :: "decoded_instr \<Rightarrow> ival list \<Rightarrow> u64 \<Rightarrow> u64 \<Rightarrow> bytes" where
  "la_new_raw i ivs ts te =
     (if length (raw i) < 4 then raw i
      else case la_edit i (from_le (take 4 (raw i))) ivs ts te of
             None \<Rightarrow> raw i
           | Some w \<Rightarrow> splice_at (raw i) 0 (to_le 4 w))"

lemma la_new_raw_word:
  assumes "length (raw i) = 4"
  shows "from_le (la_new_raw i ivs ts te) = la_result (la_edit i (from_le (raw i)) ivs ts te) (from_le (raw i))"
proof -
  have "splice_at (raw i) 0 (to_le 4 w) = to_le 4 w" for w :: u32
    using assms by (simp add: splice_at_def)
  then show ?thesis using assms by (simp add: la_new_raw_def la_result_def from_le_to_le split: option.split)
qed

lemma la_patch_new:
  assumes ok: "vec_ok data" and st: "stored data secs i off"
  shows "la_patch_one data i ivs secs ts te = Some (splice_at data off (la_new_raw i ivs ts te))"
proof -
  obtain foff where f: "vaddr_to_offset (i_addr i) secs = Some foff" "unat foff = off"
    using st by (rule stored_mapped)
  show ?thesis
  proof (cases "length (raw i) < 4")
    case True
    then show ?thesis by (simp add: la_patch_one_def la_new_raw_def stored_same [OF st])
  next
    case False
    then have "\<not> data_len data < foff + 4" and "\<And>w. slice_put data foff (to_le 4 (w::u32)) =
        Some (splice_at data off (splice_at (raw i) 0 (to_le 4 w)))"
      using stored_check(1) [OF ok st _ f(1), of 4] stored_put [OF ok st _ f(1), of 0] by simp_all
    then show ?thesis using False
      by (cases "targets i = [] \<and> pc_rel_target i = None")
        (simp_all add: la_patch_one_def la_new_raw_def la_edit_def f(1) stored_same [OF st] Let_def
          split: option.split)
  qed
qed

lemma la_instr_fields: "i_addr (la_instr a r) = a \<and> raw (la_instr a r) = r"
  by (simp add: la_instr_def Let_def split: prod.split)

interpretation la: section_patcher la_patch_one la_new_raw la_instr la_supported
  "\<lambda>r. length r = 4" 2
proof
  show "length (la_new_raw i ivs ts te) = length (raw i)" for i ivs ts te
    by (simp add: la_new_raw_def split: option.split)
  show "la_patch_one data i ivs secs ts te = Some (splice_at data off (la_new_raw i ivs ts te))"
    if "vec_ok data" "stored data secs i off" for data secs i off ivs ts te
    using that by (rule la_patch_new)
  show "i_addr (la_instr a r) = a \<and> raw (la_instr a r) = r" for a r
    by (simp add: la_instr_def split: prod.split)
  fix p ivs ts te a and r :: bytes
  assume p: "p = (ivs, ts, te)" and pl: "plan_ok p" "plan_aligned 2 p" and a: "in_text p a"
    "2 ^ 2 dvd unat a - unat ts" and r: "length r = 4" and s: "la_supported p (la_instr a r)"
    and t: "\<forall>t \<in> set (targets (la_instr a r)). in_text p t"
  let ?i = "la_instr a r"
  have i: "i_addr ?i = a" "raw ?i = r" by (simp_all add: la_instr_def split: prod.split)
  have "from_le (la_new_raw ?i ivs ts te) = la_result (la_edit ?i (from_le r) ivs ts te) (from_le r)"
    using la_new_raw_word [of ?i] r unfolding i by blast
  then have "decode_la_word (moved p a) (from_le (la_new_raw ?i ivs ts te))
      = move_triple p (decode_la_word a (from_le r))"
    using la_moves [OF p pl a(1) _ r s t] a(2) by simp
  then show "la_instr (moved p a) (la_new_raw ?i ivs ts te) = move_instr p (la_new_raw ?i ivs ts te) ?i"
    by (simp add: la_instr_def move_instr_def move_triple_def split: prod.splits)
qed

text \<open>C25. LoongArch64: after patching .text, every live branch with its targets in .text decodes at
  its new address to the same branch with its target moved (for all three immediate layouts);
  nothing outside .text changes and nothing panics.\<close>

theorem la_text_relocated:
  assumes "vec_ok data" and "mapped data secs off vaddr sz"
    and "plan_ok (ivs, vaddr, vaddr + sz)" and "plan_aligned 2 (ivs, vaddr, vaddr + sz)"
  shows "\<exists>d'. la_patch_branches data (decode_text_loongarch data off vaddr sz) ivs secs vaddr (vaddr + sz)
      = Some d'
    \<and> text_moved la_instr (la_supported (ivs, vaddr, vaddr + sz)) (decode_text_loongarch data off vaddr sz)
        ivs off vaddr sz data d'"
  using la.text_relocated [OF assms fixed4_section [OF assms(1,2) la_instr_fields]]
  unfolding la_patch_branches_def la.live_patch_def decode_text_loongarch_def .

text \<open>A conditional branch (BEQZ, split 21-bit immediate) over two dead instructions.\<close>

definition ex_la :: bytes where
  "ex_la = [0x80, 0x0C, 0, 0x40, 0, 0, 0x40, 0x03, 0, 0, 0x40, 0x03, 0x20, 0, 0, 0x4C]"

theorem la_text_relocated_witness:
  "\<exists>d'. la_patch_branches ex_la (decode_text_loongarch ex_la 0 0x1000 16) ex_dead [ex_text]
      0x1000 (0x1000 + 16) = Some d'
    \<and> targets (la_instr 0x1000 (bytes_at d' 0 0x1000 4 0x1000)) = [0x1004]"
proof -
  let ?is = "decode_text_loongarch ex_la 0 0x1000 16"
  let ?i = "la_instr 0x1000 [0x80, 0x0C, 0, 0x40]"
  have l: "length ex_la = 16" by (simp add: ex_la_def)
  have "?i \<in> set (fixed4_loop la_instr ex_la 0x1000 0)" by code_simp
  then have mem: "?i \<in> set ?is" by (simp only: decode_text_loongarch_def ex_section [OF l])
  have i: "i_addr ?i = 0x1000" "length (raw ?i) = 4" "targets ?i = [0x100C]" "pc_rel_target ?i = None"
    by code_simp+
  have s: "la_supported (ex_dead, 0x1000, 0x1000 + 16) ?i" by (simp only: la_supported_def i option.case)
  obtain d' where "la_patch_branches ex_la ?is ex_dead [ex_text] 0x1000 (0x1000 + 16) = Some d'"
    and m: "text_moved la_instr (la_supported (ex_dead, 0x1000, 0x1000 + 16)) ?is ex_dead 0 0x1000 16 ex_la d'"
    using la_text_relocated [OF _ _ ex_plan(1,2)] ex_mapped [OF l] by blast
  moreover have "targets (la_instr 0x1000 (bytes_at d' 0 0x1000 4 0x1000)) = [0x1004]"
    using text_moved_targets [OF m mem] s
    by (simp only: i ex_plan list.set list.map ball_simps simp_thms)
  ultimately show ?thesis by blast
qed

section \<open>A form that cannot follow\<close>

text \<open>PCADDU12I adds a multiple of 4096 to its own address, but is relocated alone, without the
  low part in its companion instruction: whenever instruction and target move apart by an amount
  that is not a multiple of 4096, the patched instruction does not address the moved target.\<close>

theorem la_pcaddu12i_stale:
  assumes "drop_bit 25 w = 0x0E" and "drop_bit 26 w = 0x07"
    and "take_bit 12 (plan_shift (ivs, ts, te) a - plan_shift (ivs, ts, te) (a + push_bit 12 (la_imm20 w))) \<noteq> 0"
  shows "fst (snd (decode_la_word a w)) = Some (a + push_bit 12 (la_imm20 w))
    \<and> (\<exists>w'. la_patch_pc_rel a (a + push_bit 12 (la_imm20 w)) w ivs ts te = Some w'
        \<and> fst (snd (decode_la_word (moved (ivs, ts, te) a) w'))
          \<noteq> Some (moved (ivs, ts, te) (a + push_bit 12 (la_imm20 w))))"
proof -
  let ?p = "(ivs, ts, te)" and ?t = "a + push_bit 12 (la_imm20 w)"
  let ?n = "la_put20 w (ucast (sar ((?t - plan_shift ?p ?t) - ((a - plan_shift ?p a) AND NOT 0xFFF)) 12) AND 0xFFFFF)"
  have "plan_shift ?p a \<noteq> plan_shift ?p ?t" using assms(3) by auto
  then have n: "la_patch_pc_rel a ?t w ivs ts te = Some ?n"
    using assms(1) by (simp add: la_patch_pc_rel_def Let_def plan_shift_def)
  have k: "?n AND 0xFE00001F = w AND 0xFE00001F"
    unfolding la_put20_def mask_lits by (rule bit_word_eqI) (auto simp: bit_simps)
  have "drop_bit 25 ?n = drop_bit 25 w" and "drop_bit 26 ?n = drop_bit 26 w"
    by (rule drop_keep [OF k]; simp add: mask_eq_exp_minus_1)+
  then have dec: "fst (snd (decode_la_word b ?n)) = Some (b + push_bit 12 (la_imm20 ?n))"
    "fst (snd (decode_la_word b w)) = Some (b + push_bit 12 (la_imm20 w))" for b
    using assms(1,2) by (simp_all add: decode_la_word_def decode_la_other_def)
  have "moved ?p a + push_bit 12 (la_imm20 ?n) \<noteq> moved ?p ?t"
  proof
    assume "moved ?p a + push_bit 12 (la_imm20 ?n) = moved ?p ?t"
    then have "plan_shift ?p a - plan_shift ?p ?t = push_bit 12 (la_imm20 ?n) - push_bit 12 (la_imm20 w)"
      by (simp add: moved_def algebra_simps)
    also have "\<dots> = push_bit 12 (la_imm20 ?n - la_imm20 w)"
      by (simp add: push_bit_eq_mult right_diff_distrib)
    finally have "plan_shift ?p a - plan_shift ?p ?t = push_bit 12 (la_imm20 ?n - la_imm20 w)" .
    then have "take_bit 12 (plan_shift ?p a - plan_shift ?p ?t) = 0"
      by (simp only:) (rule bit_word_eqI, auto simp: bit_simps)
    then show False using assms(3) by simp
  qed
  then show ?thesis using n dec by auto
qed

theorem la_pcaddu12i_stale_witness:
  "\<exists>w'. la_patch_pc_rel 0x1000 0x2000 0x1C000020 [(0x1004, 0x1008)] 0x1000 0x4000 = Some w'
     \<and> fst (snd (decode_la_word (moved ([(0x1004, 0x1008)], 0x1000, 0x4000) 0x1000) w'))
       \<noteq> Some (moved ([(0x1004, 0x1008)], 0x1000, 0x4000) 0x2000)"
proof -
  let ?p = "([(0x1004, 0x1008)], 0x1000, 0x4000)"
  have t: "(0x1000 :: u64) + push_bit 12 (la_imm20 0x1C000020) = 0x2000" by code_simp
  have "take_bit 12 (plan_shift ?p 0x1000 - plan_shift ?p 0x2000) \<noteq> 0"
    by (simp add: plan_shift_def total_shift_def shift_at_def sat_sub_def take_bit_eq_mask mask_eq_exp_minus_1)
  moreover have "drop_bit 25 (0x1C000020 :: u32) = 0x0E" "drop_bit 26 (0x1C000020 :: u32) = 0x07" by code_simp+
  ultimately show ?thesis
    using la_pcaddu12i_stale [of "0x1C000020" "[(0x1004, 0x1008)]" "0x1000" "0x4000" "0x1000"] unfolding t by blast
qed

end
