(* ===== verification/S390x.thy ===== *)
theory S390x
  imports Patching
begin

text \<open>
  \<open>src/arch/s390x.rs\<close> and \<open>src/arch/s390x_patch.rs\<close>: the variable-length, big-endian
  z/Architecture decoder and its patcher of halfword-relative branch offsets.
\<close>

section \<open>Decoder\<close>

definition instr_len :: "u8 \<Rightarrow> nat" where
  "instr_len first_byte =
     (let x = drop_bit 6 first_byte in if x = 0 then 2 else if x = 1 \<or> x = 2 then 4 else 6)"

definition hi_nibble :: "u8 \<Rightarrow> u8" where
  "hi_nibble b = drop_bit 4 b AND 0x0F"

definition decode_bcr :: "bytes \<Rightarrow> u64 list \<times> flow_type" where
  "decode_bcr r =
     (let m = hi_nibble (r ! 1); r2 = r ! 1 AND 0x0F in
      if m = 0 then ([], Normal)
      else if m = 15 then if r2 = 14 then ([], Return) else ([], IndirectBranch)
      else ([], ConditionalBranch))"

definition decode_basr :: "bytes \<Rightarrow> u64 list \<times> flow_type" where
  "decode_basr r = (if r ! 1 AND 0x0F = 0 then ([], Normal) else ([], IndirectCall))"

definition decode_2byte :: "bytes \<Rightarrow> u64 list \<times> flow_type" where
  "decode_2byte r =
     (if r ! 0 = 0x07 then decode_bcr r else if r ! 0 = 0x0D then decode_basr r else ([], Normal))"

text \<open>A signed halfword count, in bytes.\<close>

definition halfwords :: "'a::len word \<Rightarrow> i64" where
  "halfwords imm = scast imm * 2"

definition imm16_at :: "bytes \<Rightarrow> u16" where
  "imm16_at r = from_be (take 2 (drop 2 r))"

definition imm32_at :: "bytes \<Rightarrow> u32" where
  "imm32_at r = from_be (take 4 (drop 2 r))"

text \<open>The conditional forms: mask 15 is an unconditional branch, mask 0 no branch at all.\<close>

definition masked_branch :: "u8 \<Rightarrow> u64 \<Rightarrow> u64 list \<times> flow_type" where
  "masked_branch m target =
     (if m = 15 then ([target], UnconditionalBranch)
      else if m = 0 then ([], Normal)
      else ([target], ConditionalBranch))"

definition decode_brc :: "u64 \<Rightarrow> bytes \<Rightarrow> u64 list \<times> flow_type" where
  "decode_brc addr r = masked_branch (hi_nibble (r ! 1)) (addr + halfwords (imm16_at r))"

definition decode_bras :: "u64 \<Rightarrow> bytes \<Rightarrow> u64 list \<times> flow_type" where
  "decode_bras addr r = ([addr + halfwords (imm16_at r)], Call)"

definition decode_4byte :: "u64 \<Rightarrow> bytes \<Rightarrow> u64 list \<times> flow_type" where
  "decode_4byte addr r =
     (if r ! 0 = 0xA7 then
        let op4 = r ! 1 AND 0x0F in
        if op4 = 0x04 then decode_brc addr r else if op4 = 0x05 then decode_bras addr r
        else ([], Normal)
      else ([], Normal))"

definition decode_brcl :: "u64 \<Rightarrow> bytes \<Rightarrow> u64 list \<times> flow_type" where
  "decode_brcl addr r = masked_branch (hi_nibble (r ! 1)) (addr + halfwords (imm32_at r))"

definition decode_brasl :: "u64 \<Rightarrow> bytes \<Rightarrow> u64 list \<times> flow_type" where
  "decode_brasl addr r = ([addr + halfwords (imm32_at r)], Call)"

definition decode_6byte :: "u64 \<Rightarrow> bytes \<Rightarrow> u64 list \<times> flow_type" where
  "decode_6byte addr r =
     (if r ! 0 = 0xC0 then
        let op4 = r ! 1 AND 0x0F in
        if op4 = 0x04 then decode_brcl addr r else if op4 = 0x05 then decode_brasl addr r
        else ([], Normal)
      else ([], Normal))"

definition decode_s390x_instr :: "u64 \<Rightarrow> bytes \<Rightarrow> u64 list \<times> flow_type" where
  "decode_s390x_instr addr r =
     (if length r = 2 then decode_2byte r
      else if length r = 4 then decode_4byte addr r
      else if length r = 6 then decode_6byte addr r
      else ([], Normal))"

definition s390x_instr :: "u64 \<Rightarrow> bytes \<Rightarrow> decoded_instr" where
  "s390x_instr addr r =
     (case decode_s390x_instr addr r of (ts, f) \<Rightarrow>
        \<lparr>i_addr = addr, raw = r, i_len = length r, targets = ts, pc_rel_target = None,
         is_call = (f = Call), flow = f\<rparr>)"

definition s390x_len_at :: "bytes \<Rightarrow> nat \<Rightarrow> nat option" where
  "s390x_len_at sl offset =
     (if offset < length sl then
        let ilen = instr_len (sl ! offset)
        in if length sl < offset + ilen then None else Some ilen
      else None)"

definition decode_text_s390x :: "bytes \<Rightarrow> u64 \<Rightarrow> u64 \<Rightarrow> u64 \<Rightarrow> decoded_instr list" where
  "decode_text_s390x data text_offset text_vaddr text_size =
     decode_loop s390x_len_at s390x_instr (section_bytes data text_offset text_size) text_vaddr 0"

section \<open>Patcher\<close>

definition is_padding_s390x :: "u8 \<Rightarrow> bool" where
  "is_padding_s390x b \<longleftrightarrow> b = 0x00"

definition s390x_put :: "'a::len word \<Rightarrow> i64 \<Rightarrow> 'a word" where
  "s390x_put imm d = ucast (tdiv d 2)"

definition patch_4byte ::
  "bytes \<Rightarrow> usize \<Rightarrow> bytes \<Rightarrow> u64 \<Rightarrow> u64 \<Rightarrow> u64 \<Rightarrow> u64 \<Rightarrow> bytes option" where
  "patch_4byte data foff r addr target shift_src shift_tgt =
     (if r ! 0 \<noteq> 0xA7 then Some data
      else let op4 = r ! 1 AND 0x0F in
        if op4 \<noteq> 0x04 \<and> op4 \<noteq> 0x05 then Some data
        else if data_len data < foff + 4 then Some data
        else let new_addr = addr - shift_src; new_target = target - shift_tgt;
                 new_imm16 = s390x_put (imm16_at r) (new_target - new_addr)
             in slice_put data (foff + 2) (to_be 2 new_imm16))"

definition patch_6byte ::
  "bytes \<Rightarrow> usize \<Rightarrow> bytes \<Rightarrow> u64 \<Rightarrow> u64 \<Rightarrow> u64 \<Rightarrow> u64 \<Rightarrow> bytes option" where
  "patch_6byte data foff r addr target shift_src shift_tgt =
     (if r ! 0 \<noteq> 0xC0 then Some data
      else let op4 = r ! 1 AND 0x0F in
        if op4 \<noteq> 0x04 \<and> op4 \<noteq> 0x05 then Some data
        else if data_len data < foff + 6 then Some data
        else let new_addr = addr - shift_src; new_target = target - shift_tgt;
                 new_imm32 = s390x_put (imm32_at r) (new_target - new_addr)
             in slice_put data (foff + 2) (to_be 4 new_imm32))"

definition s390x_patch_one ::
  "bytes \<Rightarrow> decoded_instr \<Rightarrow> ival list \<Rightarrow> sect list \<Rightarrow> u64 \<Rightarrow> u64 \<Rightarrow> bytes option" where
  "s390x_patch_one data instr ivs secs ts te =
     (case targets instr of
        [] \<Rightarrow> Some data
      | target # _ \<Rightarrow>
          let shift_src = total_shift (i_addr instr) ivs ts te;
              shift_tgt = total_shift target ivs ts te;
              delta = shift_src - shift_tgt
          in if delta = 0 then Some data
             else case vaddr_to_offset (i_addr instr) secs of
                    None \<Rightarrow> Some data
                  | Some foff \<Rightarrow>
                      if length (raw instr) = 4 then
                        patch_4byte data foff (raw instr) (i_addr instr) target shift_src shift_tgt
                      else if length (raw instr) = 6 then
                        patch_6byte data foff (raw instr) (i_addr instr) target shift_src shift_tgt
                      else Some data)"

definition s390x_patch_branches ::
  "bytes \<Rightarrow> decoded_instr list \<Rightarrow> ival list \<Rightarrow> sect list \<Rightarrow> u64 \<Rightarrow> u64 \<Rightarrow> bytes option" where
  "s390x_patch_branches data instrs ivs secs ts te =
     for_each (\<lambda>instr data.
         if in_dead_range (i_addr instr) ivs then Some data
         else s390x_patch_one data instr ivs secs ts te)
       instrs data"

section \<open>The immediate fields\<close>

lemma halfwords_bits: "halfwords imm = push_bit 1 (scast imm)"
  by (simp add: halfwords_def)

lemma tdiv_even: "2 dvd sint d \<Longrightarrow> tdiv d 2 = sar d 1"
proof -
  assume ev: "2 dvd sint d"
  have "sgn (sint d) * (\<bar>sint d\<bar> div 2) = sint d div 2"
    using ev by (auto simp: sgn_if abs_if elim!: dvdE)
  then have "tdiv d 2 = word_of_int (sint d div 2)" by (simp add: tdiv_def)
  also have "\<dots> = word_of_int (sint (sar d 1))"
    by (simp only: sar_def sint_signed_drop_bit_eq drop_bit_eq_div power_one_right)
  finally show ?thesis by simp
qed

lemma bit_halfwords:
  "bit (halfwords (imm :: 'a::len word)) i \<longleftrightarrow>
     i < 64 \<and> 1 \<le> i \<and> bit imm (min (i - 1) (LENGTH('a) - 1))"
  unfolding halfwords_bits bit_push_bit_iff bit_signed_iff min.commute [of "i - 1"]
  by auto

interpretation h16: bit_field "halfwords :: u16 \<Rightarrow> i64" "\<lambda>_ d. ucast (sar d 1)" 17 1 0 "\<lambda>i. i - 1"
proof
  show "bit (halfwords (w :: u16)) i \<longleftrightarrow> i < 64 \<and> 1 \<le> i \<and> bit w (min i (17 - 1) - 1)" for w i
    unfolding bit_halfwords by (auto simp: min_def)
  show "bit (ucast (sar d 1) :: u16) (i - 1) \<longleftrightarrow> bit d i" if "1 \<le> i" "i < 17" for d i
    using that le_Suc_ex [OF that(1)] by (auto simp: sar_def bit_simps)
qed auto

interpretation h32: bit_field "halfwords :: u32 \<Rightarrow> i64" "\<lambda>_ d. ucast (sar d 1)" 33 1 0 "\<lambda>i. i - 1"
proof
  show "bit (halfwords (w :: u32)) i \<longleftrightarrow> i < 64 \<and> 1 \<le> i \<and> bit w (min i (33 - 1) - 1)" for w i
    unfolding bit_halfwords by (auto simp: min_def)
  show "bit (ucast (sar d 1) :: u32) (i - 1) \<longleftrightarrow> bit d i" if "1 \<le> i" "i < 33" for d i
    using that le_Suc_ex [OF that(1)] by (auto simp: sar_def bit_simps)
qed auto

text \<open>The truncating division of the code is the arithmetic shift on the displacements that fit.\<close>

lemma s390x_put_even: "disp_fits n 1 d \<Longrightarrow> s390x_put imm d = ucast (sar d 1)"
  by (simp add: s390x_put_def tdiv_even disp_fits_def)

interpretation s390x_f16: disp_field "halfwords :: u16 \<Rightarrow> i64" s390x_put 17 1 0
proof
  show "disp_fits 17 1 (halfwords w)" for w :: u16 by (rule h16.get_fits)
  show "halfwords (s390x_put w d) = d" if "disp_fits 17 1 d" for w :: u16 and d
    unfolding s390x_put_even [OF that] by (rule h16.get_put [OF that])
qed auto

interpretation s390x_f32: disp_field "halfwords :: u32 \<Rightarrow> i64" s390x_put 33 1 0
proof
  show "disp_fits 33 1 (halfwords w)" for w :: u32 by (rule h32.get_fits)
  show "halfwords (s390x_put w d) = d" if "disp_fits 33 1 d" for w :: u32 and d
    unfolding s390x_put_even [OF that] by (rule h32.get_put [OF that])
qed auto


section \<open>One instruction\<close>

definition s390x_valid :: "bytes \<Rightarrow> bool" where
  "s390x_valid r \<longleftrightarrow> r \<noteq> [] \<and> length r = instr_len (r ! 0)"

definition is_rel4 :: "bytes \<Rightarrow> bool" where
  "is_rel4 r \<longleftrightarrow> length r = 4 \<and> r ! 0 = 0xA7 \<and> r ! 1 AND 0x0F \<in> {4, 5}"

definition is_rel6 :: "bytes \<Rightarrow> bool" where
  "is_rel6 r \<longleftrightarrow> length r = 6 \<and> r ! 0 = 0xC0 \<and> r ! 1 AND 0x0F \<in> {4, 5}"

definition s390x_edit :: "u64 \<Rightarrow> u64 \<Rightarrow> bytes \<Rightarrow> ival list \<Rightarrow> u64 \<Rightarrow> u64 \<Rightarrow> bytes" where
  "s390x_edit a t r ivs ts te =
     (case rebase a t ivs ts te of
        None \<Rightarrow> r
      | Some d \<Rightarrow>
          if is_rel4 r then splice_at r 2 (to_be 2 (s390x_put (imm16_at r) d))
          else if is_rel6 r then splice_at r 2 (to_be 4 (s390x_put (imm32_at r) d))
          else r)"

definition s390x_new_raw :: "decoded_instr \<Rightarrow> ival list \<Rightarrow> u64 \<Rightarrow> u64 \<Rightarrow> bytes" where
  "s390x_new_raw i ivs ts te =
     (case targets i of [] \<Rightarrow> raw i | t # _ \<Rightarrow> s390x_edit (i_addr i) t (raw i) ivs ts te)"

lemma s390x_edit_length [simp]: "length (s390x_edit a t r ivs ts te) = length r"
  by (simp add: s390x_edit_def is_rel4_def is_rel6_def split: option.split)

lemma splice_head:
  assumes "2 + length bs \<le> length r"
  shows "splice_at r 2 bs ! 0 = r ! 0" and "splice_at r 2 bs ! 1 = r ! 1"
    and "take (length bs) (drop 2 (splice_at r 2 bs)) = bs"
  using assms take_drop_splice [OF assms] by (auto simp: splice_at_def nth_append)

lemma s390x_put16:
  assumes "is_rel4 r"
  shows "is_rel4 (splice_at r 2 (to_be 2 x))" and "imm16_at (splice_at r 2 (to_be 2 (x::u16))) = x"
    and "splice_at r 2 (to_be 2 x) ! 1 = r ! 1"
proof -
  have l: "2 + length (to_be 2 x) \<le> length r" using assms by (simp add: is_rel4_def)
  note h = splice_head [OF l]
  show "is_rel4 (splice_at r 2 (to_be 2 x))" using assms h l by (simp add: is_rel4_def)
  show "imm16_at (splice_at r 2 (to_be 2 x)) = x"
    using h(3) by (simp add: imm16_at_def from_be_to_be)
  show "splice_at r 2 (to_be 2 x) ! 1 = r ! 1" by (rule h(2))
qed

lemma s390x_put32:
  assumes "is_rel6 r"
  shows "is_rel6 (splice_at r 2 (to_be 4 x))" and "imm32_at (splice_at r 2 (to_be 4 (x::u32))) = x"
    and "splice_at r 2 (to_be 4 x) ! 1 = r ! 1"
proof -
  have l: "2 + length (to_be 4 x) \<le> length r" using assms by (simp add: is_rel6_def)
  note h = splice_head [OF l]
  show "is_rel6 (splice_at r 2 (to_be 4 x))" using assms h l by (simp add: is_rel6_def)
  show "imm32_at (splice_at r 2 (to_be 4 x)) = x"
    using h(3) by (simp add: imm32_at_def from_be_to_be)
  show "splice_at r 2 (to_be 4 x) ! 1 = r ! 1" by (rule h(2))
qed

text \<open>A relative branch decodes to a list of targets and a flow that depend on its second byte
  and its target only.\<close>

definition rel_branch :: "u8 \<Rightarrow> u64 \<Rightarrow> u64 list \<times> flow_type" where
  "rel_branch b t = (if b AND 0x0F = 4 then masked_branch (hi_nibble b) t else ([t], Call))"

lemma decode_rel4:
  "is_rel4 r \<Longrightarrow> decode_s390x_instr a r = rel_branch (r ! 1) (a + halfwords (imm16_at r))"
  by (auto simp: is_rel4_def decode_s390x_instr_def decode_4byte_def decode_brc_def decode_bras_def
      rel_branch_def)

lemma decode_rel6:
  "is_rel6 r \<Longrightarrow> decode_s390x_instr a r = rel_branch (r ! 1) (a + halfwords (imm32_at r))"
  by (auto simp: is_rel6_def decode_s390x_instr_def decode_6byte_def decode_brcl_def decode_brasl_def
      rel_branch_def)

lemma decode_norel:
  assumes "\<not> is_rel4 r" and "\<not> is_rel6 r"
  shows "fst (decode_s390x_instr a r) = []" and "decode_s390x_instr b r = decode_s390x_instr a r"
  using assms
  by (auto simp: is_rel4_def is_rel6_def decode_s390x_instr_def decode_2byte_def decode_bcr_def
      decode_basr_def decode_4byte_def decode_6byte_def Let_def)

lemma rel_branch_cases:
  "(fst (rel_branch b t) = [] \<and> (\<forall>t'. rel_branch b t' = rel_branch b t))
   \<or> (fst (rel_branch b t) = [t] \<and> (\<forall>t'. rel_branch b t' = ([t'], snd (rel_branch b t))))"
  by (auto simp: rel_branch_def masked_branch_def)

lemma s390x_moves:
  assumes p: "p = (ivs, ts, te)" and ok: "plan_ok p" and al: "plan_aligned 1 p"
    and a: "in_text p a" "2 ^ 1 dvd unat a - unat ts"
    and t: "\<forall>t \<in> set (fst (decode_s390x_instr a r)). in_text p t"
  shows "decode_s390x_instr (moved p a)
      (case fst (decode_s390x_instr a r) of [] \<Rightarrow> r | t # _ \<Rightarrow> s390x_edit a t r ivs ts te)
    = (map (moved p) (fst (decode_s390x_instr a r)), snd (decode_s390x_instr a r))"
proof -
  have a2: "2 ^ 1 dvd unat a - unat (plan_lo p)" using a(2) by (simp add: p plan_lo_def)
  have branch: ?thesis
    if dec: "\<And>b x. rel x \<Longrightarrow> decode_s390x_instr b x = rel_branch (x ! 1) (b + get x)" and r: "rel r"
      and new: "in_text p (a + get r) \<Longrightarrow> moved p a + get (s390x_edit a (a + get r) r ivs ts te) = moved p (a + get r)
        \<and> rel (s390x_edit a (a + get r) r ivs ts te) \<and> s390x_edit a (a + get r) r ivs ts te ! 1 = r ! 1"
    for rel and get :: "bytes \<Rightarrow> u64"
    using rel_branch_cases [of "r ! 1" "a + get r"]
  proof (elim disjE conjE)
    assume none: "fst (rel_branch (r ! 1) (a + get r)) = []"
      "\<forall>t'. rel_branch (r ! 1) t' = rel_branch (r ! 1) (a + get r)"
    have "decode_s390x_instr (moved p a) r = rel_branch (r ! 1) (a + get r)"
      using dec [OF r, of "moved p a"] none(2) by metis
    then show ?thesis using none(1) by (simp add: dec [OF r, of a] prod_eq_iff)
  next
    assume one: "fst (rel_branch (r ! 1) (a + get r)) = [a + get r]"
      "\<forall>t'. rel_branch (r ! 1) t' = ([t'], snd (rel_branch (r ! 1) (a + get r)))"
    let ?n = "s390x_edit a (a + get r) r ivs ts te"
    have "in_text p (a + get r)" using t one(1) by (simp add: dec [OF r, of a])
    note n = new [OF this]
    have "decode_s390x_instr (moved p a) ?n = rel_branch (r ! 1) (moved p (a + get r))"
      using dec [of ?n "moved p a"] n by simp
    also have "\<dots> = ([moved p (a + get r)], snd (rel_branch (r ! 1) (a + get r)))" using one(2) by blast
    finally show ?thesis using one(1) by (simp add: dec [OF r, of a])
  qed
  consider (rel4) "is_rel4 r" | (rel6) "is_rel6 r" | (none) "\<not> is_rel4 r" "\<not> is_rel6 r" by blast
  then show ?thesis
  proof cases
    case rel4
    show ?thesis
    proof (rule branch [of is_rel4 "\<lambda>r. halfwords (imm16_at r)", OF decode_rel4 rel4])
      let ?t = "a + halfwords (imm16_at r)" let ?n = "s390x_edit a ?t r ivs ts te"
      assume it: "in_text p ?t"
      have imm: "imm16_at ?n = (case map_option (s390x_put (imm16_at r)) (rebase a ?t ivs ts te) of
          None \<Rightarrow> imm16_at r | Some x \<Rightarrow> x)"
        by (simp add: s390x_edit_def rel4 s390x_put16 [OF rel4] split: option.split)
      have "moved p a + halfwords (imm16_at ?n) = moved p ?t"
        using s390x_f16.rebased_map0(1) [OF p ok al a(1) a2 _ _ it refl] by (simp add: imm)
      moreover have "is_rel4 ?n" "?n ! 1 = r ! 1"
        by (simp_all add: s390x_edit_def rel4 s390x_put16 [OF rel4, simplified] split: option.split)
      ultimately show "moved p a + halfwords (imm16_at ?n) = moved p ?t \<and> is_rel4 ?n \<and> ?n ! 1 = r ! 1"
        by blast
    qed
  next
    case rel6
    then have n4: "\<not> is_rel4 r" by (simp add: is_rel4_def is_rel6_def)
    show ?thesis
    proof (rule branch [of is_rel6 "\<lambda>r. halfwords (imm32_at r)", OF decode_rel6 rel6])
      let ?t = "a + halfwords (imm32_at r)" let ?n = "s390x_edit a ?t r ivs ts te"
      assume it: "in_text p ?t"
      have imm: "imm32_at ?n = (case map_option (s390x_put (imm32_at r)) (rebase a ?t ivs ts te) of
          None \<Rightarrow> imm32_at r | Some x \<Rightarrow> x)"
        by (simp add: s390x_edit_def rel6 n4 s390x_put32 [OF rel6] split: option.split)
      have "moved p a + halfwords (imm32_at ?n) = moved p ?t"
        using s390x_f32.rebased_map0(1) [OF p ok al a(1) a2 _ _ it refl] by (simp add: imm)
      moreover have "is_rel6 ?n" "?n ! 1 = r ! 1"
        by (simp_all add: s390x_edit_def rel6 n4 s390x_put32 [OF rel6, simplified] split: option.split)
      ultimately show "moved p a + halfwords (imm32_at ?n) = moved p ?t \<and> is_rel6 ?n \<and> ?n ! 1 = r ! 1"
        by blast
    qed
  next
    case none
    then show ?thesis
      using decode_norel(1) [OF none, of a] decode_norel(2) [OF none, of "moved p a" a]
      by (simp add: prod_eq_iff)
  qed
qed

section \<open>A patched .text\<close>

lemma s390x_instr_fields: "i_addr (s390x_instr a r) = a \<and> raw (s390x_instr a r) = r"
  by (simp add: s390x_instr_def split: prod.split)

lemma s390x_patch_new:
  assumes ok: "vec_ok data" and st: "stored data secs i off"
  shows "s390x_patch_one data i ivs secs ts te = Some (splice_at data off (s390x_new_raw i ivs ts te))"
proof -
  obtain foff where f: "vaddr_to_offset (i_addr i) secs = Some foff" "unat foff = off"
    using st by (rule stored_mapped)
  show ?thesis
  proof (cases "\<exists>t l. targets i = t # l \<and> (is_rel4 (raw i) \<or> is_rel6 (raw i))")
    case False
    then show ?thesis
      by (auto simp: s390x_patch_one_def s390x_new_raw_def s390x_edit_def f(1) stored_same [OF st]
          patch_4byte_def patch_6byte_def is_rel4_def is_rel6_def Let_def
          split: option.split list.split)
  next
    case True
    then obtain t l where t: "targets i = t # l" and "is_rel4 (raw i) \<or> is_rel6 (raw i)" by blast
    then show ?thesis
    proof (elim disjE)
      assume r: "is_rel4 (raw i)"
      then have "\<not> data_len data < foff + 4" and "\<And>w. slice_put data (foff + 2) (to_be 2 (w::u16)) =
          Some (splice_at data off (splice_at (raw i) 2 (to_be 2 w)))"
        using stored_check(1) [OF ok st _ f(1), of 4] stored_put [OF ok st _ f(1), of 2]
        by (simp_all add: is_rel4_def)
      then show ?thesis using r
        by (auto simp: s390x_patch_one_def s390x_new_raw_def s390x_edit_def f(1) stored_same [OF st]
            patch_4byte_def is_rel4_def rebase_def t Let_def)
    next
      assume r: "is_rel6 (raw i)"
      then have "\<not> data_len data < foff + 6" and "\<And>w. slice_put data (foff + 2) (to_be 4 (w::u32)) =
          Some (splice_at data off (splice_at (raw i) 2 (to_be 4 w)))"
        using stored_check(1) [OF ok st _ f(1), of 6] stored_put [OF ok st _ f(1), of 2]
        by (simp_all add: is_rel6_def)
      then show ?thesis using r
        by (auto simp: s390x_patch_one_def s390x_new_raw_def s390x_edit_def f(1) stored_same [OF st]
            patch_6byte_def is_rel4_def is_rel6_def rebase_def t Let_def)
    qed
  qed
qed

lemma s390x_new_raw_length: "length (s390x_new_raw i ivs ts te) = length (raw i)"
  by (simp add: s390x_new_raw_def split: list.split)

interpretation s390x: section_patcher s390x_patch_one s390x_new_raw s390x_instr "\<lambda>_ _. True" s390x_valid 1
proof
  show "length (s390x_new_raw i ivs ts te) = length (raw i)" for i ivs ts te
    by (rule s390x_new_raw_length)
  show "s390x_patch_one data i ivs secs ts te = Some (splice_at data off (s390x_new_raw i ivs ts te))"
    if "vec_ok data" "stored data secs i off" for data secs i off ivs ts te
    using that by (rule s390x_patch_new)
  show "i_addr (s390x_instr a r) = a \<and> raw (s390x_instr a r) = r" for a r
    by (rule s390x_instr_fields)
  fix p ivs ts te a and r :: bytes
  assume p: "p = (ivs, ts, te)" "plan_ok p" "plan_aligned 1 p" "in_text p a" "2 ^ 1 dvd unat a - unat ts"
    and t: "\<forall>t \<in> set (targets (s390x_instr a r)). in_text p t"
  let ?i = "s390x_instr a r" and ?n = "s390x_new_raw (s390x_instr a r) ivs ts te"
  have i: "i_addr ?i = a" "raw ?i = r" "targets ?i = fst (decode_s390x_instr a r)"
    by (simp_all add: s390x_instr_def split: prod.split)
  have n: "?n = (case fst (decode_s390x_instr a r) of [] \<Rightarrow> r | t # _ \<Rightarrow> s390x_edit a t r ivs ts te)"
    by (simp only: s390x_new_raw_def i)
  have "decode_s390x_instr (moved p a) ?n =
      (map (moved p) (fst (decode_s390x_instr a r)), snd (decode_s390x_instr a r))"
    unfolding n by (rule s390x_moves [OF p]) (use t in \<open>simp add: i\<close>)
  moreover have "length ?n = length r" by (simp add: s390x_new_raw_length i)
  ultimately show "s390x_instr (moved p a) ?n = move_instr p ?n ?i"
    by (simp add: s390x_instr_def move_instr_def split: prod.splits)
qed

lemma s390x_section:
  assumes "vec_ok data" and "mapped data secs off vaddr sz"
  shows "decoded_section data secs off vaddr sz 1 s390x_instr s390x_valid
    (decode_text_s390x data off vaddr sz)"
  unfolding decode_text_s390x_def
proof (rule decode_loop_section [OF assms])
  show "i_addr (s390x_instr a r) = a \<and> raw (s390x_instr a r) = r" if "s390x_valid r" for a r
    by (rule s390x_instr_fields)
  fix sl :: bytes and j n
  assume "s390x_len_at sl j = Some n" and l: "j + n \<le> length sl"
  then have j: "j < length sl" and n: "n = instr_len (sl ! j)"
    by (auto simp: s390x_len_at_def Let_def split: if_splits)
  moreover have "0 < n" and "2 ^ 1 dvd n" by (simp_all add: n instr_len_def Let_def)
  ultimately show "s390x_valid (take n (drop j sl)) \<and> 2 ^ 1 dvd n"
    using l by (auto simp: s390x_valid_def)
qed

text \<open>C23. z/Architecture: after patching .text, every live instruction whose targets are in .text
  decodes at its new address to the same instruction with its target moved, for instructions of
  two, four and six bytes alike; nothing outside .text changes and nothing panics.\<close>

theorem s390x_text_relocated:
  assumes "vec_ok data" and "mapped data secs off vaddr sz"
    and "plan_ok (ivs, vaddr, vaddr + sz)" and "plan_aligned 1 (ivs, vaddr, vaddr + sz)"
  shows "\<exists>d'. s390x_patch_branches data (decode_text_s390x data off vaddr sz) ivs secs vaddr (vaddr + sz)
      = Some d'
    \<and> text_moved s390x_instr (\<lambda>_. True) (decode_text_s390x data off vaddr sz) ivs off vaddr sz data d'"
  using s390x.text_relocated [OF assms s390x_section [OF assms(1,2)]]
  unfolding s390x_patch_branches_def s390x.live_patch_def .

text \<open>BRCL over ten dead bytes to BCR 15,14.\<close>

definition ex_s390x :: bytes where
  "ex_s390x = [0xA7, 0xF4, 0, 6, 0, 0, 0, 0, 0, 0, 0, 0, 0x07, 0xFE, 0x07, 0x00]"

theorem s390x_text_relocated_witness:
  "\<exists>d'. s390x_patch_branches ex_s390x (decode_text_s390x ex_s390x 0 0x1000 16) ex_dead [ex_text]
      0x1000 (0x1000 + 16) = Some d'
    \<and> targets (s390x_instr 0x1000 (bytes_at d' 0 0x1000 4 0x1000)) = [0x1004]"
proof -
  let ?is = "decode_text_s390x ex_s390x 0 0x1000 16"
  let ?i = "s390x_instr 0x1000 [0xA7, 0xF4, 0, 6]"
  have l: "length ex_s390x = 16" by (simp add: ex_s390x_def)
  have "?i \<in> set (decode_loop s390x_len_at s390x_instr ex_s390x 0x1000 0)" by code_simp
  then have mem: "?i \<in> set ?is" by (simp only: decode_text_s390x_def ex_section [OF l])
  have i: "i_addr ?i = 0x1000" "length (raw ?i) = 4" "targets ?i = [0x100C]" by code_simp+
  have al: "plan_aligned 1 (ex_dead, 0x1000, 0x1000 + 16)"
    by (rule plan_aligned_mono [OF ex_plan(2)]) simp
  obtain d' where "s390x_patch_branches ex_s390x ?is ex_dead [ex_text] 0x1000 (0x1000 + 16) = Some d'"
    and m: "text_moved s390x_instr (\<lambda>_. True) ?is ex_dead 0 0x1000 16 ex_s390x d'"
    using s390x_text_relocated [OF _ _ ex_plan(1) al] ex_mapped [OF l] by blast
  moreover have "targets (s390x_instr 0x1000 (bytes_at d' 0 0x1000 4 0x1000)) = [0x1004]"
    using text_moved_targets [OF m mem]
    by (simp only: i ex_plan list.set list.map ball_simps simp_thms)
  ultimately show ?thesis by blast
qed

end
