(* ===== verification/RiscV.thy ===== *)
theory RiscV
  imports Patching
begin

text \<open>
  \<open>src/arch/riscv.rs\<close> and \<open>src/arch/riscv_patch.rs\<close>: the RISC-V decoder of 32-bit and compressed
  16-bit instructions, the patcher of JAL, branches and compressed jumps, and the patcher of
  AUIPC pairs, which runs first.
\<close>

section \<open>Decoder\<close>

definition jal_imm :: "u32 \<Rightarrow> i32" where
  "jal_imm w =
     (let b20 = drop_bit 31 w AND 1;
          b10_1 = drop_bit 21 w AND 0x3FF;
          b11 = drop_bit 20 w AND 1;
          b19_12 = drop_bit 12 w AND 0xFF;
          r = push_bit 20 b20 OR push_bit 12 b19_12 OR push_bit 11 b11 OR push_bit 1 b10_1
      in sign_extend r 21)"

definition branch_imm :: "u32 \<Rightarrow> i32" where
  "branch_imm w =
     (let b12 = drop_bit 31 w AND 1;
          b10_5 = drop_bit 25 w AND 0x3F;
          b4_1 = drop_bit 8 w AND 0xF;
          b11 = drop_bit 7 w AND 1;
          r = push_bit 12 b12 OR push_bit 11 b11 OR push_bit 5 b10_5 OR push_bit 1 b4_1
      in sign_extend r 13)"

definition c_j_imm :: "u16 \<Rightarrow> i32" where
  "c_j_imm hw =
     (let bits = ucast (drop_bit 2 hw AND 0x7FF) :: u32;
          b5 = bits AND 1;
          b3_1 = drop_bit 1 bits AND 0x7;
          b7 = drop_bit 4 bits AND 1;
          b6 = drop_bit 5 bits AND 1;
          b10 = drop_bit 6 bits AND 1;
          b9_8 = drop_bit 7 bits AND 0x3;
          b4 = drop_bit 9 bits AND 1;
          b11 = drop_bit 10 bits AND 1;
          r = push_bit 11 b11 OR push_bit 10 b10 OR push_bit 8 b9_8 OR push_bit 7 b7
            OR push_bit 6 b6 OR push_bit 5 b5 OR push_bit 4 b4 OR push_bit 1 b3_1
      in sign_extend r 12)"

definition c_branch_imm :: "u16 \<Rightarrow> i32" where
  "c_branch_imm hw =
     (let lo = ucast (drop_bit 2 hw AND 0x1F) :: u32;
          hi = ucast (drop_bit 10 hw AND 0x07) :: u32;
          b5 = lo AND 1;
          b2_1 = drop_bit 1 lo AND 0x3;
          b7_6 = drop_bit 3 lo AND 0x3;
          b4_3 = hi AND 0x3;
          b8 = drop_bit 2 hi AND 1;
          r = push_bit 8 b8 OR push_bit 6 b7_6 OR push_bit 5 b5 OR push_bit 3 b4_3 OR push_bit 1 b2_1
      in sign_extend r 9)"

type_synonym rv_decoded = "u64 list \<times> u64 option \<times> flow_type"

definition decode_jal :: "u64 \<Rightarrow> u32 \<Rightarrow> rv_decoded" where
  "decode_jal addr w =
     (let rd = drop_bit 7 w AND 0x1F;
          target = addr + ext64 (jal_imm w);
          f = (if rd = 1 \<or> rd = 5 then Call else UnconditionalBranch)
      in ([target], None, f))"

definition decode_jalr :: "u32 \<Rightarrow> rv_decoded" where
  "decode_jalr w =
     (let rd = drop_bit 7 w AND 0x1F;
          rs1 = drop_bit 15 w AND 0x1F;
          f = (if rd = 0 \<and> rs1 = 1 then Return
               else if rd = 1 \<or> rd = 5 then IndirectCall else IndirectBranch)
      in ([], None, f))"

definition decode_branch :: "u64 \<Rightarrow> u32 \<Rightarrow> rv_decoded" where
  "decode_branch addr w = ([addr + ext64 (branch_imm w)], None, ConditionalBranch)"

text \<open>The upper immediate of AUIPC, sign-extended.\<close>

definition auipc_offset :: "u32 \<Rightarrow> i64" where
  "auipc_offset w = ext64 (w AND 0xFFFFF000)"

definition decode_auipc :: "u64 \<Rightarrow> u32 \<Rightarrow> rv_decoded" where
  "decode_auipc addr w = ([], Some (addr + auipc_offset w), Normal)"

definition decode_system :: "u32 \<Rightarrow> rv_decoded" where
  "decode_system w =
     (let funct12 = drop_bit 20 w
      in ([], None, if funct12 = 0 \<or> funct12 = 1 then Halt else Normal))"

definition rv_word_targets :: "u64 \<Rightarrow> u32 \<Rightarrow> rv_decoded" where
  "rv_word_targets addr w =
     (let opcode = w AND 0x7F in
      if opcode = 0x6F then decode_jal addr w
      else if opcode = 0x67 then decode_jalr w
      else if opcode = 0x63 then decode_branch addr w
      else if opcode = 0x17 then decode_auipc addr w
      else if opcode = 0x73 then decode_system w
      else ([], None, Normal))"

definition decode_rv_word :: "u64 \<Rightarrow> u32 \<Rightarrow> decoded_instr" where
  "decode_rv_word addr w =
     (case rv_word_targets addr w of (ts, pc_rel, f) \<Rightarrow>
        \<lparr>i_addr = addr, raw = to_le 4 w, i_len = 4, targets = ts, pc_rel_target = pc_rel,
         is_call = (f = Call), flow = f\<rparr>)"

definition decode_c_jr_jalr :: "u16 \<Rightarrow> rv_decoded" where
  "decode_c_jr_jalr hw =
     (let rs2 = drop_bit 2 hw AND 0x1F;
          rs1 = drop_bit 7 hw AND 0x1F;
          bit12 = drop_bit 12 hw AND 1
      in if rs2 \<noteq> 0 then ([], None, Normal)
         else if rs1 = 0 then ([], None, Normal)
         else ([], None, if bit12 = 0 then if rs1 = 1 then Return else IndirectBranch else IndirectCall))"

definition rv_half_targets :: "u64 \<Rightarrow> u16 \<Rightarrow> rv_decoded" where
  "rv_half_targets addr hw =
     (let op = hw AND 0x03; funct3 = drop_bit 13 hw AND 0x07 in
      if op = 1 \<and> funct3 = 5 then ([addr + ext64 (c_j_imm hw)], None, UnconditionalBranch)
      else if op = 1 \<and> funct3 = 1 then ([addr + ext64 (c_j_imm hw)], None, Call)
      else if op = 1 \<and> funct3 = 6 then ([addr + ext64 (c_branch_imm hw)], None, ConditionalBranch)
      else if op = 1 \<and> funct3 = 7 then ([addr + ext64 (c_branch_imm hw)], None, ConditionalBranch)
      else if op = 2 \<and> funct3 = 4 then decode_c_jr_jalr hw
      else ([], None, Normal))"

definition decode_compressed :: "u64 \<Rightarrow> u16 \<Rightarrow> decoded_instr" where
  "decode_compressed addr hw =
     (case rv_half_targets addr hw of (ts, pc_rel, f) \<Rightarrow>
        \<lparr>i_addr = addr, raw = to_le 2 hw, i_len = 2, targets = ts, pc_rel_target = pc_rel,
         is_call = (f = Call), flow = f\<rparr>)"

text \<open>The entry for two or four bytes, and the number of bytes at an offset.\<close>

definition rv_instr :: "u64 \<Rightarrow> bytes \<Rightarrow> decoded_instr" where
  "rv_instr addr r =
     (if length r = 2 then decode_compressed addr (from_le r) else decode_rv_word addr (from_le r))"

definition rv_len_at :: "bytes \<Rightarrow> nat \<Rightarrow> nat option" where
  "rv_len_at sl offset =
     (if length sl < offset + 2 then None
      else if sl ! offset AND 0x03 \<noteq> 0x03 then Some 2
      else if length sl < offset + 4 then None
      else Some 4)"

definition decode_text_riscv :: "bytes \<Rightarrow> u64 \<Rightarrow> u64 \<Rightarrow> u64 \<Rightarrow> decoded_instr list" where
  "decode_text_riscv data text_offset text_vaddr text_size =
     decode_loop rv_len_at rv_instr (section_bytes data text_offset text_size) text_vaddr 0"

section \<open>Patcher of branches\<close>

definition is_padding_riscv :: "u8 \<Rightarrow> bool" where
  "is_padding_riscv b \<longleftrightarrow> b = 0x00"

definition encode_jal_imm :: "u32 \<Rightarrow> u32" where
  "encode_jal_imm imm =
     (let b20 = drop_bit 20 imm AND 1;
          b10_1 = drop_bit 1 imm AND 0x3FF;
          b11 = drop_bit 11 imm AND 1;
          b19_12 = drop_bit 12 imm AND 0xFF
      in push_bit 31 b20 OR push_bit 21 b10_1 OR push_bit 20 b11 OR push_bit 12 b19_12)"

definition encode_branch_imm :: "u32 \<Rightarrow> u32" where
  "encode_branch_imm imm =
     (let b12 = drop_bit 12 imm AND 1;
          b10_5 = drop_bit 5 imm AND 0x3F;
          b4_1 = drop_bit 1 imm AND 0xF;
          b11 = drop_bit 11 imm AND 1
      in push_bit 31 b12 OR push_bit 25 b10_5 OR push_bit 8 b4_1 OR push_bit 7 b11)"

definition encode_c_j_imm :: "u32 \<Rightarrow> u16" where
  "encode_c_j_imm imm =
     (let b5 = drop_bit 5 imm AND 1;
          b3_1 = drop_bit 1 imm AND 0x7;
          b7 = drop_bit 7 imm AND 1;
          b6 = drop_bit 6 imm AND 1;
          b10 = drop_bit 10 imm AND 1;
          b9_8 = drop_bit 8 imm AND 0x3;
          b4 = drop_bit 4 imm AND 1;
          b11 = drop_bit 11 imm AND 1;
          bits = b5 OR push_bit 1 b3_1 OR push_bit 4 b7 OR push_bit 5 b6 OR push_bit 6 b10
            OR push_bit 7 b9_8 OR push_bit 9 b4 OR push_bit 10 b11
      in push_bit 2 (ucast bits))"

definition encode_c_branch_imm :: "u32 \<Rightarrow> u16" where
  "encode_c_branch_imm imm =
     (let b5 = drop_bit 5 imm AND 1;
          b2_1 = drop_bit 1 imm AND 0x3;
          b7_6 = drop_bit 6 imm AND 0x3;
          b4_3 = drop_bit 3 imm AND 0x3;
          b8 = drop_bit 8 imm AND 1;
          lo = b5 OR push_bit 1 b2_1 OR push_bit 3 b7_6;
          hi = b4_3 OR push_bit 2 b8
      in push_bit 10 (ucast hi) OR push_bit 2 (ucast lo))"

definition rv_put_jal :: "u32 \<Rightarrow> i64 \<Rightarrow> u32" where
  "rv_put_jal w new_offset = (w AND 0x00000FFF) OR encode_jal_imm (ucast new_offset)"

definition rv_put_branch :: "u32 \<Rightarrow> i64 \<Rightarrow> u32" where
  "rv_put_branch w new_offset = (w AND 0x01FFF07F) OR encode_branch_imm (ucast new_offset)"

definition rv_put_c_j :: "u16 \<Rightarrow> i64 \<Rightarrow> u16" where
  "rv_put_c_j hw new_offset = (hw AND 0xE003) OR encode_c_j_imm (ucast new_offset)"

definition rv_put_c_branch :: "u16 \<Rightarrow> i64 \<Rightarrow> u16" where
  "rv_put_c_branch hw new_offset = (hw AND 0xE383) OR encode_c_branch_imm (ucast new_offset)"

text \<open>The word written for a word, \<open>None\<close> if it is left alone.\<close>

definition rv_new_word :: "u64 \<Rightarrow> u32 \<Rightarrow> ival list \<Rightarrow> u64 \<Rightarrow> u64 \<Rightarrow> u32 option" where
  "rv_new_word addr w ivs ts te =
     (let opcode = w AND 0x7F in
      if opcode = 0x6F then
        map_option (rv_put_jal w) (rebase addr (addr + ext64 (jal_imm w)) ivs ts te)
      else if opcode = 0x63 then
        map_option (rv_put_branch w) (rebase addr (addr + ext64 (branch_imm w)) ivs ts te)
      else None)"

definition rv_new_half :: "u64 \<Rightarrow> u16 \<Rightarrow> ival list \<Rightarrow> u64 \<Rightarrow> u64 \<Rightarrow> u16 option" where
  "rv_new_half addr hw ivs ts te =
     (let op = hw AND 0x03; funct3 = drop_bit 13 hw AND 0x07 in
      if op = 1 \<and> (funct3 = 5 \<or> funct3 = 1) then
        map_option (rv_put_c_j hw) (rebase addr (addr + ext64 (c_j_imm hw)) ivs ts te)
      else if op = 1 \<and> (funct3 = 6 \<or> funct3 = 7) then
        map_option (rv_put_c_branch hw) (rebase addr (addr + ext64 (c_branch_imm hw)) ivs ts te)
      else None)"

definition patch_one_32 :: "bytes \<Rightarrow> decoded_instr \<Rightarrow> usize \<Rightarrow> ival list \<Rightarrow> u64 \<Rightarrow> u64 \<Rightarrow> bytes option" where
  "patch_one_32 data instr foff ivs ts te =
     (if length (raw instr) < 4 \<or> data_len data < foff + 4 then Some data
      else case rv_new_word (i_addr instr) (from_le (take 4 (raw instr))) ivs ts te of
             None \<Rightarrow> Some data
           | Some new_word \<Rightarrow> slice_put data foff (to_le 4 new_word))"

definition patch_one_16 :: "bytes \<Rightarrow> decoded_instr \<Rightarrow> usize \<Rightarrow> ival list \<Rightarrow> u64 \<Rightarrow> u64 \<Rightarrow> bytes option" where
  "patch_one_16 data instr foff ivs ts te =
     (if length (raw instr) < 2 \<or> data_len data < foff + 2 then Some data
      else case rv_new_half (i_addr instr) (from_le (take 2 (raw instr))) ivs ts te of
             None \<Rightarrow> Some data
           | Some new_hw \<Rightarrow> slice_put data foff (to_le 2 new_hw))"

definition rv_patch_one ::
  "bytes \<Rightarrow> decoded_instr \<Rightarrow> ival list \<Rightarrow> sect list \<Rightarrow> u64 \<Rightarrow> u64 \<Rightarrow> bytes option" where
  "rv_patch_one data instr ivs secs ts te =
     (case vaddr_to_offset (i_addr instr) secs of
        None \<Rightarrow> Some data
      | Some foff \<Rightarrow>
          if i_len instr = 4 then patch_one_32 data instr foff ivs ts te
          else if i_len instr = 2 then patch_one_16 data instr foff ivs ts te
          else Some data)"

section \<open>Patcher of AUIPC pairs\<close>

definition i_type_imm :: "u32 \<Rightarrow> i64" where
  "i_type_imm w = ext64 (sign_extend (drop_bit 20 w) 12)"

definition s_type_imm :: "u32 \<Rightarrow> i64" where
  "s_type_imm w =
     (let hi = drop_bit 25 w AND 0x7F; lo = drop_bit 7 w AND 0x1F
      in ext64 (sign_extend (push_bit 5 hi OR lo) 12))"

definition encode_i_type_imm :: "u32 \<Rightarrow> i32 \<Rightarrow> u32" where
  "encode_i_type_imm w imm12 = (w AND 0x000FFFFF) OR push_bit 20 (imm12 AND 0xFFF)"

definition encode_s_type_imm :: "u32 \<Rightarrow> i32 \<Rightarrow> u32" where
  "encode_s_type_imm w imm12 =
     (let hi = drop_bit 5 imm12 AND 0x7F; lo = imm12 AND 0x1F
      in (w AND 0x01FFF07F) OR push_bit 25 hi OR push_bit 7 lo)"

text \<open>The first of the next four instructions that uses \<open>rd\<close> as its base register, unless \<open>rd\<close>
  is overwritten before: \<open>off\<close> runs over \<open>1..=limit\<close>.\<close>

fun find_pair_loop :: "decoded_instr list \<Rightarrow> nat \<Rightarrow> u32 \<Rightarrow> nat list \<Rightarrow> nat option" where
  "find_pair_loop instrs auipc_idx rd [] = None"
| "find_pair_loop instrs auipc_idx rd (off # offs) =
     (let i = auipc_idx + off; instr = instrs ! i in
      if i_len instr \<noteq> 4 \<or> length (raw instr) < 4 then find_pair_loop instrs auipc_idx rd offs
      else let w = from_le (take 4 (raw instr)) :: u32;
               opcode = w AND 0x7F;
               rs1 = drop_bit 15 w AND 0x1F;
               i_rd = drop_bit 7 w AND 0x1F
           in if rs1 = rd \<and> opcode \<in> {0x67, 0x03, 0x13, 0x23} then Some i
              else if i_rd = rd \<and> opcode \<noteq> 0x23 then None
              else find_pair_loop instrs auipc_idx rd offs)"

definition find_auipc_pair :: "decoded_instr list \<Rightarrow> nat \<Rightarrow> u32 \<Rightarrow> nat option" where
  "find_auipc_pair instrs auipc_idx rd =
     (let limit = min 4 (length instrs - (auipc_idx + 1))
      in find_pair_loop instrs auipc_idx rd [1..<limit + 1])"

text \<open>The two new words of a pair.\<close>

definition lo_imm :: "u32 \<Rightarrow> i64" where
  "lo_imm pw = (if pw AND 0x7F = 0x23 then s_type_imm pw else i_type_imm pw)"

definition put_lo_imm :: "u32 \<Rightarrow> i32 \<Rightarrow> u32" where
  "put_lo_imm pw lo12 =
     (if pw AND 0x7F = 0x23 then encode_s_type_imm pw lo12 else encode_i_type_imm pw lo12)"

definition pair_words :: "u32 \<Rightarrow> u32 \<Rightarrow> i64 \<Rightarrow> u32 \<times> u32" where
  "pair_words aw pw new_full_offset =
     (let hi20 = ucast (sar (new_full_offset + 0x800) 12) :: i32;
          lo12 = ucast (new_full_offset - push_bit 12 (ext64 hi20)) :: i32
      in ((aw AND 0x00000FFF) OR push_bit 12 hi20, put_lo_imm pw lo12))"

definition do_patch_auipc_pair ::
  "bytes \<Rightarrow> decoded_instr \<Rightarrow> decoded_instr \<Rightarrow> ival list \<Rightarrow> sect list \<Rightarrow> u64 \<Rightarrow> u64 \<Rightarrow> bytes option" where
  "do_patch_auipc_pair data auipc paired ivs secs ts te =
     (case vaddr_to_offset (i_addr auipc) secs of None \<Rightarrow> Some data | Some auipc_foff \<Rightarrow>
      case vaddr_to_offset (i_addr paired) secs of None \<Rightarrow> Some data | Some pair_foff \<Rightarrow>
      if data_len data < auipc_foff + 4 \<or> data_len data < pair_foff + 4 then Some data
      else let aw = from_le (take 4 (raw auipc));
               pw = from_le (take 4 (raw paired));
               old_target = i_addr auipc + auipc_offset aw + lo_imm pw
           in case rebase (i_addr auipc) old_target ivs ts te of
                None \<Rightarrow> Some data
              | Some new_full_offset \<Rightarrow>
                  (case pair_words aw pw new_full_offset of (new_aw, new_pw) \<Rightarrow> do {
                     data' \<leftarrow> slice_put data auipc_foff (to_le 4 new_aw);
                     slice_put data' pair_foff (to_le 4 new_pw)
                   }))"

text \<open>One round of the loop of \<open>patch_auipc_pairs\<close>, for the instruction at index \<open>idx\<close>.\<close>

definition patch_auipc_at ::
  "decoded_instr list \<Rightarrow> ival list \<Rightarrow> sect list \<Rightarrow> u64 \<Rightarrow> u64 \<Rightarrow> nat \<Rightarrow> bytes \<Rightarrow> bytes option" where
  "patch_auipc_at instrs ivs secs ts te idx data =
     (let instr = instrs ! idx in
      if in_dead_range (i_addr instr) ivs then Some data
      else if i_len instr \<noteq> 4 \<or> length (raw instr) < 4 then Some data
      else let w = from_le (take 4 (raw instr)) :: u32 in
        if w AND 0x7F \<noteq> 0x17 then Some data
        else let rd = drop_bit 7 w AND 0x1F in
          if rd = 0 then Some data
          else case find_auipc_pair instrs idx rd of
                 None \<Rightarrow> Some data
               | Some pair_idx \<Rightarrow>
                   do_patch_auipc_pair data instr (instrs ! pair_idx) ivs secs ts te)"

definition patch_auipc_pairs ::
  "bytes \<Rightarrow> decoded_instr list \<Rightarrow> ival list \<Rightarrow> sect list \<Rightarrow> u64 \<Rightarrow> u64 \<Rightarrow> bytes option" where
  "patch_auipc_pairs data instrs ivs secs ts te =
     for_each (patch_auipc_at instrs ivs secs ts te) [0..<length instrs] data"

definition rv_patch_branches ::
  "bytes \<Rightarrow> decoded_instr list \<Rightarrow> ival list \<Rightarrow> sect list \<Rightarrow> u64 \<Rightarrow> u64 \<Rightarrow> bytes option" where
  "rv_patch_branches data instrs ivs secs ts te = do {
     data' \<leftarrow> patch_auipc_pairs data instrs ivs secs ts te;
     for_each (\<lambda>instr data.
         if in_dead_range (i_addr instr) ivs then Some data
         else rv_patch_one data instr ivs secs ts te)
       instrs data'
   }"

section \<open>The immediate fields\<close>

text \<open>The scrambled immediates, bit by bit.\<close>

lemma less_21: "m < 21 \<Longrightarrow> m \<in> {0,1,2,3,4,5,6,7,8,9,10,11,12,13,14,15,16,17,18,19,20::nat}"
  unfolding insert_iff empty_iff by presburger

lemma word32_eqI:
  assumes "\<And>i. i \<in> {0,1,2,3,4,5,6,7,8,9,10,11,12,13,14,15,16,17,18,19,20,21,22,23,24,25,26,27,28,29,30,
    31::nat} \<Longrightarrow> bit a i = bit b i"
  shows "a = (b :: u32)"
proof (rule bit_word_eqI)
  fix i assume "i < LENGTH(32)"
  then have "i < 32" by simp
  then show "bit a i = bit b i" by (intro assms, unfold insert_iff empty_iff) presburger
qed

lemma word16_eqI:
  assumes "\<And>i. i \<in> {0,1,2,3,4,5,6,7,8,9,10,11,12,13,14,15::nat} \<Longrightarrow> bit a i = bit b i"
  shows "a = (b :: u16)"
proof (rule bit_word_eqI)
  fix i assume "i < LENGTH(16)"
  then have "i < 16" by simp
  then show "bit a i = bit b i" by (intro assms, unfold insert_iff empty_iff) presburger
qed

lemma bit_times_two: "bit (x * 2 :: 'a::len word) i \<longleftrightarrow> i < LENGTH('a) \<and> 0 < i \<and> bit x (i - 1)"
  using bit_push_bit_iff [of 1 x i] by (auto simp: possible_bit_word)

lemma field_of_raw:
  assumes raw: "\<And>m. m < n \<Longrightarrow> bit r m \<longleftrightarrow> k \<le> m \<and> bit w (pos m)" and n: "k < n" "n \<le> 32"
  shows "bit (ext64 (sign_extend r n)) i \<longleftrightarrow> i < 64 \<and> k \<le> i \<and> bit w (pos (min i (n - 1)))"
proof -
  have m: "min (min i 31) (n - 1) = min i (n - 1)" using n by auto
  have "bit (ext64 (sign_extend r n)) i \<longleftrightarrow> i < 64 \<and> bit r (min i (n - 1))"
    unfolding bit_ext64 bit_sign_extend [OF le_less_trans [OF le0 n(1)] n(2)] m by (simp add: min.strict_coboundedI2)
  also have "bit r (min i (n - 1)) \<longleftrightarrow> k \<le> min i (n - 1) \<and> bit w (pos (min i (n - 1)))"
    using n by (intro raw) auto
  finally show ?thesis using n by auto
qed

definition jal_pos :: "nat \<Rightarrow> nat" where
  "jal_pos i = (if i \<le> 10 then i + 20 else if i = 11 then 20 else if i \<le> 19 then i else 31)"

definition branch_pos :: "nat \<Rightarrow> nat" where
  "branch_pos i = (if i \<le> 4 then i + 7 else if i \<le> 10 then i + 20 else if i = 11 then 7 else 31)"

definition c_j_pos :: "nat \<Rightarrow> nat" where
  "c_j_pos i = (if i \<le> 3 then i + 2 else if i = 4 then 11 else if i = 5 then 2 else if i = 6 then 7
     else if i = 7 then 6 else if i \<le> 9 then i + 1 else if i = 10 then 8 else 12)"

definition c_branch_pos :: "nat \<Rightarrow> nat" where
  "c_branch_pos i = (if i \<le> 2 then i + 2 else if i \<le> 4 then i + 7 else if i = 5 then 2
     else if i \<le> 7 then i - 1 else 12)"

text \<open>The bits of a field are located by evaluating each of them.\<close>

lemmas locate_bits = bit_simps bit_times_two jal_pos_def branch_pos_def c_j_pos_def c_branch_pos_def

lemma small_sucs: "Suc (Suc 0) = 2" "Suc (Suc (Suc 0)) = 3"
  by simp_all

interpretation rv_jal: bit_field "\<lambda>w. ext64 (jal_imm w)" rv_put_jal 21 1 "0x00000FFF" jal_pos
proof
  show "bit (ext64 (jal_imm w)) i \<longleftrightarrow> i < 64 \<and> 1 \<le> i \<and> bit w (jal_pos (min i (21 - 1)))" for w i
    unfolding jal_imm_def Let_def
    by (rule field_of_raw, drule less_21, elim insertE) (simp_all add: locate_bits)
  show "bit (rv_put_jal w d) (jal_pos i) \<longleftrightarrow> bit d i" if "1 \<le> i" "i < 21" for w d i
    using less_21 [OF that(2)] that(1) unfolding rv_put_jal_def encode_jal_imm_def Let_def
    by (elim insertE) (simp_all add: locate_bits small_sucs)
  show "rv_put_jal w d AND 0x00000FFF = w AND 0x00000FFF" for w d
    unfolding rv_put_jal_def encode_jal_imm_def Let_def
    by (rule word32_eqI, elim insertE) (simp_all add: locate_bits)
qed auto

lemma less_field: "m < n \<Longrightarrow> n \<le> 21 \<Longrightarrow> m < (21::nat)"
  by simp

interpretation rv_branch: bit_field "\<lambda>w. ext64 (branch_imm w)" rv_put_branch 13 1 "0x01FFF07F" branch_pos
proof
  show "bit (ext64 (branch_imm w)) i \<longleftrightarrow> i < 64 \<and> 1 \<le> i \<and> bit w (branch_pos (min i (13 - 1)))" for w i
    unfolding branch_imm_def Let_def
    by (rule field_of_raw, frule less_field, simp, drule less_21, elim insertE) (simp_all add: locate_bits)
  show "bit (rv_put_branch w d) (branch_pos i) \<longleftrightarrow> bit d i" if "1 \<le> i" "i < 13" for w d i
    using less_21 [OF less_field [OF that(2)]] that unfolding rv_put_branch_def encode_branch_imm_def Let_def
    by (simp, elim disjE) (simp_all add: locate_bits small_sucs)
  show "rv_put_branch w d AND 0x01FFF07F = w AND 0x01FFF07F" for w d
    unfolding rv_put_branch_def encode_branch_imm_def Let_def
    by (rule word32_eqI, elim insertE) (simp_all add: locate_bits)
qed auto

interpretation rv_c_j: bit_field "\<lambda>w. ext64 (c_j_imm w)" rv_put_c_j 12 1 "0xE003" c_j_pos
proof
  show "bit (ext64 (c_j_imm w)) i \<longleftrightarrow> i < 64 \<and> 1 \<le> i \<and> bit w (c_j_pos (min i (12 - 1)))" for w i
    unfolding c_j_imm_def Let_def
    by (rule field_of_raw, frule less_field, simp, drule less_21, elim insertE) (simp_all add: locate_bits small_sucs)
  show "bit (rv_put_c_j w d) (c_j_pos i) \<longleftrightarrow> bit d i" if "1 \<le> i" "i < 12" for w d i
    using less_21 [OF less_field [OF that(2)]] that unfolding rv_put_c_j_def encode_c_j_imm_def Let_def
    by (simp, elim disjE) (simp_all add: locate_bits small_sucs)
  show "rv_put_c_j w d AND 0xE003 = w AND 0xE003" for w d
    unfolding rv_put_c_j_def encode_c_j_imm_def Let_def
    by (rule word16_eqI, elim insertE) (simp_all add: locate_bits)
qed auto

interpretation rv_c_branch: bit_field "\<lambda>w. ext64 (c_branch_imm w)" rv_put_c_branch 9 1 "0xE383" c_branch_pos
proof
  show "bit (ext64 (c_branch_imm w)) i \<longleftrightarrow> i < 64 \<and> 1 \<le> i \<and> bit w (c_branch_pos (min i (9 - 1)))" for w i
    unfolding c_branch_imm_def Let_def
    by (rule field_of_raw, frule less_field, simp, drule less_21, elim insertE) (simp_all add: locate_bits small_sucs)
  show "bit (rv_put_c_branch w d) (c_branch_pos i) \<longleftrightarrow> bit d i" if "1 \<le> i" "i < 9" for w d i
    using less_21 [OF less_field [OF that(2)]] that unfolding rv_put_c_branch_def encode_c_branch_imm_def Let_def
    by (simp, elim disjE) (simp_all add: locate_bits small_sucs)
  show "rv_put_c_branch w d AND 0xE383 = w AND 0xE383" for w d
    unfolding rv_put_c_branch_def encode_c_branch_imm_def Let_def
    by (rule word16_eqI, elim insertE) (simp_all add: locate_bits)
qed auto

section \<open>One instruction\<close>

lemma rv_word_cases:
  assumes "fst (rv_word_targets a w) \<noteq> []"
  shows "w AND 0x7F = 0x6F \<or> w AND 0x7F = 0x63"
  using assms by (auto simp: rv_word_targets_def decode_jalr_def decode_auipc_def decode_system_def Let_def
      split: if_splits)

lemma rv_word_moves:
  assumes p: "p = (ivs, ts, te)" and ok: "plan_ok p" and al: "plan_aligned 1 p"
    and a: "in_text p a" "2 ^ 1 dvd unat a - unat ts"
    and br: "fst (rv_word_targets a w) \<noteq> []"
    and t: "\<forall>t \<in> set (fst (rv_word_targets a w)). in_text p t"
  defines "w' \<equiv> (case rv_new_word a w ivs ts te of None \<Rightarrow> w | Some x \<Rightarrow> x)"
  shows "rv_word_targets (moved p a) w' = move_triple p (rv_word_targets a w)"
proof -
  have a2: "2 ^ 1 dvd unat a - unat (plan_lo p)" using a(2) by (simp add: p plan_lo_def)
  from rv_word_cases [OF br] show ?thesis
  proof
    assume op: "w AND 0x7F = 0x6F"
    then have new: "rv_new_word a w ivs ts te =
        map_option (rv_put_jal w) (rebase a (a + ext64 (jal_imm w)) ivs ts te)"
      by (simp add: rv_new_word_def)
    have it: "in_text p (a + ext64 (jal_imm w))"
      using t op by (simp add: rv_word_targets_def decode_jal_def Let_def)
    note r = rv_jal.rebased_map0 [OF p ok al a(1) a2 _ _ it new, folded w'_def]
    have k: "w' AND 0x00000FFF = w AND 0x00000FFF" using r by simp
    have "w' AND 0x7F = w AND 0x7F" "drop_bit 7 w' AND 0x1F = drop_bit 7 w AND 0x1F"
    proof -
      show "w' AND 0x7F = w AND 0x7F" by (rule mask_transfer [OF k]) simp
      have "drop_bit 7 x AND 0x1F = drop_bit 7 (x AND 0x00000FFF)" for x :: u32
        by (simp add: drop_bit_and)
      then show "drop_bit 7 w' AND 0x1F = drop_bit 7 w AND 0x1F" by (simp only: k)
    qed
    then show ?thesis using op r by (simp add: rv_word_targets_def decode_jal_def move_triple_def Let_def)
  next
    assume op: "w AND 0x7F = 0x63"
    then have new: "rv_new_word a w ivs ts te =
        map_option (rv_put_branch w) (rebase a (a + ext64 (branch_imm w)) ivs ts te)"
      by (simp add: rv_new_word_def)
    have it: "in_text p (a + ext64 (branch_imm w))"
      using t op by (simp add: rv_word_targets_def decode_branch_def)
    note r = rv_branch.rebased_map0 [OF p ok al a(1) a2 _ _ it new, folded w'_def]
    have k: "w' AND 0x01FFF07F = w AND 0x01FFF07F" using r by simp
    have "w' AND 0x7F = w AND 0x7F" by (rule mask_transfer [OF k]) simp
    then show ?thesis using op r by (simp add: rv_word_targets_def decode_branch_def move_triple_def)
  qed
qed

lemma rv_half_cases:
  assumes "fst (rv_half_targets a hw) \<noteq> []"
  shows "hw AND 0x03 = 1 \<and> (drop_bit 13 hw AND 0x07 = 5 \<or> drop_bit 13 hw AND 0x07 = 1)
    \<or> hw AND 0x03 = 1 \<and> (drop_bit 13 hw AND 0x07 = 6 \<or> drop_bit 13 hw AND 0x07 = 7)"
  using assms by (auto simp: rv_half_targets_def decode_c_jr_jalr_def Let_def split: if_splits)

lemma rv_half_moves:
  assumes p: "p = (ivs, ts, te)" and ok: "plan_ok p" and al: "plan_aligned 1 p"
    and a: "in_text p a" "2 ^ 1 dvd unat a - unat ts"
    and br: "fst (rv_half_targets a w) \<noteq> []"
    and t: "\<forall>t \<in> set (fst (rv_half_targets a w)). in_text p t"
  defines "w' \<equiv> (case rv_new_half a w ivs ts te of None \<Rightarrow> w | Some x \<Rightarrow> x)"
  shows "rv_half_targets (moved p a) w' = move_triple p (rv_half_targets a w)"
proof -
  have a2: "2 ^ 1 dvd unat a - unat (plan_lo p)" using a(2) by (simp add: p plan_lo_def)
  have kept: "x AND 0x03 = w AND 0x03 \<and> drop_bit 13 x AND 0x07 = drop_bit 13 w AND 0x07"
    if k: "x AND m = w AND m" and m: "m AND 0xE003 = 0xE003" for x m :: u16
  proof
    have e: "x AND 0xE003 = w AND 0xE003" by (rule mask_transfer [OF k m])
    show "x AND 0x03 = w AND 0x03" by (rule mask_transfer [OF e]) simp
    have "drop_bit 13 y AND 0x07 = drop_bit 13 (y AND 0xE003)" for y :: u16
      by (simp add: drop_bit_and)
    then show "drop_bit 13 x AND 0x07 = drop_bit 13 w AND 0x07" by (simp only: e)
  qed
  from rv_half_cases [OF br] show ?thesis
  proof (elim disjE [of "_ \<and> _" "_ \<and> _"])
    assume op: "w AND 0x03 = 1 \<and> (drop_bit 13 w AND 0x07 = 5 \<or> drop_bit 13 w AND 0x07 = 1)"
    then have new: "rv_new_half a w ivs ts te =
        map_option (rv_put_c_j w) (rebase a (a + ext64 (c_j_imm w)) ivs ts te)"
      by (simp add: rv_new_half_def Let_def)
    have it: "in_text p (a + ext64 (c_j_imm w))"
      using t op by (auto simp: rv_half_targets_def Let_def)
    note r = rv_c_j.rebased_map0 [OF p ok al a(1) a2 _ _ it new, folded w'_def]
    have "w' AND 0xE003 = w AND 0xE003" using r by simp
    from kept [OF this] show ?thesis
      using op r by (auto simp: rv_half_targets_def move_triple_def Let_def)
  next
    assume op: "w AND 0x03 = 1 \<and> (drop_bit 13 w AND 0x07 = 6 \<or> drop_bit 13 w AND 0x07 = 7)"
    then have new: "rv_new_half a w ivs ts te =
        map_option (rv_put_c_branch w) (rebase a (a + ext64 (c_branch_imm w)) ivs ts te)"
      by (auto simp: rv_new_half_def Let_def)
    have it: "in_text p (a + ext64 (c_branch_imm w))"
      using t op by (auto simp: rv_half_targets_def Let_def)
    note r = rv_c_branch.rebased_map0 [OF p ok al a(1) a2 _ _ it new, folded w'_def]
    have "w' AND 0xE383 = w AND 0xE383" using r by simp
    from kept [OF this] show ?thesis
      using op r by (auto simp: rv_half_targets_def move_triple_def Let_def)
  qed
qed

section \<open>A patched .text\<close>

definition rv_new_raw :: "decoded_instr \<Rightarrow> ival list \<Rightarrow> u64 \<Rightarrow> u64 \<Rightarrow> bytes" where
  "rv_new_raw i ivs ts te =
     (if i_len i = 4 \<and> 4 \<le> length (raw i) then
        case rv_new_word (i_addr i) (from_le (take 4 (raw i))) ivs ts te of
          None \<Rightarrow> raw i | Some w \<Rightarrow> splice_at (raw i) 0 (to_le 4 w)
      else if i_len i = 2 \<and> 2 \<le> length (raw i) then
        case rv_new_half (i_addr i) (from_le (take 2 (raw i))) ivs ts te of
          None \<Rightarrow> raw i | Some w \<Rightarrow> splice_at (raw i) 0 (to_le 2 w)
      else raw i)"

lemma rv_new_raw_length: "length (rv_new_raw i ivs ts te) = length (raw i)"
  by (simp add: rv_new_raw_def split: option.split)

lemma rv_patch_new:
  assumes ok: "vec_ok data" and st: "stored data secs i off"
  shows "rv_patch_one data i ivs secs ts te = Some (splice_at data off (rv_new_raw i ivs ts te))"
proof -
  obtain foff where f: "vaddr_to_offset (i_addr i) secs = Some foff" "unat foff = off"
    using st by (rule stored_mapped)
  have c: "\<not> data_len data < foff + of_nat n" if "n \<le> length (raw i)" for n
    using stored_check(1) [OF ok st that f(1)] .
  have w: "slice_put data foff bs = Some (splice_at data off (splice_at (raw i) 0 bs))"
    if "length bs \<le> length (raw i)" for bs
    using stored_put [OF ok st _ f(1), of 0 bs] that by simp
  show ?thesis
    using c [of 4] c [of 2]
    by (auto simp: rv_patch_one_def patch_one_32_def patch_one_16_def rv_new_raw_def f(1) w
        stored_same [OF st] not_le split: option.split)
qed

definition rv_valid :: "bytes \<Rightarrow> bool" where
  "rv_valid r \<longleftrightarrow> length r = 2 \<or> length r = 4"

definition rv_supported :: "plan \<Rightarrow> decoded_instr \<Rightarrow> bool" where
  "rv_supported p i \<longleftrightarrow> targets i \<noteq> []"

lemma rv_instr_fields: "rv_valid r \<Longrightarrow> i_addr (rv_instr a r) = a \<and> raw (rv_instr a r) = r"
  by (auto simp: rv_valid_def rv_instr_def decode_compressed_def decode_rv_word_def to_le_from_le
      split: prod.split)

lemma rv_instr_parts:
  "length r = 4 \<Longrightarrow> rv_instr a r = (case rv_word_targets a (from_le r) of (ts, pc_rel, f) \<Rightarrow>
      \<lparr>i_addr = a, raw = r, i_len = 4, targets = ts, pc_rel_target = pc_rel,
       is_call = (f = Call), flow = f\<rparr>)"
  "length r = 2 \<Longrightarrow> rv_instr a r = (case rv_half_targets a (from_le r) of (ts, pc_rel, f) \<Rightarrow>
      \<lparr>i_addr = a, raw = r, i_len = 2, targets = ts, pc_rel_target = pc_rel,
       is_call = (f = Call), flow = f\<rparr>)"
  by (simp_all add: rv_instr_def decode_compressed_def decode_rv_word_def to_le_from_le)

interpretation riscv: section_patcher rv_patch_one rv_new_raw rv_instr rv_supported rv_valid 1
proof
  show "length (rv_new_raw i ivs ts te) = length (raw i)" for i ivs ts te
    by (rule rv_new_raw_length)
  show "rv_patch_one data i ivs secs ts te = Some (splice_at data off (rv_new_raw i ivs ts te))"
    if "vec_ok data" "stored data secs i off" for data secs i off ivs ts te
    using that by (rule rv_patch_new)
  show "i_addr (rv_instr a r) = a \<and> raw (rv_instr a r) = r" if "rv_valid r" for a r
    using that by (rule rv_instr_fields)
  fix p ivs ts te a and r :: bytes
  assume p: "p = (ivs, ts, te)" "plan_ok p" "plan_aligned 1 p" "in_text p a" "2 ^ 1 dvd unat a - unat ts"
    and r: "rv_valid r" and s: "rv_supported p (rv_instr a r)"
    and t: "\<forall>t \<in> set (targets (rv_instr a r)). in_text p t"
  let ?i = "rv_instr a r"
  define n where "n = rv_new_raw ?i ivs ts te"
  note i = rv_instr_fields [OF r, of a]
  from r consider (four) "length r = 4" | (two) "length r = 2" by (auto simp: rv_valid_def)
  then have "rv_instr (moved p a) n = move_instr p n ?i"
  proof cases
    case four
    let ?w = "from_le r :: u32"
    let ?w' = "case rv_new_word a ?w ivs ts te of None \<Rightarrow> ?w | Some x \<Rightarrow> x"
    have d: "targets ?i = fst (rv_word_targets a ?w)" "i_len ?i = 4"
      by (simp_all add: rv_instr_parts(1) [OF four] split: prod.split)
    have l: "length n = 4" using four i by (simp add: n_def rv_new_raw_length)
    have n: "from_le n = ?w'"
      using four i d(2) by (simp add: n_def rv_new_raw_def splice_at_def from_le_to_le split: option.split)
    have "rv_word_targets (moved p a) ?w' = move_triple p (rv_word_targets a ?w)"
      using s t by (intro rv_word_moves [OF p]) (simp_all add: d rv_supported_def)
    then show ?thesis
      unfolding rv_instr_parts(1) [OF l] n rv_instr_parts(1) [OF four]
      by (simp add: move_instr_def move_triple_def split: prod.splits)
  next
    case two
    let ?w = "from_le r :: u16"
    let ?w' = "case rv_new_half a ?w ivs ts te of None \<Rightarrow> ?w | Some x \<Rightarrow> x"
    have d: "targets ?i = fst (rv_half_targets a ?w)" "i_len ?i = 2"
      by (simp_all add: rv_instr_parts(2) [OF two] split: prod.split)
    have l: "length n = 2" using two i by (simp add: n_def rv_new_raw_length)
    have n: "from_le n = ?w'"
      using two i d(2) by (simp add: n_def rv_new_raw_def splice_at_def from_le_to_le split: option.split)
    have "rv_half_targets (moved p a) ?w' = move_triple p (rv_half_targets a ?w)"
      using s t by (intro rv_half_moves [OF p]) (simp_all add: d rv_supported_def)
    then show ?thesis
      unfolding rv_instr_parts(2) [OF l] n rv_instr_parts(2) [OF two]
      by (simp add: move_instr_def move_triple_def split: prod.splits)
  qed
  then show "rv_instr (moved p a) (rv_new_raw ?i ivs ts te) = move_instr p (rv_new_raw ?i ivs ts te) ?i"
    unfolding n_def .
qed

lemma rv_section:
  assumes "vec_ok data" and "mapped data secs off vaddr sz"
  shows "decoded_section data secs off vaddr sz 1 rv_instr rv_valid (decode_text_riscv data off vaddr sz)"
  unfolding decode_text_riscv_def
  by (rule decode_loop_section [OF assms rv_instr_fields])
    (auto simp: rv_len_at_def rv_valid_def split: if_splits)

section \<open>AUIPC pairs\<close>

text \<open>The low halves, as fields of twelve bits.\<close>

definition s_type_pos :: "nat \<Rightarrow> nat" where
  "s_type_pos i = (if i \<le> 4 then i + 7 else i + 20)"

interpretation rv_i: bit_field i_type_imm "\<lambda>w d. encode_i_type_imm w (ucast d)" 12 0 "0x000FFFFF" "\<lambda>i. i + 20"
proof
  show "bit (i_type_imm w) i \<longleftrightarrow> i < 64 \<and> 0 \<le> i \<and> bit w (min i (12 - 1) + 20)" for w i
    unfolding i_type_imm_def by (rule field_of_raw) (simp_all add: bit_simps add.commute)
  show "bit (encode_i_type_imm w (ucast d)) (i + 20) \<longleftrightarrow> bit d i" if "0 \<le> i" "i < 12" for w d i
    using less_21 [OF less_field [OF that(2)]] that unfolding encode_i_type_imm_def
    by (simp, elim disjE) (simp_all add: locate_bits small_sucs)
  show "encode_i_type_imm w (ucast d) AND 0x000FFFFF = w AND 0x000FFFFF" for w d
    unfolding encode_i_type_imm_def
    by (rule word32_eqI, elim insertE) (simp_all add: locate_bits)
qed auto

interpretation rv_s: bit_field s_type_imm "\<lambda>w d. encode_s_type_imm w (ucast d)" 12 0 "0x01FFF07F" s_type_pos
proof
  show "bit (s_type_imm w) i \<longleftrightarrow> i < 64 \<and> 0 \<le> i \<and> bit w (s_type_pos (min i (12 - 1)))" for w i
    unfolding s_type_imm_def Let_def
    by (rule field_of_raw, frule less_field, simp, drule less_21, elim insertE)
      (simp_all add: locate_bits s_type_pos_def small_sucs)
  show "bit (encode_s_type_imm w (ucast d)) (s_type_pos i) \<longleftrightarrow> bit d i" if "0 \<le> i" "i < 12" for w d i
    using less_21 [OF less_field [OF that(2)]] that unfolding encode_s_type_imm_def Let_def
    by (simp, elim disjE) (simp_all add: locate_bits s_type_pos_def small_sucs)
  show "encode_s_type_imm w (ucast d) AND 0x01FFF07F = w AND 0x01FFF07F" for w d
    unfolding encode_s_type_imm_def Let_def
    by (rule word32_eqI, elim insertE) (simp_all add: locate_bits)
qed auto

lemma lo_imm_put:
  assumes "disp_fits 12 0 l"
  shows "lo_imm (put_lo_imm pw (ucast l)) = l" and "put_lo_imm pw (ucast l) AND 0x000F807F = pw AND 0x000F807F"
proof -
  have k: "put_lo_imm pw (ucast l) AND 0x000FF07F = pw AND 0x000FF07F"
    by (simp add: put_lo_imm_def rv_i.put_keep_sub rv_s.put_keep_sub)
  then show "put_lo_imm pw (ucast l) AND 0x000F807F = pw AND 0x000F807F"
    by (rule mask_transfer) simp
  have "put_lo_imm pw (ucast l) AND 0x7F = pw AND 0x7F" by (rule mask_transfer [OF k]) simp
  then show "lo_imm (put_lo_imm pw (ucast l)) = l"
    using rv_i.get_put [OF assms] rv_s.get_put [OF assms]
    by (simp add: lo_imm_def) (simp add: put_lo_imm_def)
qed

lemma high_part:
  assumes "disp_fits 32 0 e"
  shows "ext64 (ucast (sar e 12)) = sar e 12"
    and "auipc_offset ((aw AND 0x00000FFF) OR push_bit 12 (ucast (sar e 12))) = push_bit 12 (sar e 12)"
    and "push_bit 12 (sar e 12) = push_bit 12 (drop_bit 12 e)"
proof -
  have e: "bit e i = bit e 31" if "31 \<le> i" "i < 64" for i
  proof -
    have "\<forall>i < 64. bit e i \<longleftrightarrow> 0 \<le> i \<and> bit e (min i (32 - 1))"
      by (rule iffD1 [OF disp_fits_iff_bits assms]) simp_all
    then have "bit e i \<longleftrightarrow> 0 \<le> i \<and> bit e (min i (32 - 1))" using that(2) by blast
    moreover have "min i (32 - 1) = 31" using that(1) by simp
    ultimately show ?thesis by (simp only: le0 simp_thms)
  qed
  have s: "bit (sar e 12) i \<longleftrightarrow> i < 64 \<and> bit e (if i \<le> 19 then i + 12 else 31)" for i
  proof (cases "i < 64")
    case True
    then have "bit (sar e 12) i = bit e (if 52 \<le> i then 63 else 12 + i)"
      by (simp add: sar_def bit_signed_drop_bit_iff)
    moreover have "bit e (12 + i) = bit e 31" if "19 \<le> i" "i < 52"
      by (rule e) (use that in auto)
    moreover have "bit e 63 = bit e 31" by (rule e) auto
    ultimately show ?thesis using True by (auto simp: add.commute)
  next
    case False
    then show ?thesis using bit_imp_le_length [of "sar e 12" i] by auto
  qed
  show "ext64 (ucast (sar e 12)) = sar e 12"
    by (rule bit_word_eqI) (auto simp: bit_ext64 bit_simps s min_def)
  have m: "(0xFFFFF000 :: u32) = NOT (mask 12)" "(0x00000FFF :: u32) = mask 12"
    by (simp_all add: mask_eq_exp_minus_1)
  show "auipc_offset ((aw AND 0x00000FFF) OR push_bit 12 (ucast (sar e 12))) = push_bit 12 (sar e 12)"
    unfolding auipc_offset_def m
    by (rule bit_word_eqI) (auto simp: bit_ext64 bit_simps s min_def not_le)
  show "push_bit 12 (sar e 12) = push_bit 12 (drop_bit 12 e)"
    by (rule bit_word_eqI) (auto simp: bit_simps sar_def)
qed

text \<open>The two halves add up to the displacement they were split from.\<close>

lemma pair_words_sum:
  assumes "- (2 ^ 31) \<le> sint (d + 0x800)" and "sint (d + 0x800) < 2 ^ 31"
    and "pair_words aw pw d = (aw', pw')"
  shows "auipc_offset aw' + lo_imm pw' = d" and "aw' AND 0x00000FFF = aw AND 0x00000FFF"
    and "pw' AND 0x000F807F = pw AND 0x000F807F"
proof -
  define e where "e = d + 0x800"
  have e: "disp_fits 32 0 e" using assms by (simp add: disp_fits_def e_def)
  note h = high_part [OF e]
  define l where "l = d - push_bit 12 (sar e 12)"
  have aw': "aw' = (aw AND 0x00000FFF) OR push_bit 12 (ucast (sar e 12))"
    and pw': "pw' = put_lo_imm pw (ucast l)"
    using assms(3) h(1) by (simp_all add: pair_words_def Let_def e_def l_def)
  have "l = take_bit 12 e - 0x800"
    using bits_ident [of 12 e] h(3) by (simp add: l_def e_def algebra_simps)
  moreover have "uint (take_bit 12 e) < 4096"
    using take_bit_int_less_exp [of 12 "uint e"] by (simp add: unsigned_take_bit_eq)
  moreover from this have "sint (take_bit 12 e) = uint (take_bit 12 e)"
    unfolding sint_uint
    by (intro signed_take_bit_int_eq_self order_trans [OF _ uint_ge_0]) simp_all
  ultimately have "disp_fits 12 0 l"
    using sint_sub_small [of "take_bit 12 e" "0x800"] by (simp add: disp_fits_def)
  note lo = lo_imm_put [OF this, of pw]
  show "auipc_offset aw' + lo_imm pw' = d" by (simp only: aw' h(2) pw' lo(1)) (simp add: l_def)
  have m: "(0x00000FFF :: u32) = mask 12" by (simp add: mask_eq_exp_minus_1)
  show "aw' AND 0x00000FFF = aw AND 0x00000FFF"
    unfolding aw' m by (rule bit_word_eqI) (auto simp: bit_simps)
  show "pw' AND 0x000F807F = pw AND 0x000F807F" by (simp only: pw' lo(2))
qed

end
