(* ===== verification/RiscV_Pairs.thy ===== *)
theory RiscV_Pairs
  imports RiscV
begin

text \<open>
  The two passes of \<open>src/arch/riscv_patch.rs\<close> over a whole .text: what \<open>patch_auipc_pairs\<close> finds
  and writes, that distinct AUIPC instructions have distinct users, that the passes touch disjoint
  bytes, and what the file computes after both.
\<close>

section \<open>The pairs that are found\<close>

text \<open>What \<open>find_auipc_pair\<close> finds: a later instruction that uses the register, with no
  instruction between that overwrites it.\<close>

definition base_user :: "decoded_instr \<Rightarrow> u32 \<Rightarrow> bool" where
  "base_user i rd \<longleftrightarrow> i_len i = 4 \<and> 4 \<le> length (raw i) \<and>
     (let w = from_le (take 4 (raw i)) :: u32
      in w AND 0x7F \<in> {0x67, 0x03, 0x13, 0x23} \<and> drop_bit 15 w AND 0x1F = rd)"

definition sets_reg :: "decoded_instr \<Rightarrow> u32 \<Rightarrow> bool" where
  "sets_reg i rd \<longleftrightarrow> i_len i = 4 \<and> 4 \<le> length (raw i) \<and>
     (let w = from_le (take 4 (raw i)) :: u32
      in w AND 0x7F = 0x17 \<and> drop_bit 7 w AND 0x1F = rd)"

lemma find_pair_loop_Some:
  assumes "find_pair_loop instrs x rd offs = Some j"
  shows "\<exists>pre off post. offs = pre @ off # post \<and> j = x + off \<and> base_user (instrs ! j) rd
    \<and> (\<forall>o1 \<in> set pre. \<not> sets_reg (instrs ! (x + o1)) rd)"
  using assms
proof (induction offs)
  case (Cons off offs)
  let ?i = "instrs ! (x + off)"
  show ?case
  proof (cases "base_user ?i rd")
    case True
    then have "j = x + off"
      using Cons.prems by (auto simp: base_user_def Let_def split: if_splits)
    then show ?thesis using True by (intro exI [of _ "[]"]) auto
  next
    case False
    then have "find_pair_loop instrs x rd offs = Some j" and "\<not> sets_reg ?i rd"
      using Cons.prems by (auto simp: base_user_def sets_reg_def Let_def split: if_splits)
    with Cons.IH obtain pre o2 post where "offs = pre @ o2 # post" "j = x + o2"
      "base_user (instrs ! j) rd" "\<forall>o1 \<in> set pre. \<not> sets_reg (instrs ! (x + o1)) rd" by blast
    then show ?thesis using \<open>\<not> sets_reg ?i rd\<close> by (intro exI [of _ "off # pre"]) auto
  qed
qed simp

lemma find_auipc_pair_Some:
  assumes "find_auipc_pair instrs x rd = Some j"
  shows "x < j \<and> j < length instrs \<and> base_user (instrs ! j) rd
    \<and> (\<forall>m. x < m \<and> m < j \<longrightarrow> \<not> sets_reg (instrs ! m) rd)"
proof -
  define limit where "limit = min 4 (length instrs - (x + 1))"
  obtain pre off post where o: "[1..<limit + 1] = pre @ off # post" "j = x + off"
    "base_user (instrs ! j) rd" "\<forall>o1 \<in> set pre. \<not> sets_reg (instrs ! (x + o1)) rd"
    using find_pair_loop_Some [of instrs x rd "[1..<limit + 1]" j] assms
    unfolding find_auipc_pair_def limit_def Let_def by auto
  have off: "off = length pre + 1" and lo: "off \<le> limit"
  proof -
    have l: "length pre < length [1..<limit + 1]" by (simp only: o(1)) simp
    have "off = [1..<limit + 1] ! length pre" by (simp only: o(1)) simp
    then show "off = length pre + 1"
      using l nth_upt [of 1 "length pre" "limit + 1"] by (simp del: upt_Suc)
    then show "off \<le> limit" using l by (simp del: upt_Suc)
  qed
  have pre: "set pre = {1..<off}"
  proof -
    have "pre = take (length pre) [1..<limit + 1]" by (simp only: o(1)) simp
    also have "\<dots> = [1..<off]" using off lo by (simp add: take_upt del: upt_Suc)
    finally show ?thesis by (metis set_upt)
  qed
  have "\<not> sets_reg (instrs ! m) rd" if "x < m" "m < j" for m
  proof -
    have "m - x \<in> set pre" using that o(2) by (auto simp: pre)
    then show ?thesis using o(4) that(1) by fastforce
  qed
  moreover have "x < j" using off o(2) by simp
  moreover have "j < length instrs" using o(2) off lo by (auto simp: limit_def)
  ultimately show ?thesis using o(3) by blast
qed

lemma find_auipc_pair_inj:
  assumes "find_auipc_pair instrs x rd = Some j" and "find_auipc_pair instrs y rd' = Some j"
    and "sets_reg (instrs ! x) rd" and "sets_reg (instrs ! y) rd'"
  shows "x = y"
proof -
  note X = find_auipc_pair_Some [OF assms(1)] and Y = find_auipc_pair_Some [OF assms(2)]
  have "rd = rd'" using X Y by (auto simp: base_user_def Let_def)
  then show ?thesis using X Y assms(3,4) by (metis linorder_neqE_nat)
qed

text \<open>One pair.\<close>

lemma do_patch_auipc_pair_result:
  assumes ok: "vec_ok data" and st: "stored data0 secs A oa" "stored data0 secs B ob"
    and len: "length data = length data0" "length (raw A) = 4" "length (raw B) = 4"
    and dis: "file_range secs A \<inter> file_range secs B = {}" and p: "p = (ivs, ts, te)"
  defines "T \<equiv> i_addr A + auipc_offset (from_le (raw A)) + lo_imm (from_le (raw B))"
  shows "\<exists>d. do_patch_auipc_pair data A B ivs secs ts te = Some d \<and> length d = length data
    \<and> (\<forall>k < length data. k \<notin> file_range secs A \<union> file_range secs B \<longrightarrow> d ! k = data ! k)
    \<and> (plan_shift p (i_addr A) \<noteq> plan_shift p T \<longrightarrow>
        (from_le (take 4 (drop oa d)), from_le (take 4 (drop ob d)))
          = pair_words (from_le (raw A)) (from_le (raw B)) (moved p T - moved p (i_addr A)))
    \<and> (plan_shift p (i_addr A) = plan_shift p T \<longrightarrow> d = data)"
proof -
  obtain fa where fa: "vaddr_to_offset (i_addr A) secs = Some fa" "unat fa = oa"
    using st(1) by (rule stored_mapped)
  obtain fb where fb: "vaddr_to_offset (i_addr B) secs = Some fb" "unat fb = ob"
    using st(2) by (rule stored_mapped)
  have ok0: "vec_ok data0" using ok len(1) by (simp add: vec_ok_def)
  have c: "\<not> data_len data < fa + 4" "\<not> data_len data < fb + 4"
    using stored_check(1) [OF ok0 st(1) _ fa(1), of 4] stored_check(1) [OF ok0 st(2) _ fb(1), of 4] len
    by (simp_all add: data_len_def)
  have l: "oa + 4 \<le> length data" "ob + 4 \<le> length data" using st len by (simp_all add: stored_def)
  note ra = stored_range [OF st(1), unfolded len(2)] and rb = stored_range [OF st(2), unfolded len(3)]
  have put: "slice_put d f bs = Some (splice_at d (unat f) bs)"
    if "length d = length data" "unat f + 4 \<le> length data" "length bs = 4" for d f bs
    using slice_put_ok [of f bs d] that ok by (simp add: vec_ok_def)
  have reb: "rebase (i_addr A) T ivs ts te =
      (if plan_shift p (i_addr A) = plan_shift p T then None else Some (moved p T - moved p (i_addr A)))"
    by (rule rebase_moved [OF p])
  show ?thesis
  proof (cases "plan_shift p (i_addr A) = plan_shift p T")
    case True
    then show ?thesis
      using c reb len by (simp add: do_patch_auipc_pair_def fa(1) fb(1) T_def)
  next
    case False
    obtain aw pw where w: "pair_words (from_le (raw A)) (from_le (raw B)) (moved p T - moved p (i_addr A)) = (aw, pw)"
      by fastforce
    define d where "d = splice_at (splice_at data oa (to_le 4 aw)) ob (to_le 4 pw)"
    have "do_patch_auipc_pair data A B ivs secs ts te = Some d"
      using False c reb len w l put [of _ fa] put [of _ fb]
      by (simp add: do_patch_auipc_pair_def fa fb T_def d_def)
    moreover have ld: "length d = length data" using l by (simp add: d_def)
    moreover have nth: "d ! k = (if k \<in> {ob..<ob + 4} then to_le 4 pw ! (k - ob)
        else if k \<in> {oa..<oa + 4} then to_le 4 aw ! (k - oa) else data ! k)" if "k < length data" for k
      using that l by (auto simp: d_def nth_splice)
    moreover have "take 4 (drop ob d) = to_le 4 pw"
      using take_drop_splice [of ob "to_le 4 pw" "splice_at data oa (to_le 4 aw)"] l by (simp add: d_def)
    moreover have "take 4 (drop oa d) = to_le 4 aw"
    proof -
      have "take 4 (drop oa d) = take 4 (drop oa (splice_at data oa (to_le 4 aw)))"
      proof (rule take_drop_cong)
        fix k assume "oa \<le> k" "k < oa + 4"
        moreover from this have "k \<notin> {ob..<ob + 4}" using dis ra rb by auto
        ultimately show "d ! k = splice_at data oa (to_le 4 aw) ! k"
          using nth [of k] l by (auto simp: nth_splice)
      qed (use l ld in simp_all)
      then show ?thesis using take_drop_splice [of oa "to_le 4 aw" data] l by simp
    qed
    ultimately show ?thesis using False ra rb by (intro exI [of _ d]) (auto simp: w from_le_to_le)
  qed
qed

text \<open>The entries of a decoded section.\<close>

lemma sets_reg_auipc:
  "rv_valid r \<Longrightarrow> i = rv_instr a r \<Longrightarrow> sets_reg i rd \<Longrightarrow> length (raw i) = 4 \<and> targets i = []"
  by (auto simp: sets_reg_def rv_valid_def rv_instr_parts rv_word_targets_def decode_auipc_def Let_def
      split: prod.splits)

lemma base_user_plain:
  "rv_valid r \<Longrightarrow> i = rv_instr a r \<Longrightarrow> base_user i rd \<Longrightarrow>
     length (raw i) = 4 \<and> targets i = [] \<and> \<not> sets_reg i rd'"
  by (auto simp: base_user_def sets_reg_def rv_valid_def rv_instr_parts rv_word_targets_def decode_jalr_def
      Let_def split: prod.splits)

lemma rv_patch_plain:
  assumes "rv_valid r" and "targets (rv_instr a r) = []"
  shows "rv_patch_one data (rv_instr a r) ivs secs ts te = Some data"
proof -
  consider "length r = 4" | "length r = 2" using assms(1) by (auto simp: rv_valid_def)
  then show ?thesis
  proof cases
    case 1
    then have "rv_new_word a (from_le r) ivs ts te = None"
      using assms(2) by (auto simp: rv_instr_parts rv_new_word_def rv_word_targets_def decode_jal_def
          decode_branch_def Let_def split: prod.splits)
    then show ?thesis using 1
      by (auto simp: rv_instr_parts rv_patch_one_def patch_one_32_def split: prod.split option.split)
  next
    case 2
    then have "rv_new_half a (from_le r) ivs ts te = None"
      using assms(2) by (auto simp: rv_instr_parts rv_new_half_def rv_half_targets_def Let_def
          split: prod.splits)
    then show ?thesis using 2
      by (auto simp: rv_instr_parts rv_patch_one_def patch_one_16_def split: prod.split option.split)
  qed
qed

text \<open>A live AUIPC with its user, as the loop finds them.\<close>

definition auipc_pair :: "decoded_instr list \<Rightarrow> ival list \<Rightarrow> nat \<Rightarrow> nat \<Rightarrow> bool" where
  "auipc_pair instrs ivs x j \<longleftrightarrow> x < length instrs \<and> \<not> in_dead_range (i_addr (instrs ! x)) ivs \<and>
     (\<exists>rd. rd \<noteq> 0 \<and> sets_reg (instrs ! x) rd \<and> find_auipc_pair instrs x rd = Some j)"

lemma patch_auipc_at_pair:
  assumes "auipc_pair instrs ivs x j"
  shows "patch_auipc_at instrs ivs secs ts te x data =
    do_patch_auipc_pair data (instrs ! x) (instrs ! j) ivs secs ts te"
  using assms by (auto simp: auipc_pair_def patch_auipc_at_def sets_reg_def Let_def)

lemma patch_auipc_at_other:
  assumes "x < length instrs" and "\<nexists>j. auipc_pair instrs ivs x j"
  shows "patch_auipc_at instrs ivs secs ts te x data = Some data"
  using assms by (auto simp: auipc_pair_def patch_auipc_at_def sets_reg_def Let_def split: option.split)

lemma auipc_pair_inj:
  "auipc_pair instrs ivs x j \<Longrightarrow> auipc_pair instrs ivs y j \<Longrightarrow> x = y"
  unfolding auipc_pair_def using find_auipc_pair_inj by blast

lemma apart_nth:
  assumes "apart secs instrs" and "x < length instrs" and "y < length instrs" and "x \<noteq> y"
  shows "file_range secs (instrs ! x) \<inter> file_range secs (instrs ! y) = {}"
proof -
  note lt = sorted_wrt_nth_less [OF assms(1) [unfolded apart_def]]
  from assms(4) consider "x < y" | "y < x" by linarith
  then show ?thesis using lt assms(2,3) by cases (auto simp: Int_commute)
qed

text \<open>What the new words of a pair compute.\<close>

definition pair_done :: "decoded_instr list \<Rightarrow> plan \<Rightarrow> sect list \<Rightarrow> bytes \<Rightarrow> nat \<Rightarrow> nat \<Rightarrow> bool" where
  "pair_done instrs p secs d x j \<longleftrightarrow>
     (let A = instrs ! x; B = instrs ! j;
          aw = from_le (raw A); pw = from_le (raw B);
          T = i_addr A + auipc_offset aw + lo_imm pw;
          D = moved p T - moved p (i_addr A)
      in \<forall>oa ob. vaddr_to_offset (i_addr A) secs = Some oa \<longrightarrow> vaddr_to_offset (i_addr B) secs = Some ob \<longrightarrow>
         - (2 ^ 31) \<le> sint (D + 0x800) \<longrightarrow> sint (D + 0x800) < 2 ^ 31 \<longrightarrow>
         (let aw' = from_le (take 4 (drop (unat oa) d)); pw' = from_le (take 4 (drop (unat ob) d))
          in moved p (i_addr A) + auipc_offset aw' + lo_imm pw' = moved p T
             \<and> aw' AND 0x00000FFF = aw AND 0x00000FFF \<and> pw' AND 0x000F807F = pw AND 0x000F807F))"

lemma new_pair_done:
  assumes st: "stored data0 secs (instrs ! x) oa" "stored data0 secs (instrs ! j) ob"
    and len: "length (raw (instrs ! x)) = 4" "length (raw (instrs ! j)) = 4" "length d = length data0"
    and d': "plan_shift p (i_addr (instrs ! x)) \<noteq> plan_shift p T \<longrightarrow>
      (from_le (take 4 (drop oa d')), from_le (take 4 (drop ob d')))
        = pair_words (from_le (raw (instrs ! x))) (from_le (raw (instrs ! j))) (moved p T - moved p (i_addr (instrs ! x)))"
      "plan_shift p (i_addr (instrs ! x)) = plan_shift p T \<longrightarrow>
        take 4 (drop oa d') = raw (instrs ! x) \<and> take 4 (drop ob d') = raw (instrs ! j)"
    and T: "T = i_addr (instrs ! x) + auipc_offset (from_le (raw (instrs ! x))) + lo_imm (from_le (raw (instrs ! j)))"
  shows "pair_done instrs p secs d' x j"
proof -
  have un: "unat fa = oa" "unat fb = ob" if "vaddr_to_offset (i_addr (instrs ! x)) secs = Some fa"
      "vaddr_to_offset (i_addr (instrs ! j)) secs = Some fb" for fa fb
    using st that by (simp_all add: stored_def)
  let ?a = "i_addr (instrs ! x)"
  let ?aw = "from_le (take 4 (drop oa d')) :: u32" and ?pw = "from_le (take 4 (drop ob d')) :: u32"
  have "moved p ?a + auipc_offset ?aw + lo_imm ?pw = moved p T
      \<and> ?aw AND 0x00000FFF = from_le (raw (instrs ! x)) AND 0x00000FFF
      \<and> ?pw AND 0x000F807F = from_le (raw (instrs ! j)) AND 0x000F807F"
    if r: "- (2 ^ 31) \<le> sint (moved p T - moved p ?a + 0x800)" "sint (moved p T - moved p ?a + 0x800) < 2 ^ 31"
  proof (cases "plan_shift p ?a = plan_shift p T")
    case True
    then show ?thesis using d'(2) by (simp add: T moved_def)
  next
    case False
    with d'(1) have "pair_words (from_le (raw (instrs ! x))) (from_le (raw (instrs ! j)))
        (moved p T - moved p ?a) = (?aw, ?pw)" by simp
    note w = pair_words_sum [OF r this]
    have "moved p ?a + auipc_offset ?aw + lo_imm ?pw = moved p ?a + (auipc_offset ?aw + lo_imm ?pw)" by simp
    also have "\<dots> = moved p T" by (simp only: w(1)) simp
    finally show ?thesis using w by simp
  qed
  then show ?thesis using un by (auto simp: pair_done_def Let_def T)
qed

text \<open>The entries of a section, stored in the file apart from each other.\<close>

definition rv_entries :: "decoded_instr list \<Rightarrow> sect list \<Rightarrow> bytes \<Rightarrow> bool" where
  "rv_entries instrs secs data0 \<longleftrightarrow> vec_ok data0 \<and> apart secs instrs
     \<and> (\<forall>i \<in> set instrs. \<exists>a r off. rv_valid r \<and> i = rv_instr a r \<and> stored data0 secs i off)"

lemma rv_entriesD:
  assumes "rv_entries instrs secs data0"
  shows "vec_ok data0" and "apart secs instrs"
    and "i \<in> set instrs \<Longrightarrow> \<exists>a r off. rv_valid r \<and> i = rv_instr a r \<and> stored data0 secs i off"
  using assms unfolding rv_entries_def by blast+

lemma pair_facts:
  assumes E: "rv_entries instrs secs data0"
    and pr: "auipc_pair instrs ivs x j"
  obtains oa ob where "stored data0 secs (instrs ! x) oa" and "stored data0 secs (instrs ! j) ob"
    and "x < length instrs" and "j < length instrs"
    and "length (raw (instrs ! x)) = 4" and "length (raw (instrs ! j)) = 4"
    and "targets (instrs ! x) = []" and "targets (instrs ! j) = []"
    and "x \<noteq> j" and "\<nexists>k. auipc_pair instrs ivs j k"
proof -
  obtain rd where x: "x < length instrs" "sets_reg (instrs ! x) rd" and "find_auipc_pair instrs x rd = Some j"
    using pr by (auto simp: auipc_pair_def)
  note f = find_auipc_pair_Some [OF this(3)]
  obtain a r oa where A: "rv_valid r" "instrs ! x = rv_instr a r" "stored data0 secs (instrs ! x) oa"
    using rv_entriesD(3) [OF E] x(1) nth_mem by blast
  obtain b s ob where B: "rv_valid s" "instrs ! j = rv_instr b s" "stored data0 secs (instrs ! j) ob"
    using rv_entriesD(3) [OF E] f nth_mem by blast
  have "base_user (instrs ! j) rd" using f by blast
  note u = base_user_plain [OF B(1,2) this]
  have "\<nexists>k. auipc_pair instrs ivs j k" using u by (auto simp: auipc_pair_def)
  then show thesis
    using that [OF A(3) B(3) x(1)] sets_reg_auipc [OF A(1,2) x(2)] u f by blast
qed

definition pair_range :: "decoded_instr list \<Rightarrow> sect list \<Rightarrow> nat \<Rightarrow> nat \<Rightarrow> nat set" where
  "pair_range instrs secs x j = file_range secs (instrs ! x) \<union> file_range secs (instrs ! j)"

definition touched :: "decoded_instr list \<Rightarrow> ival list \<Rightarrow> sect list \<Rightarrow> nat \<Rightarrow> nat set" where
  "touched instrs ivs secs n = (\<Union>x \<in> {..<n}. \<Union>j \<in> {j. auipc_pair instrs ivs x j}. pair_range instrs secs x j)"

definition pairs_inv ::
  "decoded_instr list \<Rightarrow> sect list \<Rightarrow> bytes \<Rightarrow> plan \<Rightarrow> nat \<Rightarrow> bytes \<Rightarrow> bool" where
  "pairs_inv instrs secs data0 p n d \<longleftrightarrow> length d = length data0
     \<and> (\<forall>k < length d. k \<notin> touched instrs (fst p) secs n \<longrightarrow> d ! k = data0 ! k)
     \<and> (\<forall>x j. x < n \<longrightarrow> auipc_pair instrs (fst p) x j \<longrightarrow> pair_done instrs p secs d x j)"

lemma touched_mono: "touched instrs ivs secs n \<subseteq> touched instrs ivs secs (Suc n)"
  by (auto simp: touched_def less_Suc_eq)

lemma pair_ranges_disjoint:
  assumes E: "rv_entries instrs secs data0"
    and x: "auipc_pair instrs ivs x j" and y: "auipc_pair instrs ivs y k" and ne: "x \<noteq> y"
  shows "pair_range instrs secs x j \<inter> pair_range instrs secs y k = {}"
proof -
  have X: "x < length instrs" "j < length instrs" "\<nexists>m. auipc_pair instrs ivs j m"
    using pair_facts [OF E x] by metis+
  have Y: "y < length instrs" "k < length instrs" "\<nexists>m. auipc_pair instrs ivs k m"
    using pair_facts [OF E y] by metis+
  have "x \<noteq> k" "j \<noteq> y" "j \<noteq> k" using X Y x y ne auipc_pair_inj by blast+
  then show ?thesis
    using apart_nth [OF rv_entriesD(2) [OF E]] X Y ne unfolding pair_range_def Int_Un_distrib Int_Un_distrib2 by simp
qed

lemma pair_done_frame:
  assumes E: "rv_entries instrs secs data0"
    and x: "auipc_pair instrs ivs x j" and d: "pair_done instrs (ivs, ts, te) secs d x j"
    and l: "length d' = length d"
    and eq: "\<And>k. k < length d \<Longrightarrow> k \<in> pair_range instrs secs x j \<Longrightarrow> d' ! k = d ! k"
  shows "pair_done instrs (ivs, ts, te) secs d' x j"
proof -
  obtain oa ob where st: "stored data0 secs (instrs ! x) oa" "stored data0 secs (instrs ! j) ob"
    "length (raw (instrs ! x)) = 4" "length (raw (instrs ! j)) = 4"
    using pair_facts [OF E x] by metis
  note r = stored_range [OF st(1), unfolded st(3)] stored_range [OF st(2), unfolded st(4)]
  have "take 4 (drop oa d') = take 4 (drop oa d)" "take 4 (drop ob d') = take 4 (drop ob d)"
    by (rule take_drop_cong [OF l], rule eq, simp, use r in \<open>auto simp: pair_range_def\<close>)+
  moreover have "unat fa = oa" if "vaddr_to_offset (i_addr (instrs ! x)) secs = Some fa" for fa
    using st(1) that by (simp add: stored_def)
  moreover have "unat fb = ob" if "vaddr_to_offset (i_addr (instrs ! j)) secs = Some fb" for fb
    using st(2) that by (simp add: stored_def)
  ultimately show ?thesis using d by (simp add: pair_done_def Let_def)
qed

lemma pairs_step:
  assumes E: "rv_entries instrs secs data0"
    and I: "pairs_inv instrs secs data0 (ivs, ts, te) n d" and n: "n < length instrs"
  shows "\<exists>d'. patch_auipc_at instrs ivs secs ts te n d = Some d' \<and> pairs_inv instrs secs data0 (ivs, ts, te) (Suc n) d'"
proof (cases "\<exists>j. auipc_pair instrs ivs n j")
  case False
  then show ?thesis
    using patch_auipc_at_other [OF n] I touched_mono [of instrs ivs secs n]
    by (auto simp: pairs_inv_def less_Suc_eq subset_iff)
next
  case True
  then obtain j where j: "auipc_pair instrs ivs n j" by blast
  let ?A = "instrs ! n" and ?B = "instrs ! j" and ?p = "(ivs, ts, te)"
  obtain oa ob where f: "stored data0 secs ?A oa" "stored data0 secs ?B ob"
    "j < length instrs" "length (raw ?A) = 4" "length (raw ?B) = 4"
    "targets ?A = []" "targets ?B = []" "n \<noteq> j" "\<nexists>k. auipc_pair instrs ivs j k"
    using pair_facts [OF E j] by metis
  have ok: "vec_ok d" using I rv_entriesD(1) [OF E] by (simp add: pairs_inv_def vec_ok_def)
  have len: "length d = length data0" using I by (simp add: pairs_inv_def)
  have un: "pair_range instrs secs n j \<inter> touched instrs ivs secs n = {}"
    using pair_ranges_disjoint [OF E j] unfolding touched_def by fastforce
  then have same: "d ! k = data0 ! k" if "k \<in> pair_range instrs secs n j" "k < length d" for k
    using I that by (auto simp: pairs_inv_def)
  note r = stored_range [OF f(1), unfolded f(4)] stored_range [OF f(2), unfolded f(5)]
  have raws: "take 4 (drop oa d) = raw ?A" "take 4 (drop ob d) = raw ?B"
  proof -
    have "take 4 (drop oa d) = take 4 (drop oa data0)" "take 4 (drop ob d) = take 4 (drop ob data0)"
      by (rule take_drop_cong [OF len], rule same, use r len in \<open>auto simp: pair_range_def\<close>)+
    then show "take 4 (drop oa d) = raw ?A" "take 4 (drop ob d) = raw ?B"
      using f(1,2,4,5) by (simp_all add: stored_def)
  qed
  define T where "T = i_addr ?A + auipc_offset (from_le (raw ?A)) + lo_imm (from_le (raw ?B))"
  obtain d' where d': "do_patch_auipc_pair d ?A ?B ivs secs ts te = Some d'" "length d' = length d"
    "\<forall>k < length d. k \<notin> pair_range instrs secs n j \<longrightarrow> d' ! k = d ! k"
    and w: "plan_shift ?p (i_addr ?A) \<noteq> plan_shift ?p T \<longrightarrow>
      (from_le (take 4 (drop oa d')), from_le (take 4 (drop ob d')))
        = pair_words (from_le (raw ?A)) (from_le (raw ?B)) (moved ?p T - moved ?p (i_addr ?A))"
    "plan_shift ?p (i_addr ?A) = plan_shift ?p T \<longrightarrow> d' = d"
    using do_patch_auipc_pair_result [OF ok f(1,2) len f(4,5) apart_nth [OF rv_entriesD(2) [OF E] n f(3,8)] refl]
    unfolding pair_range_def T_def by blast
  have fin: "pair_done instrs ?p secs d' n j"
    using w raws by (intro new_pair_done [OF f(1,2,4,5) d'(2) [unfolded len] w(1) _ T_def]) simp
  have "pair_done instrs ?p secs d' x k" if x: "x < n" "auipc_pair instrs ivs x k" for x k
  proof (rule pair_done_frame [OF E x(2) _ d'(2)])
    show "pair_done instrs ?p secs d x k" using I x by (simp add: pairs_inv_def)
    have "x \<noteq> n" using x(1) by simp
    then show "d' ! m = d ! m" if "m < length d" "m \<in> pair_range instrs secs x k" for m
      using d'(3) that pair_ranges_disjoint [OF E x(2) j] by blast
  qed
  moreover have "d' ! k = data0 ! k" if "k < length d'" "k \<notin> touched instrs ivs secs (Suc n)" for k
  proof -
    have "k \<notin> touched instrs ivs secs n" "k \<notin> pair_range instrs secs n j"
      using that(2) touched_mono [of instrs ivs secs n] j by (auto simp: touched_def less_Suc_eq)
    then show ?thesis using I d'(2,3) that(1) by (simp add: pairs_inv_def)
  qed
  moreover have "j' = j" if "auipc_pair instrs ivs n j'" for j'
    using that j by (auto simp: auipc_pair_def sets_reg_def Let_def)
  ultimately have "pairs_inv instrs secs data0 (ivs, ts, te) (Suc n) d'"
    using I d'(2) fin unfolding pairs_inv_def less_Suc_eq by auto
  then show ?thesis using d'(1) patch_auipc_at_pair [OF j] by auto
qed

lemma pairs_patched:
  assumes E: "rv_entries instrs secs data0"
  shows "\<exists>d. patch_auipc_pairs data0 instrs ivs secs ts te = Some d \<and> pairs_inv instrs secs data0 (ivs, ts, te) (length instrs) d"
proof -
  have "\<exists>d. for_each (patch_auipc_at instrs ivs secs ts te) [0..<n] data0 = Some d \<and> pairs_inv instrs secs data0 (ivs, ts, te) n d"
    if "n \<le> length instrs" for n
    using that
  proof (induction n)
    case 0
    then show ?case by (simp add: pairs_inv_def)
  next
    case (Suc n)
    then obtain d where "for_each (patch_auipc_at instrs ivs secs ts te) [0..<n] data0 = Some d" "pairs_inv instrs secs data0 (ivs, ts, te) n d"
      by auto
    then show ?case using pairs_step [OF E, of ivs ts te n d] Suc.prems by (auto simp: for_each_append)
  qed
  then show ?thesis by (simp add: patch_auipc_pairs_def)
qed

text \<open>The pairs have no targets, so the branch pass leaves them and they leave the branches.\<close>

lemma touched_plain:
  assumes E: "rv_entries instrs secs data0"
    and i: "i \<in> set instrs" and t: "targets i \<noteq> []"
  shows "touched instrs ivs secs n \<inter> file_range secs i = {}"
proof -
  obtain m where m: "m < length instrs" "instrs ! m = i" using i by (auto simp: in_set_conv_nth)
  have "pair_range instrs secs x j \<inter> file_range secs i = {}" if x: "auipc_pair instrs ivs x j" for x j
  proof -
    obtain "x < length instrs" "j < length instrs" "targets (instrs ! x) = []" "targets (instrs ! j) = []"
      using pair_facts [OF E x] by metis
    then show ?thesis
      using apart_nth [OF rv_entriesD(2) [OF E], of x m] apart_nth [OF rv_entriesD(2) [OF E], of j m] m t
      by (auto simp: pair_range_def)
  qed
  then show ?thesis by (auto simp: touched_def)
qed

lemma stored_kept:
  assumes E: "rv_entries instrs secs data0"
    and I: "pairs_inv instrs secs data0 (ivs, ts, te) n d" and i: "i \<in> set instrs" "targets i \<noteq> []" and st: "stored data0 secs i o1"
  shows "stored d secs i o1"
  using I touched_plain [OF E i, of ivs n]
  by (intro stored_frame [OF st]) (auto simp: pairs_inv_def disjoint_iff)

lemma branch_pass:
  assumes E: "rv_entries instrs secs data0"
  shows "for_each (riscv.live_patch ivs secs ts te) instrs d =
   for_each (riscv.live_patch ivs secs ts te) (filter (\<lambda>i. targets i \<noteq> []) instrs) d"
proof (rule for_each_filter)
  fix i s assume i: "i \<in> set instrs" "\<not> targets i \<noteq> []"
  obtain a r where "rv_valid r" "i = rv_instr a r" using rv_entriesD(3) [OF E i(1)] by blast
  then show "riscv.live_patch ivs secs ts te i s = Some s"
    using i(2) by (simp add: riscv.live_patch_def rv_patch_plain)
qed

lemma pairs_kept:
  assumes E: "rv_entries instrs secs data0"
    and I: "pairs_inv instrs secs data0 (ivs, ts, te) (length instrs) d" and x: "auipc_pair instrs ivs x j" and l: "length d' = length d"
    and eq: "\<forall>k < length d. k \<notin> (\<Union>i \<in> set (filter (\<lambda>i. targets i \<noteq> []) instrs). file_range secs i) \<longrightarrow>
      d' ! k = d ! k"
  shows "pair_done instrs (ivs, ts, te) secs d' x j"
proof (rule pair_done_frame [OF E x _ l])
  have xl: "x < length instrs" using x by (simp add: auipc_pair_def)
  show "pair_done instrs (ivs, ts, te) secs d x j" using I x xl by (simp add: pairs_inv_def)
  fix k assume k: "k < length d" "k \<in> pair_range instrs secs x j"
  then have "k \<in> touched instrs ivs secs (length instrs)" using x xl by (auto simp: touched_def)
  then show "d' ! k = d ! k" using eq k(1) touched_plain [OF E] by fastforce
qed

lemma rv_section_entries:
  assumes "vec_ok data" and "decoded_section data secs off vaddr sz 1 rv_instr rv_valid instrs"
  shows "rv_entries instrs secs data"
proof -
  have "\<exists>a r off. rv_valid r \<and> i = rv_instr a r \<and> stored data secs i off" if "i \<in> set instrs" for i
  proof -
    from decoded_entry [OF assms(2) that] obtain j
      where "entry_at data secs off vaddr sz 1 rv_instr rv_valid i j" ..
    note e = entry_atD [OF this]
    show ?thesis by (intro exI conjI, rule e(5), rule e(4), rule e(6))
  qed
  then show ?thesis using assms by (simp add: rv_entries_def decoded_section_def)
qed

lemma touched_inside:
  assumes E: "rv_entries instrs secs data" and sec: "decoded_section data secs off vaddr sz 1 rv_instr rv_valid instrs"
  shows "touched instrs ivs secs n \<subseteq> {unat off..<unat off + unat sz}"
proof -
  have "file_range secs i \<subseteq> {unat off..<unat off + unat sz}" if "i \<in> set instrs" for i
  proof -
    from decoded_entry [OF sec that] obtain j
      where "entry_at data secs off vaddr sz 1 rv_instr rv_valid i j" ..
    note e = entry_atD(1,6) [OF this]
    show ?thesis using e(1) unfolding stored_range [OF e(2)] by auto
  qed
  moreover have "instrs ! x \<in> set instrs \<and> instrs ! j \<in> set instrs" if "auipc_pair instrs ivs x j" for x j
    using pair_facts [OF E that] nth_mem by metis
  ultimately show ?thesis unfolding touched_def pair_range_def by blast
qed

lemma riscv_live_patch:
  "(\<lambda>instr data. if in_dead_range (i_addr instr) ivs then Some data
      else rv_patch_one data instr ivs secs ts te) = riscv.live_patch ivs secs ts te"
  by (rule ext)+ (simp add: riscv.live_patch_def)

lemma rv_text_patched:
  assumes ok: "vec_ok data" and m: "mapped data secs off vaddr sz"
    and pl: "plan_ok (ivs, vaddr, vaddr + sz)" "plan_aligned 1 (ivs, vaddr, vaddr + sz)"
    and sec: "decoded_section data secs off vaddr sz 1 rv_instr rv_valid instrs"
  shows "\<exists>d'. rv_patch_branches data instrs ivs secs vaddr (vaddr + sz) = Some d'
    \<and> text_moved rv_instr (rv_supported (ivs, vaddr, vaddr + sz)) instrs ivs off vaddr sz data d'
    \<and> (\<forall>x j. auipc_pair instrs ivs x j \<longrightarrow> pair_done instrs (ivs, vaddr, vaddr + sz) secs d' x j)"
proof -
  let ?p = "(ivs, vaddr, vaddr + sz)" and ?br = "filter (\<lambda>i. targets i \<noteq> []) instrs"
  note E = rv_section_entries [OF ok sec]
  obtain d1 where d1: "patch_auipc_pairs data instrs ivs secs vaddr (vaddr + sz) = Some d1"
    and I: "pairs_inv instrs secs data ?p (length instrs) d1" using pairs_patched [OF E] by blast
  have len: "length d1 = length data" using I by (simp add: pairs_inv_def)
  have ok1: "vec_ok d1" using ok len by (simp add: vec_ok_def)
  have m1: "mapped d1 secs off vaddr sz" using m len by (simp add: mapped_def)
  have sec1: "decoded_section d1 secs off vaddr sz 1 rv_instr rv_valid ?br"
    unfolding decoded_section_def
  proof
    show "apart secs ?br" using rv_entriesD(2) [OF E] by (simp add: apart_def sorted_wrt_filter)
    show "\<forall>i \<in> set ?br. \<exists>j. entry_at d1 secs off vaddr sz 1 rv_instr rv_valid i j"
    proof
      fix i assume i: "i \<in> set ?br"
      then obtain j where "entry_at data secs off vaddr sz 1 rv_instr rv_valid i j"
        using sec by (auto simp: decoded_section_def)
      moreover have "stored d1 secs i o1" if "stored data secs i o1" for o1
        using stored_kept [OF E I _ _ that] i by simp
      ultimately show "\<exists>j. entry_at d1 secs off vaddr sz 1 rv_instr rv_valid i j"
        unfolding entry_at_def by blast
    qed
  qed
  obtain d' where d': "for_each (riscv.live_patch ivs secs vaddr (vaddr + sz)) ?br d1 = Some d'"
    and mv: "text_moved rv_instr (rv_supported ?p) ?br ivs off vaddr sz d1 d'"
    using riscv.text_relocated [OF ok1 m1 pl sec1] by blast
  have "\<forall>i \<in> set ?br. \<exists>o1. stored d1 secs i o1" "apart secs ?br"
    using sec1 entry_atD(6) unfolding decoded_section_def by blast+
  from riscv.patch_loop [OF ok1 this, of ivs vaddr "vaddr + sz"] d'
  have fr: "length d' = length d1"
    "\<forall>k < length d1. k \<notin> (\<Union>i \<in> set ?br. file_range secs i) \<longrightarrow> d' ! k = d1 ! k" by auto
  have "rv_patch_branches data instrs ivs secs vaddr (vaddr + sz) = Some d'"
    using d1 d' branch_pass [OF E, of ivs vaddr "vaddr + sz" d1]
    by (simp add: rv_patch_branches_def riscv_live_patch)
  moreover have "text_moved rv_instr (rv_supported ?p) instrs ivs off vaddr sz data d'"
  proof -
    have "d1 ! k = data ! k" if "k < length data" "k < unat off \<or> unat off + unat sz \<le> k" for k
      using I touched_inside [OF E sec, of ivs "length instrs"] that len by (auto simp: pairs_inv_def)
    then show ?thesis using mv len by (simp add: text_moved_def rv_supported_def)
  qed
  moreover have "pair_done instrs ?p secs d' x j" if "auipc_pair instrs ivs x j" for x j
    by (rule pairs_kept [OF E I that fr])
  ultimately show ?thesis by blast
qed

section \<open>A patched .text\<close>

text \<open>C37. RISC-V: after patching .text, every live JAL, branch, compressed jump and compressed branch
  whose target is in .text decodes at its new address to the same instruction with its target
  moved; nothing outside .text changes and nothing panics.\<close>

theorem riscv_text_relocated:
  assumes "vec_ok data" and "mapped data secs off vaddr sz"
    and "plan_ok (ivs, vaddr, vaddr + sz)" and "plan_aligned 1 (ivs, vaddr, vaddr + sz)"
  shows "\<exists>d'. rv_patch_branches data (decode_text_riscv data off vaddr sz) ivs secs vaddr (vaddr + sz) = Some d'
    \<and> text_moved rv_instr (rv_supported (ivs, vaddr, vaddr + sz)) (decode_text_riscv data off vaddr sz)
        ivs off vaddr sz data d'"
  using rv_text_patched [OF assms rv_section [OF assms(1,2)]] by blast

text \<open>JAL over eight dead bytes.\<close>

definition ex_rv :: bytes where
  "ex_rv = [0x6F, 0, 0xC0, 0, 0x13, 0, 0, 0, 0x13, 0, 0, 0, 0x01, 0, 0x01, 0]"

theorem riscv_text_relocated_witness:
  "\<exists>d'. rv_patch_branches ex_rv (decode_text_riscv ex_rv 0 0x1000 16) ex_dead [ex_text]
      0x1000 (0x1000 + 16) = Some d'
    \<and> targets (rv_instr 0x1000 (bytes_at d' 0 0x1000 4 0x1000)) = [0x1004]"
proof -
  let ?is = "decode_text_riscv ex_rv 0 0x1000 16"
  let ?i = "rv_instr 0x1000 [0x6F, 0, 0xC0, 0]"
  have l: "length ex_rv = 16" by (simp add: ex_rv_def)
  have "?i \<in> set (decode_loop rv_len_at rv_instr ex_rv 0x1000 0)" by code_simp
  then have mem: "?i \<in> set ?is" by (simp only: decode_text_riscv_def ex_section [OF l])
  have i: "i_addr ?i = 0x1000" "length (raw ?i) = 4" "targets ?i = [0x100C]" by code_simp+
  have s: "rv_supported p ?i" for p by (simp add: rv_supported_def i)
  have al: "plan_aligned 1 (ex_dead, 0x1000, 0x1000 + 16)"
    by (rule plan_aligned_mono [OF ex_plan(2)]) simp
  obtain d' where "rv_patch_branches ex_rv ?is ex_dead [ex_text] 0x1000 (0x1000 + 16) = Some d'"
    and m: "text_moved rv_instr (rv_supported (ex_dead, 0x1000, 0x1000 + 16)) ?is ex_dead 0 0x1000 16 ex_rv d'"
    using riscv_text_relocated [OF _ _ ex_plan(1) al] ex_mapped [OF l] by blast
  moreover have "targets (rv_instr 0x1000 (bytes_at d' 0 0x1000 4 0x1000)) = [0x1004]"
    using text_moved_targets [OF m mem] s
    by (simp only: i ex_plan list.set list.map ball_simps simp_thms)
  ultimately show ?thesis by blast
qed

text \<open>C38. RISC-V: after patching .text, every live AUIPC and the instruction that was paired with it
  together compute the moved address, whenever it is within the reach of a pair; both keep their
  opcode and registers.\<close>

theorem riscv_pairs_relocated:
  assumes "vec_ok data" and "mapped data secs off vaddr sz"
    and "plan_ok (ivs, vaddr, vaddr + sz)" and "plan_aligned 1 (ivs, vaddr, vaddr + sz)"
  shows "\<exists>d'. rv_patch_branches data (decode_text_riscv data off vaddr sz) ivs secs vaddr (vaddr + sz) = Some d'
    \<and> (\<forall>x j. auipc_pair (decode_text_riscv data off vaddr sz) ivs x j \<longrightarrow>
         pair_done (decode_text_riscv data off vaddr sz) (ivs, vaddr, vaddr + sz) secs d' x j)"
  using rv_text_patched [OF assms rv_section [OF assms(1,2)]] by blast

text \<open>AUIPC a0 and, after eight dead bytes, ADDI a0, a0, 12.\<close>

definition ex_pair :: bytes where
  "ex_pair = [0x17, 0x05, 0, 0, 0x13, 0, 0, 0, 0x13, 0, 0, 0, 0x13, 0x05, 0xC5, 0]"

theorem riscv_pairs_relocated_witness:
  "\<exists>d'. rv_patch_branches ex_pair (decode_text_riscv ex_pair 0 0x1000 16) ex_dead [ex_text]
      0x1000 (0x1000 + 16) = Some d'
    \<and> 0x1000 + auipc_offset (from_le (take 4 d')) + lo_imm (from_le (take 4 (drop 12 d'))) = 0x1004"
proof -
  let ?is = "decode_text_riscv ex_pair 0 0x1000 16" and ?p = "(ex_dead, 0x1000, 0x1000 + 16)"
  have l: "length ex_pair = 16" by (simp add: ex_pair_def)
  have dec: "?is = decode_loop rv_len_at rv_instr ex_pair 0x1000 0"
    by (simp only: decode_text_riscv_def ex_section [OF l])
  have i: "?is ! 0 = rv_instr 0x1000 [0x17, 0x05, 0, 0]" "?is ! 3 = rv_instr 0x100C [0x13, 0x05, 0xC5, 0]"
    "length ?is = 4" "find_auipc_pair ?is 0 10 = Some 3"
    unfolding dec by code_simp+
  have "sets_reg (?is ! 0) 10" unfolding i by code_simp
  moreover have "i_addr (?is ! 0) = 0x1000" unfolding i by code_simp
  ultimately have pair: "auipc_pair ?is ex_dead 0 3"
    using i(3,4) ex_plan(6) unfolding auipc_pair_def by (intro conjI exI [of _ 10]) simp_all
  have al: "plan_aligned 1 ?p" by (rule plan_aligned_mono [OF ex_plan(2)]) simp
  obtain d' where d': "rv_patch_branches ex_pair ?is ex_dead [ex_text] 0x1000 (0x1000 + 16) = Some d'"
    and "pair_done ?is ?p [ex_text] d' 0 3"
    using riscv_pairs_relocated [OF _ _ ex_plan(1) al] ex_mapped [OF l] pair by blast
  moreover have "i_addr (?is ! 0) = 0x1000" "i_addr (?is ! 3) = 0x100C"
    "auipc_offset (from_le (raw (?is ! 0))) = 0" "lo_imm (from_le (raw (?is ! 3))) = 12"
    unfolding i by code_simp+
  moreover have "moved ?p 0x1000 = 0x1000"
    using ex_plan(3) moved_text [of ex_dead "0x1000" "0x1000 + 16" "0x1000"]
    by (simp add: in_text_def plan_lo_def plan_hi_def)
  moreover have "vaddr_to_offset 0x1000 [ex_text] = Some 0" "vaddr_to_offset 0x100C [ex_text] = Some 12"
    by (simp_all add: ex_text_def)
  moreover have "sint (0x1004 - 0x1000 + 0x800 :: i64) = 0x804" by simp
  ultimately show ?thesis
    using ex_plan(4) by (simp add: pair_done_def Let_def ex_text_def)
qed

section \<open>A compressed instruction of RV64\<close>

text \<open>On RV64 the encoding of C.JAL is C.ADDIW, an addition. The decoder and the patcher take it
  for a call on every RISC-V target, so the immediate of \<open>c.addiw a0, 1\<close> is rewritten when the
  bytes after it move.\<close>

theorem riscv_c_addiw_rewritten:
  "rv_half_targets 0x1000 0x2505 = ([0x1620], None, Call)
    \<and> rv_new_half 0x1000 0x2505 [(0x1004, 0x1008)] 0x1000 0x2000 = Some 0x2D31"
  by code_simp

end
