(* ===== verification/Arch.thy ===== *)
theory Arch
  imports Defrag Aarch64 Arm32 Mips LoongArch S390x RiscV
begin

text \<open>
  \<open>src/arch/mod.rs\<close>: the choice of decoder, padding test and instruction alignment by
  architecture. The x86 decoder, which is built on an external disassembler, is a parameter.
\<close>

section \<open>The code\<close>

definition detect_mips_endian :: "bytes \<Rightarrow> bool" where
  "detect_mips_endian data =
     (if 5 < length data \<and> data ! 0 = 0x7F \<and> data ! 1 = 0x45 then data ! 5 = 2 else True)"

fun decode_text ::
  "(bytes \<Rightarrow> u64 \<Rightarrow> u64 \<Rightarrow> u64 \<Rightarrow> decoded_instr list) \<Rightarrow>
   bytes \<Rightarrow> u64 \<Rightarrow> u64 \<Rightarrow> u64 \<Rightarrow> arch \<Rightarrow> decoded_instr list" where
  "decode_text x86 data offset vaddr sz X86_64 = x86 data offset vaddr sz"
| "decode_text x86 data offset vaddr sz X86_32 = x86 data offset vaddr sz"
| "decode_text x86 data offset vaddr sz Aarch64 = decode_text_aarch64 data offset vaddr sz"
| "decode_text x86 data offset vaddr sz Arm32 = decode_text_arm32 data offset vaddr sz"
| "decode_text x86 data offset vaddr sz RiscV64 = decode_text_riscv data offset vaddr sz"
| "decode_text x86 data offset vaddr sz RiscV32 = decode_text_riscv data offset vaddr sz"
| "decode_text x86 data offset vaddr sz Mips32 =
     decode_text_mips data offset vaddr sz (detect_mips_endian data)"
| "decode_text x86 data offset vaddr sz Mips64 =
     decode_text_mips data offset vaddr sz (detect_mips_endian data)"
| "decode_text x86 data offset vaddr sz S390x = decode_text_s390x data offset vaddr sz"
| "decode_text x86 data offset vaddr sz LoongArch64 = decode_text_loongarch data offset vaddr sz"

definition is_padding_x86 :: "u8 \<Rightarrow> bool" where
  "is_padding_x86 b \<longleftrightarrow> b = 0xCC \<or> b = 0x90"

fun padding_fn :: "arch \<Rightarrow> u8 \<Rightarrow> bool" where
  "padding_fn X86_64 = is_padding_x86"
| "padding_fn X86_32 = is_padding_x86"
| "padding_fn Aarch64 = is_padding_aarch64"
| "padding_fn Arm32 = is_padding_arm32"
| "padding_fn RiscV64 = is_padding_riscv"
| "padding_fn RiscV32 = is_padding_riscv"
| "padding_fn Mips32 = is_padding_mips"
| "padding_fn Mips64 = is_padding_mips"
| "padding_fn S390x = is_padding_s390x"
| "padding_fn LoongArch64 = is_padding_loongarch"

fun instr_align :: "arch \<Rightarrow> u64" where
  "instr_align X86_64 = 1"
| "instr_align X86_32 = 1"
| "instr_align Aarch64 = 4"
| "instr_align Arm32 = 4"
| "instr_align RiscV64 = 2"
| "instr_align RiscV32 = 2"
| "instr_align Mips32 = 4"
| "instr_align Mips64 = 4"
| "instr_align S390x = 2"
| "instr_align LoongArch64 = 4"

definition is_x86 :: "arch \<Rightarrow> bool" where
  "is_x86 arch \<longleftrightarrow> arch = X86_64 \<or> arch = X86_32"

section \<open>Decoded sections\<close>

lemma decoded_section_stored:
  assumes sec: "decoded_section data secs off vaddr sz k decode valid instrs"
    and fields: "\<And>a r. valid r \<Longrightarrow> i_addr (decode a r) = a \<and> i_len (decode a r) = length r"
  shows "apart secs instrs \<and> (\<forall>i \<in> set instrs. \<exists>j. i_addr i = vaddr + of_nat j \<and> i_len i = length (raw i)
    \<and> 0 < i_len i \<and> j + i_len i \<le> unat sz \<and> 2 ^ k dvd j \<and> stored data secs i (unat off + j))"
proof (intro conjI ballI)
  show "apart secs instrs" using sec by (simp add: decoded_section_def)
  fix i assume "i \<in> set instrs"
  from decoded_entry [OF sec this] obtain j where j: "entry_at data secs off vaddr sz k decode valid i j" ..
  note e = entry_atD [OF j]
  have "i_addr i = vaddr + of_nat j" "i_len i = length (raw i)"
    using fields [OF e(5), of "vaddr + of_nat j"] e(4) by metis+
  then show "\<exists>j. i_addr i = vaddr + of_nat j \<and> i_len i = length (raw i)
      \<and> 0 < i_len i \<and> j + i_len i \<le> unat sz \<and> 2 ^ k dvd j \<and> stored data secs i (unat off + j)"
    using e(1-3,6) by (intro exI [of _ j]) simp
qed

lemma instr_lens:
  "length r = 4 \<Longrightarrow> i_addr (a64_instr a r) = a \<and> i_len (a64_instr a r) = length r"
  "length r = 4 \<Longrightarrow> i_addr (arm_instr a r) = a \<and> i_len (arm_instr a r) = length r"
  "length r = 4 \<Longrightarrow> i_addr (mips_instr be a r) = a \<and> i_len (mips_instr be a r) = length r"
  "length r = 4 \<Longrightarrow> i_addr (la_instr a r) = a \<and> i_len (la_instr a r) = length r"
  "i_addr (s390x_instr a r) = a \<and> i_len (s390x_instr a r) = length r"
  by (simp_all add: a64_instr_def arm_instr_def mips_instr_def la_instr_def s390x_instr_def Let_def
      split: prod.split)

lemma rv_instr_len: "rv_valid r \<Longrightarrow> i_addr (rv_instr a r) = a \<and> i_len (rv_instr a r) = length r"
  by (auto simp: rv_valid_def rv_instr_parts split: prod.split)

text \<open>Every decoder but the external one: the entries of a section lie in it one after the other,
  each at an aligned offset, with the address and the length of the very file bytes it holds, and
  no two share a byte.\<close>

theorem decode_text_stored:
  assumes "vec_ok data" and "mapped data secs off vaddr sz" and "\<not> is_x86 arch"
  shows "apart secs (decode_text x86 data off vaddr sz arch)
    \<and> (\<forall>i \<in> set (decode_text x86 data off vaddr sz arch). \<exists>j. i_addr i = vaddr + of_nat j
        \<and> i_len i = length (raw i) \<and> 0 < i_len i \<and> j + i_len i \<le> unat sz
        \<and> unat (instr_align arch) dvd j \<and> stored data secs i (unat off + j))"
proof -
  note f = fixed4_section [OF assms(1,2)]
  note a64 = decoded_section_stored [OF f [OF a64_instr_fields, folded decode_text_aarch64_def] instr_lens(1)]
    and arm = decoded_section_stored [OF f [OF arm_instr_fields, folded decode_text_arm32_def] instr_lens(2)]
    and mips = decoded_section_stored [OF f [OF mips_instr_fields [of "detect_mips_endian data"],
        folded decode_text_mips_def] instr_lens(3)]
    and la = decoded_section_stored [OF f [OF la_instr_fields, folded decode_text_loongarch_def] instr_lens(4)]
    and s390x = decoded_section_stored [OF s390x_section [OF assms(1,2)] instr_lens(5)]
    and rv = decoded_section_stored [OF rv_section [OF assms(1,2)] rv_instr_len]
  show ?thesis
    using assms(3) a64 arm mips la s390x rv by (cases arch) (simp_all add: is_x86_def)
qed

theorem decode_text_stored_witness:
  "apart [ex_text] (decode_text (\<lambda>_ _ _ _. []) ex_s390x 0 0x1000 16 S390x)"
proof -
  have "length ex_s390x = 16" by (simp add: ex_s390x_def)
  from ex_mapped [OF this] have ok: "vec_ok ex_s390x" and m: "mapped ex_s390x [ex_text] 0 0x1000 16"
    by simp_all
  show ?thesis using decode_text_stored [OF ok m, of S390x] by (simp add: is_x86_def)
qed

section \<open>Aligned plans stay aligned\<close>

text \<open>The ends of merged intervals are ends of the intervals merged.\<close>

lemma merge_into_ends:
  assumes "\<forall>(s, e) \<in> set acc \<union> set ivs. P s \<and> P e"
  shows "\<forall>(s, e) \<in> set (merge_into acc ivs). P s \<and> P e"
  using assms by (induction acc ivs rule: merge_into.induct) (auto simp: max_def)

lemma merge_intervals_ends:
  "\<forall>(s, e) \<in> set ivs. P s \<and> P e \<Longrightarrow> \<forall>(s, e) \<in> set (merge_intervals ivs). P s \<and> P e"
  unfolding merge_intervals_def using merge_into_ends [of "[]" "sort ivs" P] by auto

lemma instr_align_step: "fwd_step (instr_align arch) = instr_align arch"
  by (cases arch) (simp_all add: fwd_step_def)

text \<open>C39. Defragmentation keeps a plan aligned: if the dead intervals start and end at instruction
  boundaries of an architecture, so do the intervals that absorbed its padding bytes, for every
  architecture. This is what the branch patchers need.\<close>

theorem defrag_keeps_alignment:
  assumes sec: "find_section ''.text'' sections = Some tx"
    and pre: "defrag_pre ivs tx (instr_align arch)"
    and k: "unat (instr_align arch) = 2 ^ k"
    and al: "plan_aligned k (ivs, s_vaddr tx, s_vaddr tx + s_size tx)"
  shows "plan_aligned k (defrag_intervals ivs data sections (padding_fn arch) (instr_align arch),
    s_vaddr tx, s_vaddr tx + s_size tx)"
proof (cases "k = 0")
  case True
  then show ?thesis by (auto simp: plan_aligned_def)
next
  case False
  let ?ts = "s_vaddr tx" and ?te = "s_vaddr tx + s_size tx" and ?a = "instr_align arch"
  let ?P = "\<lambda>x. 2 ^ k dvd unat x - unat ?ts"
  have ne: "fwd_step ?a \<noteq> 1"
    using False k by (auto simp: instr_align_step dest!: sym [of "Suc 0"])
  have "?P lo \<and> ?P hi" if iv: "(s, e) \<in> set ivs"
    and eq: "expand_one data tx ?ts ?te s e (padding_fn arch) ?a = (lo, hi)" for s e lo hi
  proof -
    note x = expand_one_spec [OF pre iv eq]
    have "lo = s" using eq ne by (auto simp: expand_one_def Let_def)
    moreover have se: "?P s" "?P e" using al iv by (auto simp: plan_aligned_def)
    moreover have "?P hi"
    proof -
      have "unat ?ts \<le> unat e" "unat e \<le> unat hi"
        using x pre iv by (auto simp: defrag_pre_def wf_ivals_def within_def word_le_nat_alt)
      then have "unat hi - unat ?ts = (unat hi - unat e) + (unat e - unat ?ts)" by simp
      moreover have "2 ^ k dvd unat hi - unat e" using x k by (simp add: instr_align_step)
      ultimately show ?thesis using se(2) by simp
    qed
    ultimately show ?thesis by simp
  qed
  then have "\<forall>(lo, hi) \<in> set (map (\<lambda>(s, e). expand_one data tx ?ts ?te s e (padding_fn arch) ?a) ivs).
      ?P lo \<and> ?P hi"
    by (auto split: prod.splits)
  from merge_intervals_ends [OF this] show ?thesis
    by (simp add: plan_aligned_def defrag_eq [OF sec])
qed

theorem defrag_keeps_alignment_witness:
  "plan_aligned 2 (defrag_intervals ex_dead ex_a64 [ex_text] (padding_fn Aarch64) (instr_align Aarch64),
     0x1000, 0x1000 + 16)"
proof -
  have "find_section ''.text'' [ex_text] = Some ex_text" by (simp add: find_section_def ex_text_def)
  moreover have "defrag_pre ex_dead ex_text (instr_align Aarch64)"
    by (simp add: defrag_pre_def fwd_step_def wf_ivals_def within_def ex_dead_def ex_text_def)
  ultimately show ?thesis
    using defrag_keeps_alignment [of "[ex_text]" ex_text ex_dead Aarch64 2 ex_a64] ex_plan(2)
    by (simp add: ex_text_def)
qed

end
