(* ===== verification/Reachability.thy ===== *)
theory Reachability
  imports Types
begin

text \<open>
  \<open>src/analysis/reachability.rs\<close> and \<open>src/analysis/roots.rs\<close>: the roots, the breadth-first search
  over the reference graph, its closure under functions that share an address, and the dead
  functions that remain. A hash set or map is a list in the order it is iterated; the theorems
  are about its elements, so they do not depend on that order.
\<close>

section \<open>The code\<close>

definition runtime_keep :: "fname list" where
  "runtime_keep = [''_start'', ''main'', ''_init'', ''_fini'', ''__libc_start_main'', ''__libc_csu_init'',
     ''__libc_csu_fini'', ''__libc_start_call_main'', ''_dl_relocate_static_pie'', ''frame_dummy'',
     ''register_tm_clones'', ''deregister_tm_clones'', ''__do_global_dtors_aux'',
     ''__do_global_ctors_aux'', ''__init_libc'', ''__init_tls'', ''__copy_tls'', ''atexit'',
     ''__cxa_atexit'', ''__cxa_finalize'', ''exit'', ''_exit'', ''__stack_chk_fail'',
     ''__stack_chk_guard'', ''_start_c'', ''__funcs_on_exit'', ''__stdio_exit'',
     ''__libc_exit_fini'', ''__dls3'', ''__dls2b'', ''DllMain'', ''DllMainCRTStartup'',
     ''WinMainCRTStartup'', ''mainCRTStartup'', ''_mainCRTStartup'', ''wmainCRTStartup'', ''__main'',
     ''__security_init_cookie'', ''__start'', ''__aeabi_unwind_cpp_pr0'',
     ''__aeabi_unwind_cpp_pr1'', ''__aeabi_unwind_cpp_pr2'', ''__aeabi_memcpy'', ''__aeabi_memset'',
     ''__aeabi_memclr'', ''__arm_personality_routine'', ''__gnu_unwind_frame'', ''_CRT_INIT'',
     ''__security_check_cookie'', ''_guard_check_icall'']"

text \<open>\<open>HashSet::insert\<close> and \<open>extend\<close>.\<close>

definition set_insert :: "'a \<Rightarrow> 'a list \<Rightarrow> 'a list" where
  "set_insert x xs = (if x \<in> set xs then xs else xs @ [x])"

definition set_extend :: "'a list \<Rightarrow> 'a list \<Rightarrow> 'a list" where
  "set_extend xs ys = foldl (\<lambda>acc y. set_insert y acc) xs ys"

definition determine_roots :: "func_map \<Rightarrow> fname list \<Rightarrow> fname list \<Rightarrow> fname list" where
  "determine_roots funcs data_ref_names orphan_refs =
     (let roots = foldl (\<lambda>roots (name, fi).
            if name \<in> set runtime_keep \<or> is_global fi then set_insert name roots else roots) [] funcs
      in set_extend (set_extend roots data_ref_names) orphan_refs)"

text \<open>The nodes a search can still meet, for its termination.\<close>

type_synonym 'a adj = "('a \<times> 'a list) list"

definition callees :: "'a adj \<Rightarrow> 'a set" where
  "callees graph = (\<Union>(_, cs) \<in> set graph. set cs)"

lemma finite_callees [simp]: "finite (callees graph)"
  by (auto simp: callees_def)

lemma map_of_callees: "map_of graph x = Some cs \<Longrightarrow> set cs \<subseteq> callees graph"
  by (force simp: callees_def dest: map_of_SomeD)

function bfs_loop :: "'a adj \<Rightarrow> 'a list \<Rightarrow> 'a list \<Rightarrow> 'a list" where
  "bfs_loop graph live [] = live"
| "bfs_loop graph live (name # queue) =
     (if name \<in> set live then bfs_loop graph live queue
      else let live' = set_insert name live in
        case map_of graph name of
          None \<Rightarrow> bfs_loop graph live' queue
        | Some cs \<Rightarrow> bfs_loop graph live' (queue @ filter (\<lambda>c. c \<notin> set live') cs))"
  by pat_completeness auto
termination
proof (relation "inv_image (less_than <*lex*> less_than)
    (\<lambda>(graph, live, queue). (card ((set queue \<union> callees graph) - set live), length queue))")
  fix graph :: "'a adj" and live queue :: "'a list" and name
  assume "name \<in> set live"
  then have "(set (name # queue) \<union> callees graph) - set live = (set queue \<union> callees graph) - set live"
    by auto
  then show "((graph, live, queue), graph, live, name # queue) \<in> inv_image (less_than <*lex*> less_than)
      (\<lambda>(graph, live, queue). (card ((set queue \<union> callees graph) - set live), length queue))"
    by simp
next
  fix graph :: "'a adj" and live queue live' :: "'a list" and name
  assume n: "name \<notin> set live" and l: "live' = set_insert name live"
  have "(set queue \<union> callees graph) - set live' \<subset> (set (name # queue) \<union> callees graph) - set live"
    using n l by (auto simp: set_insert_def)
  then have "card ((set queue \<union> callees graph) - set live') < card ((set (name # queue) \<union> callees graph) - set live)"
    by (intro psubset_card_mono) auto
  then show "((graph, live', queue), graph, live, name # queue) \<in> inv_image (less_than <*lex*> less_than)
      (\<lambda>(graph, live, queue). (card ((set queue \<union> callees graph) - set live), length queue))"
    by simp
next
  fix graph :: "'a adj" and live queue live' :: "'a list" and name cs
  assume n: "name \<notin> set live" and l: "live' = set_insert name live" and cs: "map_of graph name = Some cs"
  let ?q = "queue @ filter (\<lambda>c. c \<notin> set live') cs"
  have "(set ?q \<union> callees graph) - set live' \<subset> (set (name # queue) \<union> callees graph) - set live"
    using n l map_of_callees [OF cs] by (auto simp: set_insert_def)
  then have "card ((set ?q \<union> callees graph) - set live') < card ((set (name # queue) \<union> callees graph) - set live)"
    by (intro psubset_card_mono) auto
  then show "((graph, live', ?q), graph, live, name # queue) \<in> inv_image (less_than <*lex*> less_than)
      (\<lambda>(graph, live, queue). (card ((set queue \<union> callees graph) - set live), length queue))"
    by simp
qed (intro wf_inv_image wf_lex_prod wf_less_than)

definition bfs :: "'a list \<Rightarrow> 'a adj \<Rightarrow> 'a list" where
  "bfs roots graph = bfs_loop graph [] roots"

text \<open>One round of the alias expansion: the functions at the address of a live one become live.
  \<open>addr_to_names\<close> lists the names at an address in the order of \<open>funcs\<close>.\<close>

definition names_at :: "func_map \<Rightarrow> u64 \<Rightarrow> fname list" where
  "names_at funcs a = map fst (filter (\<lambda>(_, fi). fi_addr fi = a) funcs)"

definition live_addrs :: "func_map \<Rightarrow> fname list \<Rightarrow> u64 list" where
  "live_addrs funcs live = remdups (List.map_filter (\<lambda>n. map_option fi_addr (map_of funcs n)) live)"

definition expand_aliases :: "func_map \<Rightarrow> fname list \<Rightarrow> fname list" where
  "expand_aliases funcs live =
     foldl (\<lambda>live a. set_extend live (names_at funcs a)) live (live_addrs funcs live)"

section \<open>Sets as lists\<close>

lemma set_set_insert [simp]: "set (set_insert x xs) = insert x (set xs)"
  by (auto simp: set_insert_def)

lemma set_set_extend [simp]: "set (set_extend xs ys) = set xs \<union> set ys"
  unfolding set_extend_def by (induction ys arbitrary: xs) auto

lemma set_determine_roots:
  "set (determine_roots funcs data_ref_names orphan_refs) =
     {n. \<exists>fi. (n, fi) \<in> set funcs \<and> (n \<in> set runtime_keep \<or> is_global fi)}
     \<union> set data_ref_names \<union> set orphan_refs"
proof -
  have "set (foldl (\<lambda>roots (name, fi).
      if name \<in> set runtime_keep \<or> is_global fi then set_insert name roots else roots) acc fs)
    = set acc \<union> {n. \<exists>fi. (n, fi) \<in> set fs \<and> (n \<in> set runtime_keep \<or> is_global fi)}" for acc fs
    by (induction fs arbitrary: acc) auto
  from this [of "[]" funcs] show ?thesis by (simp add: determine_roots_def Let_def)
qed

section \<open>The search\<close>

inductive_set reach :: "'a set \<Rightarrow> 'a adj \<Rightarrow> 'a set" for R graph where
  root: "x \<in> R \<Longrightarrow> x \<in> reach R graph"
| edge: "x \<in> reach R graph \<Longrightarrow> map_of graph x = Some cs \<Longrightarrow> y \<in> set cs \<Longrightarrow> y \<in> reach R graph"

definition edge_closed :: "'a adj \<Rightarrow> 'a set \<Rightarrow> bool" where
  "edge_closed graph S \<longleftrightarrow> (\<forall>x \<in> S. \<forall>cs. map_of graph x = Some cs \<longrightarrow> set cs \<subseteq> S)"

lemma reach_least: "R \<subseteq> S \<Longrightarrow> edge_closed graph S \<Longrightarrow> reach R graph \<subseteq> S"
proof
  fix x assume S: "R \<subseteq> S" "edge_closed graph S" and "x \<in> reach R graph"
  from this(3) show "x \<in> S" by induction (use S in \<open>auto simp: edge_closed_def\<close>)
qed

lemma reach_closed: "edge_closed graph (reach R graph)"
  by (auto simp: edge_closed_def intro: reach.edge)

lemma bfs_loop_mono: "set live \<union> set queue \<subseteq> set (bfs_loop graph live queue)"
proof (induction graph live queue rule: bfs_loop.induct)
  case (2 graph live name queue)
  then show ?case by (cases "name \<in> set live") (auto simp: Let_def split: option.split)
qed simp

lemma bfs_loop_closed:
  "(\<forall>x \<in> set live. \<forall>cs. map_of graph x = Some cs \<longrightarrow> set cs \<subseteq> set live \<union> set queue) \<Longrightarrow>
     edge_closed graph (set (bfs_loop graph live queue))"
proof (induction graph live queue rule: bfs_loop.induct)
  case (1 graph live)
  then show ?case by (simp add: edge_closed_def)
next
  case (2 graph live name queue)
  show ?case
  proof (cases "name \<in> set live")
    case True
    then show ?thesis using 2 by (auto simp: insert_absorb)
  next
    case False
    show ?thesis
    proof (cases "map_of graph name")
      case None
      have "edge_closed graph (set (bfs_loop graph (set_insert name live) queue))"
        using 2(2) [OF False refl None] 2(4) None by auto
      then show ?thesis using False None by (simp add: Let_def)
    next
      case (Some cs)
      let ?l = "set_insert name live" and ?q = "queue @ filter (\<lambda>c. c \<notin> set (set_insert name live)) cs"
      have "edge_closed graph (set (bfs_loop graph ?l ?q))"
        using 2(3) [OF False refl Some] 2(4) Some by auto
      then show ?thesis using False Some by (simp add: Let_def)
    qed
  qed
qed

lemma bfs_loop_least:
  "edge_closed graph S \<Longrightarrow> set live \<union> set queue \<subseteq> S \<Longrightarrow> set (bfs_loop graph live queue) \<subseteq> S"
proof (induction graph live queue rule: bfs_loop.induct)
  case (2 graph live name queue)
  show ?case
  proof (cases "name \<in> set live")
    case True
    then show ?thesis using 2 by simp
  next
    case False
    show ?thesis
    proof (cases "map_of graph name")
      case None
      then show ?thesis using 2(2) [OF False refl None] 2(4,5) False by (simp add: Let_def)
    next
      case (Some cs)
      have "set cs \<subseteq> S" using 2(4,5) Some by (auto simp: edge_closed_def)
      then have "set (bfs_loop graph (set_insert name live)
          (queue @ filter (\<lambda>c. c \<notin> set (set_insert name live)) cs)) \<subseteq> S"
        using 2(4,5) by (intro 2(3) [OF False refl Some]) auto
      then show ?thesis using False Some by (simp add: Let_def)
    qed
  qed
qed simp

lemma set_bfs: "set (bfs roots graph) = reach (set roots) graph"
proof
  show "set (bfs roots graph) \<subseteq> reach (set roots) graph"
    unfolding bfs_def by (rule bfs_loop_least [OF reach_closed]) (auto intro: reach.root)
  show "reach (set roots) graph \<subseteq> set (bfs roots graph)"
    unfolding bfs_def using bfs_loop_mono [of "[]" roots graph]
    by (intro reach_least bfs_loop_closed) auto
qed

lemma reach_rtrancl:
  "x \<in> reach R graph \<longleftrightarrow> (\<exists>r \<in> R. (r, x) \<in> {(a, b). \<exists>cs. map_of graph a = Some cs \<and> b \<in> set cs}\<^sup>*)"
proof -
  let ?E = "{(a, b). \<exists>cs. map_of graph a = Some cs \<and> b \<in> set cs}"
  have "x \<in> reach R graph \<Longrightarrow> \<exists>r \<in> R. (r, x) \<in> ?E\<^sup>*"
    by (induction rule: reach.induct) (blast intro: rtrancl_into_rtrancl)+
  moreover have "x \<in> reach R graph" if "(r, x) \<in> ?E\<^sup>*" "r \<in> R" for r
    using that by (induction rule: rtrancl_induct) (auto intro: reach.intros)
  ultimately show ?thesis by blast
qed

text \<open>The breadth-first search terminates on every graph, cycles and dangling names included, and
  returns exactly the names that a path of references connects to a root.\<close>

theorem bfs_reachable:
  "x \<in> set (bfs roots graph) \<longleftrightarrow>
     (\<exists>r \<in> set roots. (r, x) \<in> {(a, b). \<exists>cs. map_of graph a = Some cs \<and> b \<in> set cs}\<^sup>*)"
  unfolding set_bfs by (rule reach_rtrancl)

section \<open>The live set\<close>

lemma set_expand_aliases:
  "set (expand_aliases funcs live) = set live \<union>
     {y. \<exists>x \<in> set live. \<exists>fi fj. map_of funcs x = Some fi \<and> (y, fj) \<in> set funcs \<and> fi_addr fj = fi_addr fi}"
proof -
  have f: "set (foldl (\<lambda>live a. set_extend live (names_at funcs a)) acc as) =
      set acc \<union> (\<Union>a \<in> set as. set (names_at funcs a))" for acc as
    by (induction as arbitrary: acc) auto
  have n: "set (names_at funcs a) = {y. \<exists>fj. (y, fj) \<in> set funcs \<and> fi_addr fj = a}" for a
    by (force simp: names_at_def)
  have a: "set (live_addrs funcs live) = {fi_addr fi |x fi. x \<in> set live \<and> map_of funcs x = Some fi}"
    by (force simp: live_addrs_def map_filter_def image_iff)
  show ?thesis unfolding expand_aliases_def f n a by blast
qed

lemma bfs_extends: "set live \<subseteq> set (bfs (expand_aliases funcs live) graph)"
  unfolding set_bfs set_expand_aliases by (auto intro: reach.root)

text \<open>The loop ends when the number of live names stops growing.\<close>

function live_fixpoint :: "func_map \<Rightarrow> ref_graph \<Rightarrow> fname list \<Rightarrow> fname list" where
  "live_fixpoint funcs graph live =
     (let live' = bfs (expand_aliases funcs live) graph
      in if card (set live') = card (set live) then live' else live_fixpoint funcs graph live')"
  by pat_completeness auto
termination
proof (relation "measure (\<lambda>(funcs, graph, live).
    card ((fst ` set funcs \<union> callees graph \<union> set live) - set live))")
  fix funcs graph live live'
  assume l: "live' = bfs (expand_aliases funcs live) graph" and ne: "card (set live') \<noteq> card (set live)"
  let ?U = "\<lambda>l. fst ` set funcs \<union> callees graph \<union> set l"
  have sub: "set live \<subset> set live'" using bfs_extends [of live funcs graph] ne l by auto
  have "edge_closed graph (?U live)"
    using map_of_callees by (fastforce simp: edge_closed_def)
  then have "set live' \<subseteq> ?U live"
    unfolding l set_bfs by (intro reach_least) (force simp: set_expand_aliases)+
  with sub have "?U live' - set live' \<subset> ?U live - set live" by auto
  then show "((funcs, graph, live'), funcs, graph, live)
      \<in> measure (\<lambda>(funcs, graph, live). card ((fst ` set funcs \<union> callees graph \<union> set live) - set live))"
    by (simp add: psubset_card_mono)
qed simp

declare live_fixpoint.simps [simp del]

definition compute_live_set :: "fname list \<Rightarrow> ref_graph \<Rightarrow> func_map \<Rightarrow> fname list" where
  "compute_live_set roots graph funcs = live_fixpoint funcs graph (bfs roots graph)"

definition find_dead :: "func_map \<Rightarrow> fname list \<Rightarrow> dead_map" where
  "find_dead funcs live =
     map (\<lambda>(name, fi). (name, (fi_addr fi, fi_size fi)))
       (filter (\<lambda>(name, fi). name \<notin> set live \<and> 4 \<le> fi_size fi) funcs)"

text \<open>The live names: roots, what live names refer to, and other names of a live address.\<close>

inductive_set alive :: "fname set \<Rightarrow> ref_graph \<Rightarrow> func_map \<Rightarrow> fname set" for R graph funcs where
  root: "x \<in> R \<Longrightarrow> x \<in> alive R graph funcs"
| edge: "x \<in> alive R graph funcs \<Longrightarrow> map_of graph x = Some cs \<Longrightarrow> y \<in> set cs \<Longrightarrow> y \<in> alive R graph funcs"
| same_addr: "x \<in> alive R graph funcs \<Longrightarrow> map_of funcs x = Some fi \<Longrightarrow> (y, fj) \<in> set funcs \<Longrightarrow>
    fi_addr fj = fi_addr fi \<Longrightarrow> y \<in> alive R graph funcs"

definition alias_closed :: "func_map \<Rightarrow> fname set \<Rightarrow> bool" where
  "alias_closed funcs S \<longleftrightarrow> (\<forall>x \<in> S. \<forall>fi y fj. map_of funcs x = Some fi \<longrightarrow> (y, fj) \<in> set funcs \<longrightarrow>
     fi_addr fj = fi_addr fi \<longrightarrow> y \<in> S)"

lemma live_fixpoint_spec:
  "set live \<subseteq> set (live_fixpoint funcs graph live)
   \<and> edge_closed graph (set (live_fixpoint funcs graph live))
   \<and> alias_closed funcs (set (live_fixpoint funcs graph live))"
proof (induction funcs graph live rule: live_fixpoint.induct)
  case (1 funcs graph live)
  define live' where "live' = bfs (expand_aliases funcs live) graph"
  have sub: "set live \<subseteq> set live'" unfolding live'_def by (rule bfs_extends)
  show ?case
  proof (cases "card (set live') = card (set live)")
    case True
    then have eq: "set live' = set live" using sub by (metis List.finite_set card_subset_eq)
    have "edge_closed graph (set live')" unfolding live'_def set_bfs by (rule reach_closed)
    moreover have "alias_closed funcs (set live')"
    proof -
      have "set (expand_aliases funcs live) \<subseteq> set live'"
        unfolding live'_def set_bfs by (auto intro: reach.root)
      then show ?thesis unfolding alias_closed_def eq set_expand_aliases by blast
    qed
    ultimately show ?thesis
      using True sub by (subst (1 2 3) live_fixpoint.simps) (simp add: live'_def [symmetric] Let_def)
  next
    case False
    then have "live_fixpoint funcs graph live = live_fixpoint funcs graph live'"
      by (subst live_fixpoint.simps) (simp add: live'_def Let_def)
    then show ?thesis using "1.IH" [OF live'_def False] sub by auto
  qed
qed

lemma live_fixpoint_least:
  "edge_closed graph S \<Longrightarrow> alias_closed funcs S \<Longrightarrow> set live \<subseteq> S \<Longrightarrow>
     set (live_fixpoint funcs graph live) \<subseteq> S"
proof (induction funcs graph live rule: live_fixpoint.induct)
  case (1 funcs graph live)
  define live' where "live' = bfs (expand_aliases funcs live) graph"
  have "set (expand_aliases funcs live) \<subseteq> S"
    using 1(3,4) unfolding set_expand_aliases alias_closed_def by blast
  then have "set live' \<subseteq> S" unfolding live'_def set_bfs by (rule reach_least) (rule 1(2))
  then show ?case
    using "1.IH" [OF live'_def] 1(2,3) by (subst live_fixpoint.simps) (simp add: live'_def [symmetric] Let_def)
qed

lemma set_compute_live_set:
  "set (compute_live_set roots graph funcs) = alive (set roots) graph funcs"
proof
  let ?A = "alive (set roots) graph funcs" and ?L = "set (compute_live_set roots graph funcs)"
  have e: "edge_closed graph ?A" and a: "alias_closed funcs ?A"
    by (auto simp: edge_closed_def alias_closed_def intro: alive.edge alive.same_addr)
  have "set (bfs roots graph) \<subseteq> ?A"
    unfolding set_bfs by (rule reach_least [OF _ e]) (auto intro: alive.root)
  then show "?L \<subseteq> ?A" unfolding compute_live_set_def by (rule live_fixpoint_least [OF e a])
  note L = live_fixpoint_spec [of "bfs roots graph" funcs graph, folded compute_live_set_def]
  have r: "set roots \<subseteq> ?L" using L by (auto simp: set_bfs intro: reach.root)
  show "?A \<subseteq> ?L"
  proof
    fix x assume "x \<in> ?A"
    then show "x \<in> ?L"
    proof induction
      case (root x)
      then show ?case using r by blast
    next
      case (edge x cs y)
      then show ?case using L unfolding edge_closed_def by blast
    next
      case (same_addr x fi y fj)
      then show ?case using L unfolding alias_closed_def by blast
    qed
  qed
qed

text \<open>C34. The live set is the least set of names that contains the roots and is closed under
  references and under functions at the same address; the fixpoint loop always ends.\<close>

theorem compute_live_set_least:
  "set (compute_live_set roots graph funcs) = alive (set roots) graph funcs"
  by (rule set_compute_live_set)

text \<open>A function reported dead is at least four bytes long and not at the address of any live
  function, in particular not at the address of a root or of a function a live one refers to.\<close>

theorem dead_not_aliased:
  assumes "(n, (a, s)) \<in> set (find_dead funcs (compute_live_set roots graph funcs))"
    and "distinct (map fst funcs)"
    and "m \<in> alive (set roots) graph funcs" and "map_of funcs m = Some fi"
  shows "fi_addr fi \<noteq> a \<and> 4 \<le> s \<and> n \<notin> alive (set roots) graph funcs"
proof -
  obtain fj where fj: "(n, fj) \<in> set funcs" "a = fi_addr fj" "s = fi_size fj" "4 \<le> fi_size fj"
    "n \<notin> alive (set roots) graph funcs"
    using assms(1) by (auto simp: find_dead_def set_compute_live_set)
  then show ?thesis using alive.same_addr [OF assms(3,4) fj(1)] by auto
qed

theorem dead_not_aliased_witness:
  "let f = \<lparr>fi_addr = 0x1000, fi_size = 8, is_global = True\<rparr>;
       g = \<lparr>fi_addr = 0x1008, fi_size = 8, is_global = False\<rparr>
   in find_dead [(''main'', f), (''g'', g)] (compute_live_set [''main''] [(''main'', [])] [(''main'', f), (''g'', g)])
        = [(''g'', (0x1008, 8))] \<and> fi_addr f \<noteq> (0x1008 :: u64)"
proof -
  let ?f = "\<lparr>fi_addr = 0x1000, fi_size = 8, is_global = True\<rparr>"
  let ?g = "\<lparr>fi_addr = 0x1008, fi_size = 8, is_global = False\<rparr>"
  let ?F = "[(''main'', ?f), (''g'', ?g)]"
  have d: "find_dead ?F (compute_live_set [''main''] [(''main'', [])] ?F) = [(''g'', (0x1008, 8))]"
    by code_simp
  have "''main'' \<in> alive (set [''main'']) [(''main'', [])] ?F" by (rule alive.root) simp
  from dead_not_aliased [of "''g''" "0x1008" 8 ?F, OF _ _ this, of ?f] have "fi_addr ?f \<noteq> (0x1008 :: u64)"
    unfolding d by simp
  with d show ?thesis by (simp add: Let_def)
qed

end
