(* ===== verification/Callgraph.thy ===== *)
theory Callgraph
  imports Reachability "HOL-Library.AList"
begin

text \<open>
  \<open>src/decode/callgraph.rs\<close>: the reference graph between functions, built by the direct search
  for the function at an address and by a binary search in a sorted index; that both agree on
  functions that do not overlap; and what the graph means for the live set.
\<close>

section \<open>The binary search of the standard library\<close>

datatype ordering = Less | Equal | Greater

definition compare :: "u64 \<Rightarrow> u64 \<Rightarrow> ordering" where
  "compare a b = (if a < b then Less else if a = b then Equal else Greater)"

text \<open>\<open>slice::binary_search_by\<close> halves a window of \<open>size\<close> elements from \<open>base\<close>; \<open>Ok\<close> is \<open>Inr\<close>.\<close>

function bsearch_loop :: "('a \<Rightarrow> ordering) \<Rightarrow> 'a list \<Rightarrow> nat \<Rightarrow> nat \<Rightarrow> nat" where
  "bsearch_loop cmp xs base sz =
     (if 1 < sz then
        let half = sz div 2; mid = base + half
        in bsearch_loop cmp xs (if cmp (xs ! mid) = Greater then base else mid) (sz - half)
      else base)"
  by pat_completeness auto
termination
  by (relation "measure (\<lambda>(cmp, xs, base, sz). sz)") auto

declare bsearch_loop.simps [simp del]

definition bsearch :: "('a \<Rightarrow> ordering) \<Rightarrow> 'a list \<Rightarrow> nat + nat" where
  "bsearch cmp xs =
     (if xs = [] then Inl 0
      else let base = bsearch_loop cmp xs 0 (length xs)
           in case cmp (xs ! base) of Equal \<Rightarrow> Inr base | Less \<Rightarrow> Inl (base + 1) | Greater \<Rightarrow> Inl base)"

definition partition_point :: "('a \<Rightarrow> bool) \<Rightarrow> 'a list \<Rightarrow> nat" where
  "partition_point pred xs =
     (case bsearch (\<lambda>x. if pred x then Less else Greater) xs of Inl i \<Rightarrow> i | Inr i \<Rightarrow> i)"

section \<open>The code\<close>

definition resolve_addr :: "u64 \<Rightarrow> func_map \<Rightarrow> fname option" where
  "resolve_addr addr funcs =
     (case find (\<lambda>(_, fi). fi_addr fi = addr) funcs of
        Some (name, _) \<Rightarrow> Some name
      | None \<Rightarrow>
          (case find (\<lambda>(_, fi). fi_addr fi \<le> addr \<and> addr < fi_addr fi + fi_size fi) funcs of
             Some (name, _) \<Rightarrow> Some name
           | None \<Rightarrow> None))"

type_synonym addr_index = "(u64 \<times> u64 \<times> fname) list"

definition build_addr_index :: "func_map \<Rightarrow> addr_index" where
  "build_addr_index funcs = sort_key fst (map (\<lambda>(n, fi). (fi_addr fi, fi_addr fi + fi_size fi, n)) funcs)"

definition resolve_addr_fast :: "u64 \<Rightarrow> addr_index \<Rightarrow> fname option" where
  "resolve_addr_fast addr index =
     (case bsearch (\<lambda>r. compare (fst r) addr) index of
        Inr i \<Rightarrow> Some (snd (snd (index ! i)))
      | Inl _ \<Rightarrow>
          (let i = partition_point (\<lambda>r. fst r \<le> addr) index
           in if 0 < i then
                case index ! (i - 1) of (start, end, name) \<Rightarrow>
                  if start \<le> addr \<and> addr < end then Some name else None
              else None))"

text \<open>\<open>graph.entry(src).or_default().insert(tgt)\<close>\<close>

definition add_ref :: "fname \<Rightarrow> fname \<Rightarrow> ref_graph \<Rightarrow> ref_graph" where
  "add_ref src tgt graph =
     AList.update src (set_insert tgt (case map_of graph src of None \<Rightarrow> [] | Some cs \<Rightarrow> cs)) graph"

definition empty_graph :: "func_map \<Rightarrow> ref_graph" where
  "empty_graph funcs = map (\<lambda>(n, _). (n, [])) funcs"



definition ref_step_fast ::
  "fname option \<Rightarrow> addr_index \<Rightarrow> u64 \<Rightarrow> ref_graph \<times> fname list \<Rightarrow> ref_graph \<times> fname list" where
  "ref_step_fast src index tgt_addr = (\<lambda>(graph, orphan_refs).
     case (src, resolve_addr_fast tgt_addr index) of
       (Some s, Some t) \<Rightarrow>
         (if s \<noteq> t then (add_ref s t graph, orphan_refs) else (graph, orphan_refs))
     | (None, Some t) \<Rightarrow> (graph, set_insert t orphan_refs)
     | _ \<Rightarrow> (graph, orphan_refs))"

definition build_ref_graph_fast :: "func_map \<Rightarrow> decoded_instr list \<Rightarrow> ref_graph \<times> fname list" where
  "build_ref_graph_fast funcs instrs =
     (let index = build_addr_index funcs
      in fold (\<lambda>instr acc. fold (ref_step_fast (resolve_addr_fast (i_addr instr) index) index)
           (targets instr) acc) instrs (empty_graph funcs, []))"

definition funcs_at_addr :: "u64 \<Rightarrow> func_map \<Rightarrow> fname list" where
  "funcs_at_addr addr funcs = map fst (filter (\<lambda>(_, fi). fi_addr fi = addr) funcs)"

section \<open>The search finds what it looks for\<close>

text \<open>The comparison does not decrease along the list.\<close>

definition graded :: "('a \<Rightarrow> ordering) \<Rightarrow> 'a list \<Rightarrow> bool" where
  "graded cmp xs \<longleftrightarrow> (\<forall>i j. i < j \<longrightarrow> j < length xs \<longrightarrow>
     (cmp (xs ! j) = Less \<longrightarrow> cmp (xs ! i) = Less) \<and> (cmp (xs ! i) = Greater \<longrightarrow> cmp (xs ! j) = Greater))"

lemma gradedD:
  assumes "graded cmp xs" and "i < j" and "j < length xs"
  shows "cmp (xs ! i) = Greater \<Longrightarrow> cmp (xs ! j) = Greater" and "cmp (xs ! j) = Less \<Longrightarrow> cmp (xs ! i) = Less"
  using assms unfolding graded_def by blast+

lemma bsearch_loop_spec:
  assumes "graded cmp xs" and "0 < sz" and "base + sz \<le> length xs"
    and "\<forall>j. base + sz \<le> j \<longrightarrow> j < length xs \<longrightarrow> cmp (xs ! j) = Greater"
    and "base = 0 \<or> cmp (xs ! base) \<noteq> Greater"
  shows "bsearch_loop cmp xs base sz < length xs
    \<and> (\<forall>j. bsearch_loop cmp xs base sz < j \<longrightarrow> j < length xs \<longrightarrow> cmp (xs ! j) = Greater)
    \<and> (bsearch_loop cmp xs base sz = 0 \<or> cmp (xs ! bsearch_loop cmp xs base sz) \<noteq> Greater)"
  using assms
proof (induction cmp xs base sz rule: bsearch_loop.induct)
  case (1 cmp xs base sz)
  show ?case
  proof (cases "1 < sz")
    case False
    then have "bsearch_loop cmp xs base sz = base" by (subst bsearch_loop.simps) simp
    then show ?thesis using 1(3-6) False by auto
  next
    case True
    define half mid where "half = sz div 2" and "mid = base + half"
    have h: "0 < half" "half < sz" using True by (auto simp: half_def)
    define b where "b = (if cmp (xs ! mid) = Greater then base else mid)"
    have eq: "bsearch_loop cmp xs base sz = bsearch_loop cmp xs b (sz - half)"
      using True by (subst bsearch_loop.simps) (simp add: half_def mid_def b_def Let_def)
    have "\<forall>j. b + (sz - half) \<le> j \<longrightarrow> j < length xs \<longrightarrow> cmp (xs ! j) = Greater"
    proof (intro allI impI)
      fix j assume j: "b + (sz - half) \<le> j" "j < length xs"
      show "cmp (xs ! j) = Greater"
      proof (cases "cmp (xs ! mid) = Greater")
        case True
        have "mid \<le> j" using j(1) True by (auto simp: b_def mid_def half_def)
        then show ?thesis using True gradedD(1) [OF 1(2) _ j(2), of mid] by (cases "mid = j") auto
      next
        case False
        then show ?thesis using j h 1(5) by (auto simp: b_def mid_def)
      qed
    qed
    moreover have "b + (sz - half) \<le> length xs" using 1(4) h by (auto simp: b_def mid_def)
    moreover have "b = 0 \<or> cmp (xs ! b) \<noteq> Greater" using 1(6) by (auto simp: b_def)
    moreover note IH = "1.IH" [OF True half_def mid_def, folded b_def, OF 1(2)]
    ultimately show ?thesis unfolding eq using h by (intro IH) auto
  qed
qed

lemma bsearch_spec:
  assumes g: "graded cmp xs"
  shows "case bsearch cmp xs of
      Inr i \<Rightarrow> i < length xs \<and> cmp (xs ! i) = Equal
    | Inl i \<Rightarrow> i \<le> length xs \<and> (\<forall>j < i. cmp (xs ! j) = Less)
        \<and> (\<forall>j. i \<le> j \<longrightarrow> j < length xs \<longrightarrow> cmp (xs ! j) = Greater)"
proof (cases "xs = []")
  case True
  then show ?thesis by (simp add: bsearch_def)
next
  case False
  define b where "b = bsearch_loop cmp xs 0 (length xs)"
  have b: "b < length xs" "\<forall>j. b < j \<longrightarrow> j < length xs \<longrightarrow> cmp (xs ! j) = Greater"
    "b = 0 \<or> cmp (xs ! b) \<noteq> Greater"
    using bsearch_loop_spec [OF g, of "length xs" 0] False by (auto simp: b_def)
  show ?thesis
  proof (cases "cmp (xs ! b)")
    case Less
    have "cmp (xs ! j) = Less" if "j < b + 1" for j
    proof (cases "j = b")
      case False
      then have "j < b" using that by simp
      then show ?thesis using gradedD(2) [OF g _ b(1)] Less by blast
    qed (use Less in simp)
    then show ?thesis using False Less b by (simp add: bsearch_def b_def [symmetric] Suc_le_eq)
  next
    case Equal
    then show ?thesis using False b by (simp add: bsearch_def b_def [symmetric])
  next
    case Greater
    then have "b = 0" using b(3) by simp
    moreover have "cmp (xs ! j) = Greater" if "j < length xs" for j
      using b(2) that Greater \<open>b = 0\<close> by (cases "j = 0") auto
    ultimately show ?thesis using False Greater by (simp add: bsearch_def b_def [symmetric])
  qed
qed

lemma partition_point_spec:
  assumes "\<forall>i j. i < j \<longrightarrow> j < length xs \<longrightarrow> pred (xs ! j) \<longrightarrow> pred (xs ! i)"
  shows "partition_point pred xs \<le> length xs \<and> (\<forall>j < partition_point pred xs. pred (xs ! j))
    \<and> (\<forall>j. partition_point pred xs \<le> j \<longrightarrow> j < length xs \<longrightarrow> \<not> pred (xs ! j))"
proof -
  let ?c = "\<lambda>x. if pred x then Less else Greater"
  have "graded ?c xs" using assms by (auto simp: graded_def)
  from bsearch_spec [OF this] show ?thesis
    by (auto simp: partition_point_def split: sum.splits if_splits)
qed

section \<open>Both resolvers agree\<close>

text \<open>Functions with addresses of their own that do not overlap or wrap around.\<close>

definition separate :: "func_map \<Rightarrow> bool" where
  "separate funcs \<longleftrightarrow>
     (\<forall>(_, fi) \<in> set funcs. unat (fi_addr fi) + unat (fi_size fi) < 2 ^ 64)
     \<and> (\<forall>(n, fi) \<in> set funcs. \<forall>(m, fj) \<in> set funcs. (n, fi) \<noteq> (m, fj) \<longrightarrow>
          fi_addr fi \<noteq> fi_addr fj \<and> (fi_addr fi < fi_addr fj \<longrightarrow> fi_addr fi + fi_size fi \<le> fi_addr fj))"

lemma separateD:
  assumes "separate funcs" and "(n, fi) \<in> set funcs" and "(m, fj) \<in> set funcs"
  shows "fi_addr fi \<le> fi_addr fi + fi_size fi"
    and "(n, fi) \<noteq> (m, fj) \<Longrightarrow> fi_addr fi \<noteq> fi_addr fj"
    and "(n, fi) \<noteq> (m, fj) \<Longrightarrow> fi_addr fi < fi_addr fj \<Longrightarrow> fi_addr fi + fi_size fi \<le> fi_addr fj"
proof -
  have "unat (fi_addr fi) + unat (fi_size fi) < 2 ^ 64"
    using assms unfolding separate_def by fastforce
  then show "fi_addr fi \<le> fi_addr fi + fi_size fi" by (simp add: word_le_nat_alt unat_add_le)
  show "(n, fi) \<noteq> (m, fj) \<Longrightarrow> fi_addr fi \<noteq> fi_addr fj"
    and "(n, fi) \<noteq> (m, fj) \<Longrightarrow> fi_addr fi < fi_addr fj \<Longrightarrow> fi_addr fi + fi_size fi \<le> fi_addr fj"
    using assms unfolding separate_def by fastforce+
qed

text \<open>The function that starts at an address or contains it.\<close>

definition owns :: "func_info \<Rightarrow> u64 \<Rightarrow> bool" where
  "owns fi addr \<longleftrightarrow> fi_addr fi = addr \<or> (fi_addr fi \<le> addr \<and> addr < fi_addr fi + fi_size fi)"

lemma owner_unique:
  assumes s: "separate funcs" and n: "(n, fi) \<in> set funcs" "owns fi addr"
    and m: "(m, fj) \<in> set funcs" "owns fj addr"
  shows "(n, fi) = (m, fj)"
proof (rule ccontr)
  assume ne: "(n, fi) \<noteq> (m, fj)"
  have "fi_addr fi \<le> addr" "fi_addr fj \<le> addr" using n m by (auto simp: owns_def)
  moreover consider "fi_addr fi < fi_addr fj" | "fi_addr fj < fi_addr fi"
    using separateD(2) [OF s n(1) m(1) ne] by (meson linorder_cases)
  then show False
  proof cases
    case 1
    have "fi_addr fi + fi_size fi \<le> fi_addr fj" by (rule separateD(3) [OF s n(1) m(1) ne 1])
    then show False using n(2) 1 \<open>fi_addr fj \<le> addr\<close> by (auto simp: owns_def)
  next
    case 2
    have "fi_addr fj + fi_size fj \<le> fi_addr fi"
      using separateD(3) [OF s m(1) n(1)] ne 2 by blast
    then show False using m(2) 2 \<open>fi_addr fi \<le> addr\<close> by (auto simp: owns_def)
  qed
qed

lemma find_SomeD: "find P xs = Some x \<Longrightarrow> x \<in> set xs \<and> P x"
  by (induction xs) (auto split: if_splits)

lemma resolve_addr_owner:
  assumes "separate funcs"
  shows "resolve_addr addr funcs = Some n \<longleftrightarrow> (\<exists>fi. (n, fi) \<in> set funcs \<and> owns fi addr)"
proof -
  have "\<exists>fi. (m, fi) \<in> set funcs \<and> owns fi addr" if "resolve_addr addr funcs = Some m" for m
    using that by (auto simp: resolve_addr_def owns_def split: option.splits dest!: find_SomeD)
  moreover have "resolve_addr addr funcs \<noteq> None" if "(m, fi) \<in> set funcs" "owns fi addr" for m fi
    using that by (auto simp: resolve_addr_def owns_def find_None_iff split: option.splits)
  ultimately show ?thesis using owner_unique [OF assms] by (metis fst_conv not_None_eq)
qed

lemma index_entry:
  assumes "i < length (build_addr_index funcs)"
  obtains n fi where "(n, fi) \<in> set funcs"
    and "build_addr_index funcs ! i = (fi_addr fi, fi_addr fi + fi_size fi, n)"
proof -
  have "build_addr_index funcs ! i \<in> set (build_addr_index funcs)" using assms by simp
  then show ?thesis using that by (auto simp: build_addr_index_def)
qed

lemma index_of:
  assumes "(n, fi) \<in> set funcs"
  obtains i where "i < length (build_addr_index funcs)"
    and "build_addr_index funcs ! i = (fi_addr fi, fi_addr fi + fi_size fi, n)"
proof -
  have "(fi_addr fi, fi_addr fi + fi_size fi, n) \<in> set (build_addr_index funcs)"
    using assms by (force simp: build_addr_index_def)
  then show ?thesis using that by (metis in_set_conv_nth)
qed

lemma index_sorted:
  "i < j \<Longrightarrow> j < length (build_addr_index funcs) \<Longrightarrow>
     fst (build_addr_index funcs ! i) \<le> fst (build_addr_index funcs ! j)"
  using sorted_nth_mono [of "map fst (build_addr_index funcs)" i j]
  by (simp add: build_addr_index_def)

lemma resolve_addr_fast_owner:
  assumes s: "separate funcs"
  shows "resolve_addr_fast addr (build_addr_index funcs) = Some n
    \<longleftrightarrow> (\<exists>fi. (n, fi) \<in> set funcs \<and> owns fi addr)"
proof -
  let ?x = "build_addr_index funcs" and ?c = "\<lambda>r :: u64 \<times> u64 \<times> fname. compare (fst r) addr"
  have g: "graded ?c ?x"
    unfolding graded_def using index_sorted [of _ _ funcs]
    by (fastforce simp: compare_def split: if_splits)
  note b = bsearch_spec [OF g]
  have "(\<exists>m fi. (m, fi) \<in> set funcs \<and> owns fi addr \<and> resolve_addr_fast addr ?x = Some m)
    \<or> (resolve_addr_fast addr ?x = None \<and> (\<forall>(m, fi) \<in> set funcs. \<not> owns fi addr))"
  proof (cases "bsearch ?c ?x")
    case (Inr i)
    then have i: "i < length ?x" "fst (?x ! i) = addr" using b by (auto simp: compare_def split: if_splits)
    obtain m fi where "(m, fi) \<in> set funcs" "?x ! i = (fi_addr fi, fi_addr fi + fi_size fi, m)"
      using i(1) by (rule index_entry)
    then show ?thesis using Inr i by (force simp: resolve_addr_fast_def owns_def)
  next
    case (Inl k)
    have no: "fst (?x ! j) \<noteq> addr" if "j < length ?x" for j
      using b that unfolding Inl by (cases "j < k") (fastforce simp: compare_def split: if_splits)+
    define p where "p = partition_point (\<lambda>r. fst r \<le> addr) ?x"
    have "\<forall>i j. i < j \<longrightarrow> j < length ?x \<longrightarrow> fst (?x ! j) \<le> addr \<longrightarrow> fst (?x ! i) \<le> addr"
      using index_sorted order_trans by blast
    note pp = partition_point_spec [OF this, folded p_def]
    have below: "\<exists>j < p. ?x ! j = (fi_addr fi, fi_addr fi + fi_size fi, m)"
      if f: "(m, fi) \<in> set funcs" "owns fi addr" for m fi
    proof -
      obtain j where j: "j < length ?x" "?x ! j = (fi_addr fi, fi_addr fi + fi_size fi, m)"
        using f(1) by (rule index_of)
      have "fi_addr fi \<le> addr" using f(2) by (auto simp: owns_def)
      then have "j < p" using pp j by (metis fst_conv not_le_imp_less)
      then show ?thesis using j by blast
    qed
    show ?thesis
    proof (cases "0 < p")
      case False
      then have "resolve_addr_fast addr ?x = None" using Inl by (simp add: resolve_addr_fast_def p_def [symmetric])
      moreover have "\<not> owns fi addr" if "(m, fi) \<in> set funcs" for m fi using below [OF that] False by auto
      ultimately show ?thesis by auto
    next
      case True
      then have l: "p - 1 < length ?x" using pp by linarith
      obtain m fi where m: "(m, fi) \<in> set funcs" "?x ! (p - 1) = (fi_addr fi, fi_addr fi + fi_size fi, m)"
        using l by (rule index_entry)
      have le: "fi_addr fi \<le> addr" using pp True m(2) by (metis diff_less fst_conv zero_less_one)
      have "fi_addr fi \<noteq> addr" using no [OF l] m(2) by simp
      then have res: "resolve_addr_fast addr ?x = (if owns fi addr then Some m else None)"
        using Inl True m(2) le by (simp add: resolve_addr_fast_def p_def [symmetric] Let_def owns_def)
      have uniq: "(k, fj) = (m, fi)" if k: "(k, fj) \<in> set funcs" "owns fj addr" for k fj
      proof (rule ccontr)
        assume ne: "(k, fj) \<noteq> (m, fi)"
        obtain j where j: "j < p" "?x ! j = (fi_addr fj, fi_addr fj + fi_size fj, k)"
          using below [OF k] by blast
        have "j \<noteq> p - 1"
        proof
          assume "j = p - 1"
          then have "fi_addr fj = fi_addr fi" using j(2) m(2) by simp
          then show False using separateD(2) [OF s k(1) m(1) ne] by simp
        qed
        then have "j < p - 1" using j(1) by simp
        then have "fi_addr fj \<le> fi_addr fi"
          using index_sorted [of j "p - 1" funcs] j(2) l m(2) by simp
        then have "fi_addr fj + fi_size fj \<le> fi_addr fi"
          using separateD(2,3) [OF s k(1) m(1) ne] by simp
        then have "\<not> addr < fi_addr fj + fi_size fj" using le by simp
        moreover have "fi_addr fj \<noteq> addr"
          using no [of j] j l by auto
        ultimately show False using k(2) by (simp add: owns_def)
      qed
      show ?thesis
      proof (cases "owns fi addr")
        case True
        then show ?thesis using m(1) res by auto
      next
        case False
        have "\<not> owns fj addr" if "(k, fj) \<in> set funcs" for k fj
          using uniq [OF that] False by blast
        then show ?thesis using res False by auto
      qed
    qed
  qed
  then show ?thesis
  proof (elim disjE exE conjE)
    fix m fi assume m: "(m, fi) \<in> set funcs" "owns fi addr" "resolve_addr_fast addr ?x = Some m"
    have "m = k" if "(k, fj) \<in> set funcs" "owns fj addr" for k fj
      using owner_unique [OF s m(1,2) that] by simp
    then show ?thesis using m(1,2) unfolding m(3) option.inject by blast
  next
    assume "resolve_addr_fast addr ?x = None" "\<forall>(m, fi) \<in> set funcs. \<not> owns fi addr"
    then show ?thesis by auto
  qed
qed

lemma resolve_addr_fast_correct_eq:
  assumes "separate funcs"
  shows "resolve_addr_fast addr (build_addr_index funcs) = resolve_addr addr funcs"
  using resolve_addr_owner [OF assms, of addr] resolve_addr_fast_owner [OF assms, of addr]
  by (metis not_None_eq)

text \<open>The binary search in the index resolves every address as the direct search through the
  functions does, for functions that do not overlap.\<close>

theorem resolve_addr_fast_correct:
  assumes "separate funcs"
  shows "resolve_addr_fast addr (build_addr_index funcs) = resolve_addr addr funcs"
  by (rule resolve_addr_fast_correct_eq [OF assms])

section \<open>The graph\<close>









section \<open>Live code refers to live functions\<close>

definition analysed_live :: "func_map \<Rightarrow> decoded_instr list \<Rightarrow> fname list \<Rightarrow> fname list" where
  "analysed_live funcs instrs data_refs =
     (case build_ref_graph_fast funcs instrs of (graph, orphans) \<Rightarrow>
        compute_live_set (determine_roots funcs data_refs orphans) graph funcs)"


text \<open>Two functions: the first calls the second.\<close>

definition ex_funcs :: func_map where
  "ex_funcs = [(''f'', \<lparr>fi_addr = 0x1000, fi_size = 8, is_global = False\<rparr>),
     (''main'', \<lparr>fi_addr = 0x1008, fi_size = 8, is_global = False\<rparr>)]"


lemma ex_separate: "separate ex_funcs"
  by (auto simp: separate_def ex_funcs_def)

theorem resolve_addr_fast_correct_witness:
  "resolve_addr_fast 0x1004 (build_addr_index ex_funcs) = Some ''f''"
proof -
  have "resolve_addr 0x1004 ex_funcs = Some ''f''" by code_simp
  then show ?thesis using resolve_addr_fast_correct [OF ex_separate, of "0x1004"] by simp
qed



section \<open>Nested functions\<close>

text \<open>Where one function's range lies inside another's, the index misses the tail of the outer one:
  only the last function that starts before the address is looked at. A live jump there leaves the
  outer function dead, while the direct search would keep it.\<close>

theorem nested_function_missed:
  "let outer = (''outer'', \<lparr>fi_addr = 0x1000, fi_size = 0x100, is_global = False\<rparr>);
       inner = (''inner'', \<lparr>fi_addr = 0x1010, fi_size = 0x10, is_global = False\<rparr>);
       main = (''main'', \<lparr>fi_addr = 0x2000, fi_size = 0x10, is_global = False\<rparr>);
       funcs = [outer, inner, main];
       jump = \<lparr>i_addr = 0x2000, raw = [], i_len = 4, targets = [0x1050], pc_rel_target = None,
         is_call = False, flow = UnconditionalBranch\<rparr>
   in resolve_addr 0x1050 funcs = Some ''outer''
      \<and> resolve_addr_fast 0x1050 (build_addr_index funcs) = None
      \<and> (''outer'', (0x1000, 0x100)) \<in> set (find_dead funcs (analysed_live funcs [jump] []))"
  by code_simp

end
