(* ===== verification/Lattice.thy ===== *)
theory Lattice
  imports Prelude
begin

text \<open>
  \<open>src/analysis/lattice.rs\<close>: the three-level lattice of abstract register values. The type is made
  an instance of the library's bounded semilattice, so that \<open>meet\<close> of the code is the join \<open>sup\<close>
  of the order Bot < Const < Top; the evaluation of operations and comparisons is monotone and sound
  for the machine values an abstract value stands for.
\<close>

section \<open>The code\<close>

datatype val = Bot | Const i64 | Top

fun meet :: "val \<Rightarrow> val \<Rightarrow> val" where
  "meet Bot v = v"
| "meet v Bot = v"
| "meet Top _ = Top"
| "meet _ Top = Top"
| "meet (Const a) (Const b) = (if a = b then Const a else Top)"

fun is_const :: "val \<Rightarrow> bool" where
  "is_const (Const _) = True"
| "is_const _ = False"

fun as_const :: "val \<Rightarrow> i64 option" where
  "as_const (Const v) = Some v"
| "as_const _ = None"

datatype bin_op = Add | Sub | And | Or | Xor | Shl | Shr | Sar | Mul

datatype cond_code = Eq | Ne | Lt | Ge | Le | Gt | Ltu | Geu

text \<open>\<open>wrapping_shl\<close> and \<open>wrapping_shr\<close> of a 64-bit integer use the low six bits of their \<open>u32\<close>
  count.\<close>

definition shift_count :: "i64 \<Rightarrow> nat" where
  "shift_count y = unat ((ucast y :: u32) AND 63)"

fun binop :: "bin_op \<Rightarrow> i64 \<Rightarrow> i64 \<Rightarrow> i64" where
  "binop Add x y = x + y"
| "binop Sub x y = x - y"
| "binop And x y = x AND y"
| "binop Or x y = x OR y"
| "binop Xor x y = x XOR y"
| "binop Shl x y = push_bit (shift_count y) x"
| "binop Shr x y = drop_bit (shift_count y) x"
| "binop Sar x y = sar x (shift_count y)"
| "binop Mul x y = x * y"

definition compute_binop :: "bin_op \<Rightarrow> i64 \<Rightarrow> i64 \<Rightarrow> val" where
  "compute_binop op x y = Const (binop op x y)"

fun eval_binop :: "bin_op \<Rightarrow> val \<Rightarrow> val \<Rightarrow> val" where
  "eval_binop op Bot _ = Bot"
| "eval_binop op _ Bot = Bot"
| "eval_binop op Top _ = Top"
| "eval_binop op _ Top = Top"
| "eval_binop op (Const x) (Const y) = compute_binop op x y"

fun compare_cc :: "i64 \<Rightarrow> i64 \<Rightarrow> cond_code \<Rightarrow> bool" where
  "compare_cc x y Eq = (x = y)"
| "compare_cc x y Ne = (x \<noteq> y)"
| "compare_cc x y Lt = (x <s y)"
| "compare_cc x y Ge = (y \<le>s x)"
| "compare_cc x y Le = (x \<le>s y)"
| "compare_cc x y Gt = (y <s x)"
| "compare_cc x y Ltu = (x < y)"
| "compare_cc x y Geu = (y \<le> x)"

fun eval_cmp :: "cond_code \<Rightarrow> val \<Rightarrow> val \<Rightarrow> val" where
  "eval_cmp cc Bot _ = Bot"
| "eval_cmp cc _ Bot = Bot"
| "eval_cmp cc Top _ = Top"
| "eval_cmp cc _ Top = Top"
| "eval_cmp cc (Const x) (Const y) = Const (if compare_cc x y cc then 1 else 0)"

section \<open>The order\<close>

instantiation val :: "{bounded_semilattice_sup_bot, order_top}"
begin

definition less_eq_val :: "val \<Rightarrow> val \<Rightarrow> bool" where
  "x \<le> y \<longleftrightarrow> x = Bot \<or> y = Top \<or> x = y" for x y :: val

definition less_val :: "val \<Rightarrow> val \<Rightarrow> bool" where
  "x < y \<longleftrightarrow> x \<le> y \<and> x \<noteq> y" for x y :: val

definition sup_val :: "val \<Rightarrow> val \<Rightarrow> val" where
  "sup = meet"

definition bot_val :: val where
  "bot = Bot"

definition top_val :: val where
  "top = Top"

instance
proof
  fix x y z :: val
  show "x < y \<longleftrightarrow> x \<le> y \<and> \<not> y \<le> x" "x \<le> x" "bot \<le> x" "x \<le> top"
    by (auto simp: less_val_def less_eq_val_def bot_val_def top_val_def)
  show "x \<le> y \<Longrightarrow> y \<le> z \<Longrightarrow> x \<le> z" "x \<le> y \<Longrightarrow> y \<le> x \<Longrightarrow> x = y"
    by (auto simp: less_eq_val_def)
  show "x \<le> sup x y" "y \<le> sup x y" "y \<le> x \<Longrightarrow> z \<le> x \<Longrightarrow> sup y z \<le> x"
    by (cases x; cases y; cases z; auto simp: less_eq_val_def sup_val_def)+
qed

end

text \<open>The height of the lattice is two: a measure for the passes over it.\<close>

fun rank :: "val \<Rightarrow> nat" where
  "rank Bot = 0"
| "rank (Const _) = 1"
| "rank Top = 2"

lemma rank_strict: "x < y \<Longrightarrow> rank x < rank y"
  by (cases x; cases y) (auto simp: less_val_def less_eq_val_def)

lemma rank_le: "rank x \<le> 2"
  by (cases x) simp_all

section \<open>Meaning of the abstract values\<close>

fun stands_for :: "val \<Rightarrow> i64 set" where
  "stands_for Bot = {}"
| "stands_for (Const c) = {c}"
| "stands_for Top = UNIV"

lemma stands_for_mono: "a \<le> b \<Longrightarrow> stands_for a \<subseteq> stands_for b"
  by (cases a; cases b) (auto simp: less_eq_val_def)

lemma meet_upper: "a \<le> meet a b" "b \<le> meet a b"
  using sup_ge1 [of a b] sup_ge2 [of b a] by (simp_all add: sup_val_def)

lemma meet_least: "meet a b \<le> c \<longleftrightarrow> a \<le> c \<and> b \<le> c"
  using sup.bounded_iff [of a b c] by (simp add: sup_val_def)

lemma meet_fix: "meet a b = a \<longleftrightarrow> b \<le> a"
  using sup.absorb_iff1 [of b a] by (auto simp: sup_val_def)

lemma eval_binop_sound:
  "x \<in> stands_for a \<Longrightarrow> y \<in> stands_for b \<Longrightarrow> binop op x y \<in> stands_for (eval_binop op a b)"
  by (cases a; cases b) (auto simp: compute_binop_def)

lemma eval_binop_mono: "a \<le> a' \<Longrightarrow> b \<le> b' \<Longrightarrow> eval_binop op a b \<le> eval_binop op a' b'"
  by (cases a; cases a'; cases b; cases b') (auto simp: less_eq_val_def)

lemma eval_cmp_sound:
  "x \<in> stands_for a \<Longrightarrow> y \<in> stands_for b \<Longrightarrow>
     (if compare_cc x y cc then 1 else 0) \<in> stands_for (eval_cmp cc a b)"
  by (cases a; cases b) auto

text \<open>The order is that of the sets of values, so \<open>meet\<close> is the best abstraction of a union.\<close>

lemma le_iff_stands_for: "a \<le> b \<longleftrightarrow> stands_for a \<subseteq> stands_for b"
proof (cases a; cases b)
  fix c assume "a = Top" "b = Const c"
  moreover have "(UNIV :: i64 set) \<noteq> {c}" by (metis UNIV_I singletonD zero_neq_one)
  ultimately show ?thesis by (auto simp: less_eq_val_def)
qed (auto simp: less_eq_val_def)

text \<open>The meet of two abstract values is the best abstraction of the values they stand for: it
  lies below exactly the abstract values that cover both.\<close>

theorem meet_best_abstraction:
  "meet a b \<le> c \<longleftrightarrow> stands_for a \<union> stands_for b \<subseteq> stands_for c"
  by (metis le_iff_stands_for meet_least Un_subset_iff)

end
