(* ===== verification/Cfg.thy ===== *)
theory Cfg
  imports Intervals Reachability
begin

text \<open>
  \<open>src/analysis/cfg.rs\<close> and \<open>src/analysis/noreturn.rs\<close>: basic blocks of a function, the edges
  between them, the blocks the entry does not reach, and the code after calls that never return.
  Instructions of a function are the list of those whose address lies in it, in the order of
  \<open>instrs\<close>; a block is at the index that is its \<open>id\<close>.
\<close>

section \<open>Data\<close>

definition noreturn_funcs :: "fname list" where
  "noreturn_funcs = [''exit'', ''_exit'', ''_Exit'', ''abort'', ''__stack_chk_fail'', ''__assert_fail'',
     ''__assert_rtn'', ''longjmp'', ''_longjmp'', ''siglongjmp'', ''__cxa_throw'', ''__cxa_rethrow'',
     ''pthread_exit'', ''thrd_exit'', ''ExitProcess'', ''TerminateProcess'', ''RaiseException'',
     ''__fortify_fail'', ''__libc_fatal'', ''__builtin_unreachable'',
     ''__ubsan_handle_builtin_unreachable'', ''rust_begin_unwind'', ''__assert2'']"

type_synonym import_names = "(u64 \<times> fname) list"

record basic_block =
  bb_id :: nat
  start_addr :: u64
  end_addr :: u64
  successors :: "nat list"
  predecessors :: "nat list"

record func_cfg =
  func_name :: fname
  func_addr :: u64
  func_size :: u64
  blocks :: "basic_block list"
  entry_block :: nat

section \<open>Code after calls that do not return\<close>

definition starts_with :: "string \<Rightarrow> string \<Rightarrow> bool" where
  "starts_with name p \<longleftrightarrow> take (length p) name = p"

definition should_analyze :: "fname \<Rightarrow> func_info \<Rightarrow> fname list \<Rightarrow> bool" where
  "should_analyze name fi live_funcs \<longleftrightarrow>
     name \<in> set live_funcs \<and> 16 \<le> fi_size fi \<and> \<not> starts_with name ''sub_''"

definition in_func :: "u64 \<Rightarrow> u64 \<Rightarrow> decoded_instr list \<Rightarrow> decoded_instr list" where
  "in_func start func_end instrs = filter (\<lambda>i. start \<le> i_addr i \<and> i_addr i < func_end) instrs"

definition collect_branch_targets :: "decoded_instr list \<Rightarrow> u64 \<Rightarrow> u64 \<Rightarrow> u64 list" where
  "collect_branch_targets instrs func_start func_end =
     foldl (\<lambda>acc i. if is_call i then acc
         else set_extend acc (filter (\<lambda>t. func_start \<le> t \<and> t < func_end) (targets i))) [] instrs"

text \<open>One target of a call: the name it is imported under, or a function at its address.\<close>

definition noreturn_target :: "u64 \<Rightarrow> func_map \<Rightarrow> import_names \<Rightarrow> bool" where
  "noreturn_target tgt funcs import_names \<longleftrightarrow>
     (case map_of import_names tgt of Some name \<Rightarrow> name \<in> set noreturn_funcs | None \<Rightarrow> False)
     \<or> list_ex (\<lambda>(name, fi). fi_addr fi = tgt \<and> name \<in> set noreturn_funcs) funcs"

definition is_noreturn_call :: "decoded_instr \<Rightarrow> func_map \<Rightarrow> import_names \<Rightarrow> bool" where
  "is_noreturn_call instr funcs import_names \<longleftrightarrow>
     list_ex (\<lambda>tgt. noreturn_target tgt funcs import_names) (targets instr)"

definition is_dead_start :: "decoded_instr \<Rightarrow> func_map \<Rightarrow> import_names \<Rightarrow> bool" where
  "is_dead_start instr funcs import_names \<longleftrightarrow>
     flow instr = Call \<and> is_noreturn_call instr funcs import_names"

text \<open>\<open>instrs\<close> is what follows the call.\<close>

fun find_dead_end :: "decoded_instr list \<Rightarrow> u64 \<Rightarrow> u64 list \<Rightarrow> u64" where
  "find_dead_end [] func_end branch_targets = func_end"
| "find_dead_end (i # instrs) func_end branch_targets =
     (if func_end \<le> i_addr i then func_end
      else if i_addr i \<in> set branch_targets then i_addr i
      else find_dead_end instrs func_end branch_targets)"

definition next_addr :: "decoded_instr \<Rightarrow> u64" where
  "next_addr i = i_addr i + of_nat (i_len i)"

definition scan_dead_region ::
  "decoded_instr \<Rightarrow> decoded_instr list \<Rightarrow> u64 \<Rightarrow> u64 list \<Rightarrow> (u64 \<times> u64) option" where
  "scan_dead_region start_instr rest func_end branch_targets =
     (let dead_start = next_addr start_instr in
      if func_end \<le> dead_start then None
      else let sz = find_dead_end rest func_end branch_targets - dead_start
           in if 2 \<le> sz then Some (dead_start, sz) else None)"

fun find_post_noreturn_dead ::
  "fname \<Rightarrow> decoded_instr list \<Rightarrow> func_map \<Rightarrow> import_names \<Rightarrow> u64 list \<Rightarrow> u64 \<Rightarrow> dead_block list" where
  "find_post_noreturn_dead name [] funcs import_names branch_targets func_end = []"
| "find_post_noreturn_dead name (i # rest) funcs import_names branch_targets func_end =
     (let dead = find_post_noreturn_dead name rest funcs import_names branch_targets func_end in
      if is_dead_start i funcs import_names then
        (case scan_dead_region i rest func_end branch_targets of
           Some (a, s) \<Rightarrow> \<lparr>db_func = name, db_addr = a, db_size = s\<rparr> # dead
         | None \<Rightarrow> dead)
      else dead)"

definition find_dead_in_func ::
  "fname \<Rightarrow> func_info \<Rightarrow> decoded_instr list \<Rightarrow> func_map \<Rightarrow> import_names \<Rightarrow> dead_block list" where
  "find_dead_in_func name fi instrs funcs import_names =
     (let func_end = fi_addr fi + fi_size fi;
          func_instrs = in_func (fi_addr fi) func_end instrs
      in if func_instrs = [] then []
         else find_post_noreturn_dead name func_instrs funcs import_names
           (collect_branch_targets func_instrs (fi_addr fi) func_end) func_end)"

definition find_dead_blocks ::
  "func_map \<Rightarrow> decoded_instr list \<Rightarrow> fname list \<Rightarrow> import_names \<Rightarrow> dead_block list" where
  "find_dead_blocks funcs instrs live_funcs import_names =
     concat (map (\<lambda>(name, fi).
       if should_analyze name fi live_funcs then find_dead_in_func name fi instrs funcs import_names
       else []) funcs)"

section \<open>Blocks and edges\<close>

definition is_safe_for_cfg :: "decoded_instr list \<Rightarrow> bool" where
  "is_safe_for_cfg instrs \<longleftrightarrow>
     \<not> list_ex (\<lambda>i. flow i = IndirectBranch \<or> flow i = IndirectCall) instrs
     \<and> list_ex (\<lambda>i. flow i = Return \<or> flow i = Halt) instrs"

definition should_analyze_cfg :: "fname \<Rightarrow> func_info \<Rightarrow> fname list \<Rightarrow> decoded_instr list \<Rightarrow> bool" where
  "should_analyze_cfg name fi live_funcs instrs \<longleftrightarrow>
     should_analyze name fi live_funcs
     \<and> is_safe_for_cfg (in_func (fi_addr fi) (fi_addr fi + fi_size fi) instrs)"

definition is_block_terminator :: "flow_type \<Rightarrow> bool" where
  "is_block_terminator f \<longleftrightarrow> f \<noteq> Normal"

text \<open>The starts one instruction adds.\<close>

definition starts_of :: "u64 \<Rightarrow> u64 \<Rightarrow> decoded_instr \<Rightarrow> u64 list" where
  "starts_of func_start func_end i =
     (if is_block_terminator (flow i) \<and> next_addr i < func_end then [next_addr i] else [])
     @ (if is_call i then [] else filter (\<lambda>t. func_start \<le> t \<and> t < func_end) (targets i))"

definition find_block_starts :: "decoded_instr list \<Rightarrow> u64 \<Rightarrow> u64 \<Rightarrow> u64 list" where
  "find_block_starts instrs func_start func_end =
     sort (foldl (\<lambda>acc i. set_extend acc (starts_of func_start func_end i)) [func_start] instrs)"

definition create_blocks :: "u64 list \<Rightarrow> u64 \<Rightarrow> basic_block list" where
  "create_blocks starts func_end =
     map (\<lambda>id. \<lparr>bb_id = id, start_addr = starts ! id,
         end_addr = (if id + 1 < length starts then starts ! (id + 1) else func_end),
         successors = [], predecessors = []\<rparr>) [0..<length starts]"

definition find_last_instr :: "decoded_instr list \<Rightarrow> u64 \<Rightarrow> u64 \<Rightarrow> decoded_instr option" where
  "find_last_instr instrs start en = find (\<lambda>i. start \<le> i_addr i \<and> i_addr i < en) (rev instrs)"

definition fallthrough_edge :: "nat \<Rightarrow> nat \<Rightarrow> nat list" where
  "fallthrough_edge bid n = (if bid + 1 < n then [bid + 1] else [])"

definition resolve_targets :: "decoded_instr \<Rightarrow> (u64 \<times> nat) list \<Rightarrow> nat list" where
  "resolve_targets last_i addr_to_block = List.map_filter (map_of addr_to_block) (targets last_i)"

definition push_new :: "nat list \<Rightarrow> nat \<Rightarrow> nat list" where
  "push_new e t = (if t \<in> set e then e else e @ [t])"

definition compute_edges ::
  "decoded_instr \<Rightarrow> nat \<Rightarrow> nat \<Rightarrow> func_map \<Rightarrow> import_names \<Rightarrow> (u64 \<times> nat) list \<Rightarrow> nat list" where
  "compute_edges last_i bid n funcs import_names addr_to_block =
     (case flow last_i of
        Normal \<Rightarrow> fallthrough_edge bid n
      | IndirectCall \<Rightarrow> fallthrough_edge bid n
      | Call \<Rightarrow>
          if is_noreturn_call last_i funcs import_names then [] else fallthrough_edge bid n
      | UnconditionalBranch \<Rightarrow> resolve_targets last_i addr_to_block
      | ConditionalBranch \<Rightarrow>
          foldl push_new (fallthrough_edge bid n) (resolve_targets last_i addr_to_block)
      | Return \<Rightarrow> []
      | Halt \<Rightarrow> []
      | IndirectBranch \<Rightarrow> [0..<n])"

definition addr_ids :: "basic_block list \<Rightarrow> (u64 \<times> nat) list" where
  "addr_ids bs = map (\<lambda>b. (start_addr b, bb_id b)) bs"

definition block_edges :: "basic_block list \<Rightarrow> decoded_instr list \<Rightarrow> func_map \<Rightarrow> nat \<Rightarrow> nat list" where
  "block_edges bs instrs funcs bid =
     (case find_last_instr instrs (start_addr (bs ! bid)) (end_addr (bs ! bid)) of
        Some i \<Rightarrow> compute_edges i bid (length bs) funcs [] (addr_ids bs)
      | None \<Rightarrow> fallthrough_edge bid (length bs))"

definition add_edges :: "basic_block list \<Rightarrow> decoded_instr list \<Rightarrow> func_map \<Rightarrow> basic_block list" where
  "add_edges bs instrs funcs =
     map (\<lambda>bid. (bs ! bid)\<lparr>successors := block_edges bs instrs funcs bid\<rparr>) [0..<length bs]"

text \<open>\<open>preds[s]\<close> holds one entry per edge to \<open>s\<close>, in the order of the blocks.\<close>

definition preds_of :: "basic_block list \<Rightarrow> nat \<Rightarrow> nat list" where
  "preds_of bs s = concat (map (\<lambda>b. map (\<lambda>_. bb_id b) (filter (\<lambda>t. t = s) (successors b))) bs)"

definition fill_predecessors :: "basic_block list \<Rightarrow> basic_block list" where
  "fill_predecessors bs =
     map (\<lambda>s. (bs ! s)\<lparr>predecessors := preds_of bs s\<rparr>) [0..<length bs]"

definition find_entry_block :: "basic_block list \<Rightarrow> u64 \<Rightarrow> nat" where
  "find_entry_block bs addr =
     (case find (\<lambda>b. start_addr b = addr) bs of Some b \<Rightarrow> bb_id b | None \<Rightarrow> 0)"

definition build_func_cfg :: "fname \<Rightarrow> func_info \<Rightarrow> decoded_instr list \<Rightarrow> func_map \<Rightarrow> func_cfg" where
  "build_func_cfg name fi instrs funcs =
     (let func_end = fi_addr fi + fi_size fi;
          fi_instrs = in_func (fi_addr fi) func_end instrs;
          starts = find_block_starts fi_instrs (fi_addr fi) func_end;
          bs = fill_predecessors (add_edges (create_blocks starts func_end) fi_instrs funcs)
      in \<lparr>func_name = name, func_addr = fi_addr fi, func_size = fi_size fi, blocks = bs,
          entry_block = find_entry_block bs (fi_addr fi)\<rparr>)"

section \<open>Unreachable blocks\<close>

definition block_graph :: "func_cfg \<Rightarrow> nat adj" where
  "block_graph cfg = zip [0..<length (blocks cfg)] (map successors (blocks cfg))"

definition bfs_reachable :: "func_cfg \<Rightarrow> nat list" where
  "bfs_reachable cfg = bfs [entry_block cfg] (block_graph cfg)"

definition dead_block_of :: "func_cfg \<Rightarrow> basic_block \<Rightarrow> dead_block" where
  "dead_block_of cfg b =
     \<lparr>db_func = func_name cfg, db_addr = start_addr b, db_size = end_addr b - start_addr b\<rparr>"

definition find_unreachable_blocks :: "func_cfg \<Rightarrow> dead_block list" where
  "find_unreachable_blocks cfg =
     (if blocks cfg = [] then []
      else let reachable = bfs_reachable cfg
           in map (dead_block_of cfg)
                (filter (\<lambda>b. 2 \<le> end_addr b - start_addr b)
                  (filter (\<lambda>b. bb_id b \<notin> set reachable) (blocks cfg))))"

definition find_dead_blocks_cfg ::
  "func_map \<Rightarrow> decoded_instr list \<Rightarrow> fname list \<Rightarrow> dead_block list" where
  "find_dead_blocks_cfg funcs instrs live_funcs =
     concat (map (\<lambda>(name, fi).
       if should_analyze_cfg name fi live_funcs instrs
       then find_unreachable_blocks (build_func_cfg name fi instrs funcs)
       else []) funcs)"

end
