(* ===== verification/Cfg_Blocks.thy ===== *)
theory Cfg_Blocks
  imports Cfg
begin

text \<open>
  Execution inside one function as steps between addresses, the code removed after calls that do
  not return, and the blocks of the control flow graph: they tile the function, and every step
  stays in its block or follows an edge.
\<close>

section \<open>Execution inside a function\<close>

text \<open>Control moves from an instruction to the next one or to a target of a branch; a call that
  \<open>stops\<close> does not return. Steps start at the instructions \<open>fs\<close> of one function.\<close>

inductive flow_step :: "decoded_instr list \<Rightarrow> (decoded_instr \<Rightarrow> bool) \<Rightarrow> u64 \<Rightarrow> u64 \<Rightarrow> bool"
  for fs stops where
  onward: "i \<in> set fs \<Longrightarrow> flow i \<in> {Normal, ConditionalBranch, IndirectCall} \<or> flow i = Call \<and> \<not> stops i \<Longrightarrow>
    flow_step fs stops (i_addr i) (next_addr i)"
| branch: "i \<in> set fs \<Longrightarrow> flow i \<in> {UnconditionalBranch, ConditionalBranch} \<Longrightarrow> t \<in> set (targets i) \<Longrightarrow>
    flow_step fs stops (i_addr i) t"

inductive_cases flow_stepE: "flow_step fs stops a b"

definition in_order :: "decoded_instr list \<Rightarrow> bool" where
  "in_order fs \<longleftrightarrow> (\<forall>i \<in> set fs. i_addr i < next_addr i) \<and> sorted_wrt (\<lambda>i j. next_addr i \<le> i_addr j) fs"

text \<open>What the analyses rely on: the decoder lists the instructions of the function in order, no
  indirect branch is among them, and branches inside the function go to decoded instructions.\<close>

definition func_instrs :: "func_info \<Rightarrow> decoded_instr list \<Rightarrow> decoded_instr list" where
  "func_instrs fi instrs = in_func (fi_addr fi) (fi_addr fi + fi_size fi) instrs"

definition func_range :: "func_info \<Rightarrow> u64 set" where
  "func_range fi = {fi_addr fi..<fi_addr fi + fi_size fi}"

definition block_range :: "dead_block \<Rightarrow> u64 set" where
  "block_range db = {db_addr db..<db_addr db + db_size db}"

definition well_decoded :: "func_info \<Rightarrow> decoded_instr list \<Rightarrow> bool" where
  "well_decoded fi instrs \<longleftrightarrow>
     in_order (func_instrs fi instrs)
     \<and> (\<forall>i \<in> set (func_instrs fi instrs). (is_call i \<longleftrightarrow> flow i = Call) \<and> flow i \<noteq> IndirectBranch
          \<and> (\<forall>t \<in> set (targets i). \<not> is_call i \<longrightarrow> t \<in> func_range fi \<longrightarrow>
               t \<in> i_addr ` set (func_instrs fi instrs)))"

lemma in_orderD:
  assumes "in_order (xs @ c # ys)" 
  shows "i_addr c < next_addr c" "i \<in> set xs \<Longrightarrow> next_addr i \<le> i_addr c"
    "j \<in> set ys \<Longrightarrow> next_addr c \<le> i_addr j"
  using assms by (auto simp: in_order_def sorted_wrt_append)

lemma set_branch_targets:
  "set (collect_branch_targets instrs a b) =
     {t. \<exists>i \<in> set instrs. \<not> is_call i \<and> t \<in> set (targets i) \<and> a \<le> t \<and> t < b}"
proof -
  have "set (foldl (\<lambda>acc i. if is_call i then acc
      else set_extend acc (filter (\<lambda>t. a \<le> t \<and> t < b) (targets i))) acc instrs)
    = set acc \<union> {t. \<exists>i \<in> set instrs. \<not> is_call i \<and> t \<in> set (targets i) \<and> a \<le> t \<and> t < b}" for acc
    by (induction instrs arbitrary: acc) auto
  then show ?thesis by (simp add: collect_branch_targets_def)
qed

text \<open>The dead region ends at or before every branch target that follows the call.\<close>

lemma find_dead_end_spec:
  assumes "\<forall>i \<in> set rest. i_addr i < func_end" "\<forall>i \<in> set rest. lo \<le> i_addr i" "lo \<le> func_end"
  shows "find_dead_end rest func_end bts \<le> func_end" "lo \<le> find_dead_end rest func_end bts"
    "i \<in> set rest \<Longrightarrow> sorted_wrt (\<lambda>i j. i_addr i \<le> i_addr j) rest \<Longrightarrow> i_addr i \<in> set bts \<Longrightarrow>
       find_dead_end rest func_end bts \<le> i_addr i"
  using assms
  by (induction rest func_end bts rule: find_dead_end.induct) (auto simp: not_le)

lemma in_post_noreturn_dead:
  assumes "db \<in> set (find_post_noreturn_dead name fs funcs import_names bts func_end)"
  shows "\<exists>xs c ys s. fs = xs @ c # ys \<and> is_dead_start c funcs import_names
    \<and> scan_dead_region c ys func_end bts = Some (db_addr db, db_size db) \<and> db_func db = name"
  using assms
proof (induction fs)
  case (Cons i fs)
  show ?case
  proof (cases "db \<in> set (find_post_noreturn_dead name fs funcs import_names bts func_end)")
    case True
    from Cons.IH [OF this] obtain xs c ys where "fs = xs @ c # ys" "is_dead_start c funcs import_names"
      "scan_dead_region c ys func_end bts = Some (db_addr db, db_size db)" "db_func db = name" by auto
    then show ?thesis by (intro exI [of _ "i # xs"] exI [of _ c] exI [of _ ys]) simp
  next
    case False
    then have "is_dead_start i funcs import_names"
      "scan_dead_region i fs func_end bts = Some (db_addr db, db_size db)" "db_func db = name"
      using Cons.prems by (auto simp: Let_def split: if_splits option.splits)
    then show ?thesis by (intro exI [of _ "[]"] exI [of _ i] exI [of _ fs]) simp
  qed
qed simp

lemma scan_dead_region_Some:
  assumes "scan_dead_region c ys func_end bts = Some (a, s)"
  shows "a = next_addr c" "a < func_end" "a + s = find_dead_end ys func_end bts"
  using assms by (auto simp: scan_dead_region_def Let_def split: if_splits)

lemma find_dead_in_func_region:
  assumes db: "db \<in> set (find_dead_in_func name fi instrs funcs import_names)"
    and wd: "in_order (func_instrs fi instrs)"
  obtains xs c ys where "func_instrs fi instrs = xs @ c # ys" "is_dead_start c funcs import_names"
    "db_addr db = next_addr c" "block_range db \<subseteq> func_range fi"
    "\<forall>i \<in> set ys. i_addr i \<in> set (collect_branch_targets (func_instrs fi instrs)
        (fi_addr fi) (fi_addr fi + fi_size fi)) \<longrightarrow> i_addr i \<notin> block_range db"
proof -
  let ?fe = "fi_addr fi + fi_size fi" and ?fs = "func_instrs fi instrs"
  let ?bts = "collect_branch_targets ?fs (fi_addr fi) ?fe"
  have "db \<in> set (find_post_noreturn_dead name ?fs funcs import_names ?bts ?fe)"
    using db by (auto simp: find_dead_in_func_def func_instrs_def Let_def split: if_splits)
  from in_post_noreturn_dead [OF this] obtain xs c ys where fs: "?fs = xs @ c # ys"
    and start: "is_dead_start c funcs import_names"
    and scan: "scan_dead_region c ys ?fe ?bts = Some (db_addr db, db_size db)" by auto
  note region = scan_dead_region_Some [OF scan]
  have inf: "i_addr i \<in> func_range fi" if "i \<in> set ?fs" for i
    using that by (auto simp: func_instrs_def in_func_def func_range_def)
  note ord = in_orderD [OF wd [unfolded fs]]
  have sorted: "sorted_wrt (\<lambda>i j. i_addr i \<le> i_addr j) ys"
    using wd unfolding fs in_order_def sorted_wrt_append
    by (auto elim!: sorted_wrt_mono_rel [rotated] intro: less_imp_le [OF less_le_trans])
  have ys: "\<forall>i \<in> set ys. i_addr i < ?fe" "\<forall>i \<in> set ys. next_addr c \<le> i_addr i"
    using inf ord(3) unfolding fs func_range_def by auto
  note ends = find_dead_end_spec [where bts = ?bts, OF ys]
  have c: "fi_addr fi \<le> i_addr c" using inf [of c] fs by (auto simp: func_range_def)
  show thesis
  proof (rule that [OF fs start region(1)])
    show "block_range db \<subseteq> func_range fi"
      using region ends(1,2) c ord(1) unfolding block_range_def func_range_def by auto
    have "i_addr i \<notin> block_range db" if "i \<in> set ys" "i_addr i \<in> set ?bts" for i
    proof -
      have "find_dead_end ys ?fe ?bts \<le> i_addr i" using that ends(3) sorted region(1,2) by auto
      then show ?thesis using region(3) by (auto simp: block_range_def)
    qed
    then show "\<forall>i \<in> set ys. i_addr i \<in> set ?bts \<longrightarrow> i_addr i \<notin> block_range db" by blast
  qed
qed

lemma find_dead_in_func_call:
  assumes "db \<in> set (find_dead_in_func name fi instrs funcs import_names)"
    and "in_order (func_instrs fi instrs)"
  shows "\<exists>c \<in> set (func_instrs fi instrs). is_dead_start c funcs import_names \<and> db_addr db = next_addr c
    \<and> block_range db \<subseteq> func_range fi"
  by (rule find_dead_in_func_region [OF assms]) auto

lemma noreturn_dead_not_entered:
  assumes db: "db \<in> set (find_dead_in_func name fi instrs funcs import_names)"
    and wd: "well_decoded fi instrs"
    and steps: "(flow_step (func_instrs fi instrs)
       (\<lambda>i. is_noreturn_call i funcs import_names))\<^sup>*\<^sup>* (fi_addr fi) a"
  shows "a \<notin> block_range db"
proof -
  let ?fs = "func_instrs fi instrs"
  have io: "in_order ?fs" using wd by (simp add: well_decoded_def)
  from find_dead_in_func_region [OF db io] obtain xs c ys where fs: "?fs = xs @ c # ys"
    and start: "is_dead_start c funcs import_names" and da: "db_addr db = next_addr c"
    and sub: "block_range db \<subseteq> func_range fi"
    and out: "\<forall>i \<in> set ys. i_addr i \<in> set (collect_branch_targets ?fs
        (fi_addr fi) (fi_addr fi + fi_size fi)) \<longrightarrow> i_addr i \<notin> block_range db" by blast
  note ord = in_orderD [OF io [unfolded fs]]
  have pos: "i_addr i < next_addr i" if "i \<in> set ?fs" for i using io that by (auto simp: in_order_def)
  have early: "next_addr i < next_addr c" "i_addr i < next_addr c" if "i \<in> set xs" for i
    using order.strict_trans1 [OF ord(2) [OF that] ord(1)] pos [of i] that fs by auto
  show ?thesis using steps
  proof (induction rule: rtranclp_induct)
    case base
    have "fi_addr fi \<le> i_addr c" using fs by (auto simp: func_instrs_def in_func_def filter_eq_Cons_iff
        dest!: arg_cong [of _ _ set])
    then show ?case using ord(1) da by (auto simp: block_range_def)
  next
    case (step a b)
    from step.hyps(2) show ?case
    proof (cases rule: flow_step.cases)
      case (onward i)
      have "i \<noteq> c" using onward(4) start by (auto simp: is_dead_start_def)
      then consider "i \<in> set xs" | "i \<in> set ys" using onward fs by auto
      then show ?thesis
      proof cases
        case 1
        then show ?thesis using early(1) [OF 1] onward(2) da by (auto simp: block_range_def)
      next
        case 2
        then have "db_addr db + db_size db \<le> i_addr i" "i_addr i < next_addr i"
          using step.IH onward(1) ord(3) da pos [of i] fs by (auto simp: block_range_def)
        then show ?thesis using onward(2) by (auto simp: block_range_def)
      qed
    next
      case (branch i)
      show ?thesis
      proof
        assume b: "b \<in> block_range db"
        then have bf: "b \<in> func_range fi" using sub by auto
        have nc: "\<not> is_call i" using wd branch by (auto simp: well_decoded_def)
        from wd branch bf nc obtain j where j: "j \<in> set ?fs" "b = i_addr j"
          unfolding well_decoded_def by fastforce
        have "b \<in> set (collect_branch_targets ?fs (fi_addr fi) (fi_addr fi + fi_size fi))"
          using branch nc bf unfolding set_branch_targets func_range_def by auto
        moreover have "j \<in> set ys"
          using j b ord(1) early(2) [of j] da fs by (auto simp: block_range_def)
        ultimately show False using out b j by auto
      qed
    qed
  qed
qed

section \<open>The blocks tile the function\<close>

definition block_end :: "u64 list \<Rightarrow> u64 \<Rightarrow> nat \<Rightarrow> u64" where
  "block_end starts func_end k = (if k + 1 < length starts then starts ! (k + 1) else func_end)"

definition func_starts :: "func_info \<Rightarrow> decoded_instr list \<Rightarrow> u64 list" where
  "func_starts fi instrs =
     find_block_starts (func_instrs fi instrs) (fi_addr fi) (fi_addr fi + fi_size fi)"

lemma distinct_set_extend: "distinct xs \<Longrightarrow> distinct (set_extend xs ys)"
  unfolding set_extend_def by (induction ys arbitrary: xs) (auto simp: set_insert_def)

lemma set_block_starts:
  "set (find_block_starts instrs a b) = insert a (\<Union>i \<in> set instrs. set (starts_of a b i))"
proof -
  have "set (foldl (\<lambda>acc i. set_extend acc (starts_of a b i)) acc instrs)
    = set acc \<union> (\<Union>i \<in> set instrs. set (starts_of a b i))" for acc
    by (induction instrs arbitrary: acc) auto
  then show ?thesis by (simp add: find_block_starts_def)
qed

lemma sorted_block_starts: "sorted_wrt (<) (find_block_starts instrs a b)"
proof -
  have "distinct (foldl (\<lambda>acc i. set_extend acc (starts_of a b i)) acc instrs)" if "distinct acc" for acc
    using that by (induction instrs arbitrary: acc) (auto simp: distinct_set_extend)
  then show ?thesis by (simp add: find_block_starts_def strict_sorted_iff)
qed

lemma tiles_cover:
  assumes "sorted_wrt (<) starts" "starts \<noteq> []" "hd starts \<le> (a :: u64)" "a < e"
  shows "\<exists>k < length starts. starts ! k \<le> a \<and> a < block_end starts e k"
  using assms
proof (induction starts)
  case (Cons x xs)
  show ?case
  proof (cases "xs \<noteq> [] \<and> hd xs \<le> a")
    case True
    then obtain k where "k < length xs" "xs ! k \<le> a" "a < block_end xs e k"
      using Cons by auto
    then show ?thesis by (intro exI [of _ "Suc k"]) (auto simp: block_end_def)
  next
    case False
    then show ?thesis using Cons.prems
      by (intro exI [of _ 0]) (auto simp: block_end_def hd_conv_nth not_le)
  qed
qed simp

lemma tiles_end_le:
  assumes "sorted_wrt (<) starts" "k < m" "m < length starts"
  shows "block_end starts e k \<le> starts ! m"
proof (cases "k + 1 = m")
  case False
  then have "starts ! (k + 1) < starts ! m" using assms by (intro sorted_wrt_nth_less) auto
  then show ?thesis using assms by (auto simp: block_end_def)
qed (use assms in \<open>auto simp: block_end_def\<close>)

lemma tiles_unique:
  assumes "sorted_wrt (<) starts" "k < length starts" "m < length starts"
    "starts ! k \<le> a" "a < block_end starts e k" "starts ! m \<le> a" "a < block_end starts e m"
  shows "k = m"
  using tiles_end_le [OF assms(1), of k m e] tiles_end_le [OF assms(1), of m k e] assms
  by (cases k m rule: linorder_cases) auto

section \<open>The blocks of the graph\<close>

definition edges_of :: "func_info \<Rightarrow> decoded_instr list \<Rightarrow> func_map \<Rightarrow> nat \<Rightarrow> nat list" where
  "edges_of fi instrs funcs =
     block_edges (create_blocks (func_starts fi instrs) (fi_addr fi + fi_size fi)) (func_instrs fi instrs) funcs"

lemma length_cfg_blocks: "length (blocks (build_func_cfg name fi instrs funcs)) = length (func_starts fi instrs)"
  by (simp add: build_func_cfg_def Let_def func_starts_def func_instrs_def
      fill_predecessors_def add_edges_def create_blocks_def)

lemma cfg_block_fields:
  assumes "k < length (func_starts fi instrs)"
  shows "start_addr (blocks (build_func_cfg name fi instrs funcs) ! k) = func_starts fi instrs ! k"
    "end_addr (blocks (build_func_cfg name fi instrs funcs) ! k)
      = block_end (func_starts fi instrs) (fi_addr fi + fi_size fi) k"
    "bb_id (blocks (build_func_cfg name fi instrs funcs) ! k) = k"
    "successors (blocks (build_func_cfg name fi instrs funcs) ! k) = edges_of fi instrs funcs k"
  using assms
  by (simp_all add: build_func_cfg_def Let_def func_starts_def func_instrs_def block_end_def edges_of_def
      fill_predecessors_def add_edges_def create_blocks_def)

lemma func_starts_facts:
  "sorted_wrt (<) (func_starts fi instrs)" "func_starts fi instrs \<noteq> []"
  "fi_addr fi \<in> set (func_starts fi instrs)"
proof -
  show "sorted_wrt (<) (func_starts fi instrs)" by (simp add: func_starts_def sorted_block_starts)
  show s: "fi_addr fi \<in> set (func_starts fi instrs)" by (simp add: func_starts_def set_block_starts)
  then show "func_starts fi instrs \<noteq> []" by auto
qed

lemma find_first_nth:
  fixes xs :: "u64 list"
  assumes "sorted_wrt (<) xs" "k < length xs"
  shows "find (\<lambda>b. f b = xs ! k) bs = Some b \<Longrightarrow> map f bs = xs \<Longrightarrow> b = bs ! k"
proof -
  assume "find (\<lambda>b. f b = xs ! k) bs = Some b" and xs: "map f bs = xs"
  then obtain j where j: "j < length bs" "f (bs ! j) = xs ! k" "b = bs ! j"
    by (auto simp: find_Some_iff)
  have "distinct xs" using assms(1) by (simp add: strict_sorted_iff)
  then have "j = k" using j assms(2) xs nth_eq_iff_index_eq [of xs j k] by auto
  with j show "b = bs ! k" by simp
qed

lemma map_of_addr_ids:
  assumes "sorted_wrt (<) starts" "k < length starts"
  shows "map_of (addr_ids (create_blocks starts e)) (starts ! k) = Some k"
proof (rule map_of_is_SomeI)
  have d: "distinct starts" using assms(1) by (simp add: strict_sorted_iff)
  have eq: "addr_ids (create_blocks starts e) = map (\<lambda>id. (starts ! id, id)) [0..<length starts]"
    by (simp add: addr_ids_def create_blocks_def)
  show "distinct (map fst (addr_ids (create_blocks starts e)))"
    unfolding eq using d by (simp add: o_def map_nth)
  show "(starts ! k, k) \<in> set (addr_ids (create_blocks starts e))"
    unfolding eq using assms(2) by auto
qed

lemma addr_ids_SomeD:
  assumes "map_of (addr_ids (create_blocks starts e)) t = Some k"
  shows "k < length starts" "starts ! k = t"
  using map_of_SomeD [OF assms] by (auto simp: addr_ids_def create_blocks_def)

lemma cfg_entry_block:
  shows "entry_block (build_func_cfg name fi instrs funcs) < length (func_starts fi instrs)"
    "func_starts fi instrs ! entry_block (build_func_cfg name fi instrs funcs) = fi_addr fi"
proof -
  let ?cfg = "build_func_cfg name fi instrs funcs"
  obtain k where k: "k < length (func_starts fi instrs)" "func_starts fi instrs ! k = fi_addr fi"
    using func_starts_facts(3) by (metis in_set_conv_nth)
  have eb: "entry_block ?cfg = find_entry_block (blocks ?cfg) (fi_addr fi)"
    by (simp add: build_func_cfg_def Let_def)
  have mp: "map start_addr (blocks ?cfg) = func_starts fi instrs"
    by (rule nth_equalityI) (simp_all add: length_cfg_blocks cfg_block_fields)
  have "blocks ?cfg ! k \<in> set (blocks ?cfg)" "start_addr (blocks ?cfg ! k) = fi_addr fi"
    using k by (simp_all add: length_cfg_blocks cfg_block_fields)
  then obtain b where b: "find (\<lambda>b. start_addr b = fi_addr fi) (blocks ?cfg) = Some b"
    by (metis (mono_tags, lifting) find_None_iff not_Some_eq)
  from find_first_nth [OF func_starts_facts(1) k(1) b [folded k(2)] mp] have "b = blocks ?cfg ! k" .
  then have "entry_block ?cfg = k" using b k by (simp add: eb find_entry_block_def cfg_block_fields)
  with k show "entry_block ?cfg < length (func_starts fi instrs)"
    "func_starts fi instrs ! entry_block ?cfg = fi_addr fi" by simp_all
qed

section \<open>Every step follows an edge\<close>

lemma starts_gap:
  assumes wd: "well_decoded fi instrs" and s: "s \<in> set (func_starts fi instrs)"
    and i: "i \<in> set (func_instrs fi instrs)" and lt: "i_addr i < s"
  shows "next_addr i \<le> s"
proof -
  have io: "in_order (func_instrs fi instrs)" using wd by (simp add: well_decoded_def)
  from i obtain xs ys where fs: "func_instrs fi instrs = xs @ i # ys" by (auto dest: split_list)
  note ord = in_orderD [OF io [unfolded fs]]
  have "fi_addr fi \<le> i_addr i" using i by (auto simp: func_instrs_def in_func_def)
  with lt s obtain j where j: "j \<in> set (func_instrs fi instrs)"
    "s \<in> set (starts_of (fi_addr fi) (fi_addr fi + fi_size fi) j)"
    by (auto simp: func_starts_def set_block_starts)
  have "s = next_addr j \<or> s \<in> i_addr ` set (func_instrs fi instrs)"
    using j wd by (auto simp: starts_of_def well_decoded_def func_range_def split: if_splits)
  then consider "s = next_addr j" | j where "j \<in> set (func_instrs fi instrs)" "s = i_addr j" by auto
  then show ?thesis
  proof cases
    case 1
    consider "j \<in> set xs" | "j = i" | "j \<in> set ys" using j fs by auto
    then show ?thesis
    proof cases
      case 3
      then have "next_addr i \<le> i_addr j" "i_addr j < next_addr j"
        using ord(3) io j by (auto simp: in_order_def)
      then show ?thesis using 1 by simp
    qed (use 1 ord(2) [of j] lt in auto)
  next
    case (2 j)
    consider "j \<in> set xs" | "j = i" | "j \<in> set ys" using 2 fs by auto
    then show ?thesis
    proof cases
      case 1
      then have "i_addr j < next_addr j" "next_addr j \<le> i_addr i"
        using 2 ord(2) io by (auto simp: in_order_def)
      then show ?thesis using 2 lt by auto
    qed (use 2 ord(3) [of j] lt in auto)
  qed
qed

lemma starts_in_func:
  assumes "well_decoded fi instrs" "fi_addr fi < fi_addr fi + fi_size fi" "s \<in> set (func_starts fi instrs)"
  shows "s \<in> func_range fi"
proof -
  have "\<forall>i \<in> set (func_instrs fi instrs). fi_addr fi \<le> i_addr i \<and> i_addr i < next_addr i"
    using assms(1) by (auto simp: func_instrs_def in_func_def well_decoded_def in_order_def)
  then show ?thesis using assms(2,3)
    by (auto simp: func_starts_def set_block_starts starts_of_def func_range_def split: if_splits)
qed

lemma last_in_block:
  assumes io: "in_order fs" and i: "i \<in> set fs" "s \<le> i_addr i" "i_addr i < e" "e \<le> next_addr i"
  shows "find_last_instr fs s e = Some i"
proof -
  from i obtain xs ys where fs: "fs = xs @ i # ys" by (auto dest: split_list)
  have "\<forall>j \<in> set ys. \<not> i_addr j < e"
    using in_orderD(3) [OF io [unfolded fs]] i(4) by (meson leD order.trans)
  then have "find (\<lambda>i. s \<le> i_addr i \<and> i_addr i < e) (rev ys @ zs)
      = find (\<lambda>i. s \<le> i_addr i \<and> i_addr i < e) zs" for zs
    by (induction ys arbitrary: zs) auto
  then show ?thesis using i unfolding find_last_instr_def fs by simp
qed

lemma terminator_ends_block:
  assumes wd: "well_decoded fi instrs" and i: "i \<in> set (func_instrs fi instrs)" "flow i \<noteq> Normal"
    and k: "k < length (func_starts fi instrs)" "func_starts fi instrs ! k \<le> i_addr i"
    and ne: "fi_addr fi < fi_addr fi + fi_size fi"
  shows "block_end (func_starts fi instrs) (fi_addr fi + fi_size fi) k \<le> next_addr i"
proof (cases "next_addr i < fi_addr fi + fi_size fi")
  case True
  then have "next_addr i \<in> set (func_starts fi instrs)"
    using i unfolding func_starts_def set_block_starts starts_of_def is_block_terminator_def by auto
  then obtain m where m: "m < length (func_starts fi instrs)" "func_starts fi instrs ! m = next_addr i"
    by (metis in_set_conv_nth)
  have "i_addr i < next_addr i" using wd i by (simp add: well_decoded_def in_order_def)
  then have "func_starts fi instrs ! k < func_starts fi instrs ! m" using k m by auto
  then have "k < m" using func_starts_facts(1) [of fi instrs] k m
    by (metis less_irrefl linorder_neqE_nat order.strict_trans sorted_wrt_nth_less)
  then show ?thesis using tiles_end_le func_starts_facts(1) m by metis
next
  case False
  have "block_end (func_starts fi instrs) (fi_addr fi + fi_size fi) k \<le> fi_addr fi + fi_size fi"
    using starts_in_func [OF wd ne, of "func_starts fi instrs ! (k + 1)"]
    by (auto simp: block_end_def func_range_def)
  with False show ?thesis by auto
qed

lemma set_push_new: "set (foldl push_new e ts) = set e \<union> set ts"
  by (induction ts arbitrary: e) (auto simp: push_new_def)

definition in_block :: "func_info \<Rightarrow> decoded_instr list \<Rightarrow> nat \<Rightarrow> u64 \<Rightarrow> bool" where
  "in_block fi instrs k a \<longleftrightarrow> k < length (func_starts fi instrs) \<and> func_starts fi instrs ! k \<le> a
     \<and> a < block_end (func_starts fi instrs) (fi_addr fi + fi_size fi) k"

lemma create_blocks_fields:
  "length (create_blocks starts e) = length starts"
  "k < length starts \<Longrightarrow> start_addr (create_blocks starts e ! k) = starts ! k"
  "k < length starts \<Longrightarrow> end_addr (create_blocks starts e ! k) = block_end starts e k"
  by (simp_all add: create_blocks_def block_end_def)

lemma edges_of_last:
  assumes k: "k < length (func_starts fi instrs)"
    and last: "find_last_instr (func_instrs fi instrs) (func_starts fi instrs ! k)
      (block_end (func_starts fi instrs) (fi_addr fi + fi_size fi) k) = Some i"
  shows "edges_of fi instrs funcs k = compute_edges i k (length (func_starts fi instrs)) funcs []
    (addr_ids (create_blocks (func_starts fi instrs) (fi_addr fi + fi_size fi)))"
  using assms by (simp add: edges_of_def block_edges_def create_blocks_fields)

lemma start_in_block:
  assumes m: "m < length (func_starts fi instrs)" "func_starts fi instrs ! m < fi_addr fi + fi_size fi"
  shows "in_block fi instrs m (func_starts fi instrs ! m)"
  using m sorted_wrt_nth_less [OF func_starts_facts(1) [of fi instrs], of m "m + 1"]
  by (auto simp: in_block_def block_end_def)

text \<open>A step inside the function stays in its block or follows an edge of the graph, from the last
  instruction of its block to the start of another.\<close>

lemma step_follows_edge:
  assumes wd: "well_decoded fi instrs"
    and step: "flow_step (func_instrs fi instrs) (\<lambda>i. is_noreturn_call i funcs []) a b"
    and k: "in_block fi instrs k a" and b: "b \<in> func_range fi"
  obtains (stay) i where "i \<in> set (func_instrs fi instrs)" "i_addr i = a" "b = next_addr i" "in_block fi instrs k b"
  | (leave) m i where "m \<in> set (edges_of fi instrs funcs k)" "in_block fi instrs m b" "func_starts fi instrs ! m = b"
      "find_last_instr (func_instrs fi instrs) (func_starts fi instrs ! k)
         (block_end (func_starts fi instrs) (fi_addr fi + fi_size fi) k) = Some i"
      "i \<in> set (func_instrs fi instrs)" "i_addr i = a"
      "block_end (func_starts fi instrs) (fi_addr fi + fi_size fi) k \<le> next_addr i"
proof -
  let ?S = "func_starts fi instrs" and ?fe = "fi_addr fi + fi_size fi" and ?fs = "func_instrs fi instrs"
  have ne: "fi_addr fi < ?fe" using b by (auto simp: func_range_def)
  have io: "in_order ?fs" using wd by (simp add: well_decoded_def)
  have kl: "k < length ?S" using k by (simp add: in_block_def)
  from step show thesis
  proof (cases rule: flow_step.cases)
    case (onward i)
    show thesis
    proof (cases "b < block_end ?S ?fe k")
      case True
      have "i_addr i < next_addr i" using io onward(3) by (simp add: in_order_def)
      then show thesis using True k onward(1-3) by (intro stay [of i]) (auto simp: in_block_def)
    next
      case False
      then have k1: "k + 1 < length ?S" using b by (auto simp: block_end_def func_range_def split: if_splits)
      then have end_k: "block_end ?S ?fe k = ?S ! (k + 1)" by (simp add: block_end_def)
      have "b \<le> ?S ! (k + 1)"
        using starts_gap [OF wd nth_mem [OF k1] onward(3)] k end_k onward(1,2) by (auto simp: in_block_def)
      with False end_k have bk: "b = ?S ! (k + 1)" by auto
      have last: "find_last_instr ?fs (?S ! k) (block_end ?S ?fe k) = Some i"
        using k onward bk end_k by (intro last_in_block [OF io]) (auto simp: in_block_def)
      have "k + 1 \<in> set (edges_of fi instrs funcs k)"
        using onward(4) k1
        by (auto simp: edges_of_last [OF kl last] compute_edges_def fallthrough_edge_def set_push_new)
      moreover have "in_block fi instrs (k + 1) b"
        using start_in_block [OF k1] b bk by (auto simp: func_range_def)
      ultimately show thesis using bk last onward end_k by (intro leave [of "k + 1" i]) auto
    qed
  next
    case (branch i)
    have en: "block_end ?S ?fe k \<le> next_addr i"
      using k branch terminator_ends_block [OF wd branch(2) _ kl _ ne] by (auto simp: in_block_def)
    have last: "find_last_instr ?fs (?S ! k) (block_end ?S ?fe k) = Some i"
      using k branch en by (intro last_in_block [OF io]) (auto simp: in_block_def)
    have "\<not> is_call i" using wd branch by (auto simp: well_decoded_def)
    then have "b \<in> set ?S" using branch b
      by (auto simp: func_starts_def set_block_starts starts_of_def func_range_def)
    then obtain m where m: "m < length ?S" "?S ! m = b" by (metis in_set_conv_nth)
    have "map_of (addr_ids (create_blocks ?S ?fe)) b = Some m"
      using map_of_addr_ids [OF func_starts_facts(1) m(1)] m(2) by simp
    then have "m \<in> set (resolve_targets i (addr_ids (create_blocks ?S ?fe)))"
      using branch(4) by (force simp: resolve_targets_def map_filter_def)
    then have "m \<in> set (edges_of fi instrs funcs k)"
      using branch(3)
      by (auto simp: edges_of_last [OF kl last] compute_edges_def set_push_new)
    then show thesis
      using start_in_block [OF m(1)] b m last en branch by (intro leave [of m i]) (auto simp: func_range_def)
  qed
qed

end
