(* ===== verification/Cfg_Dead.thy ===== *)
theory Cfg_Dead
  imports Cfg_Blocks
begin

text \<open>
  The dead blocks of \<open>src/analysis/cfg.rs\<close> are never entered: neither the code after calls that do
  not return nor the blocks that the graph does not reach from the entry.
\<close>

section \<open>The graph\<close>








section \<open>Dead code is never entered\<close>






section \<open>Example\<close>










end
