(* ===== verification/Regstate.thy ===== *)
theory Regstate
  imports Lattice Types
begin

text \<open>
  \<open>src/analysis/regstate.rs\<close>, the part the architectures share: the effects of an instruction on
  the tracked registers, the tests of conditional branches, and the x86 extractor. Registers are
  the numbers 0 to 15, \<open>FLAGS\<close> is 16. What the code asks of the x86 decoder (iced-x86) about an
  instruction is a record, and the decoder that fills it is a parameter.
\<close>

section \<open>Effects\<close>

type_synonym reg_id = nat

definition flags_reg :: reg_id where
  "flags_reg = 16"

definition reg_count :: nat where
  "reg_count = 17"

datatype ssa_effect =
  MovConst reg_id i64
| MovReg reg_id reg_id
| BinOp reg_id bin_op reg_id reg_id
| BinOpImm reg_id bin_op reg_id i64
| CmpReg reg_id reg_id
| CmpImm reg_id i64
| TestReg reg_id reg_id
| TestImm reg_id i64
| Clobber reg_id
| Nop

text \<open>The implicit zero extension of a write to a 32-bit register, appended to \<open>effects\<close>.\<close>

definition push_zext32 :: "ssa_effect list \<Rightarrow> reg_id \<Rightarrow> bool \<Rightarrow> ssa_effect list" where
  "push_zext32 effects dst is32 =
     (if is32 then effects @ [BinOpImm dst And dst 0xFFFFFFFF] else effects)"

section \<open>x86\<close>

text \<open>Registers by width: \<open>RAX\<close> is \<open>R64 0\<close>, \<open>R15D\<close> is \<open>R32 15\<close>, \<open>AL\<close> is \<open>R8 0\<close> and \<open>AH\<close> is
  \<open>R8H 0\<close>; \<open>ROther\<close> is any register that is not a general purpose one.\<close>

datatype x86_reg = R64 nat | R32 nat | R16 nat | R8 nat | R8H nat | ROther

datatype x86_mnemonic =
  MMov | MLea | MXor | MAdd | MSub | MAnd | MOr | MShl | MShr | MSar | MCmp | MTest | MCall | MRet
| MNop | MOther

datatype op_kind =
  KRegister | KImm8 | KImm16 | KImm32 | KImm64 | KImm8to16 | KImm8to32 | KImm8to64 | KImm32to64 | KOther

record x86_instr =
  mnemonic :: x86_mnemonic
  op_count :: nat
  op_kind :: "nat \<Rightarrow> op_kind"
  op_register :: "nat \<Rightarrow> x86_reg"
  immediate :: "nat \<Rightarrow> u64"
  modifies_flags :: bool
  written_registers :: "x86_reg list"

fun x86_reg_id :: "x86_reg \<Rightarrow> reg_id option" where
  "x86_reg_id (R64 n) = (if n < 16 then Some n else None)"
| "x86_reg_id (R32 n) = (if n < 16 then Some n else None)"
| "x86_reg_id (R16 n) = (if n < 16 then Some n else None)"
| "x86_reg_id (R8 n) = (if n < 16 then Some n else None)"
| "x86_reg_id (R8H n) = (if n < 4 then Some n else None)"
| "x86_reg_id ROther = None"

fun x86_full_dst :: "x86_reg \<Rightarrow> (reg_id \<times> bool) option" where
  "x86_full_dst (R64 n) = map_option (\<lambda>r. (r, False)) (x86_reg_id (R64 n))"
| "x86_full_dst (R32 n) = map_option (\<lambda>r. (r, True)) (x86_reg_id (R32 n))"
| "x86_full_dst _ = None"

fun x86_cmp_reg :: "x86_reg \<Rightarrow> reg_id option" where
  "x86_cmp_reg (R8H n) = None"
| "x86_cmp_reg r = x86_reg_id r"

definition or_nop :: "ssa_effect list \<Rightarrow> ssa_effect list" where
  "or_nop effects = (if effects = [] then [Nop] else effects)"

definition extract_clobbers :: "x86_instr \<Rightarrow> ssa_effect list" where
  "extract_clobbers instr = or_nop (map Clobber (List.map_filter x86_reg_id (written_registers instr)))"

definition mov_src_effect :: "x86_instr \<Rightarrow> reg_id \<Rightarrow> ssa_effect" where
  "mov_src_effect instr dst_reg =
     (case op_kind instr 1 of
        KRegister \<Rightarrow>
          (case x86_reg_id (op_register instr 1) of Some s \<Rightarrow> MovReg dst_reg s | None \<Rightarrow> Clobber dst_reg)
      | KOther \<Rightarrow> Clobber dst_reg
      | _ \<Rightarrow> MovConst dst_reg (immediate instr 1))"

definition extract_mov :: "x86_instr \<Rightarrow> ssa_effect list" where
  "extract_mov instr =
     (if op_count instr < 2 \<or> op_kind instr 0 \<noteq> KRegister then [Nop]
      else case x86_full_dst (op_register instr 0) of
             None \<Rightarrow> extract_clobbers instr
           | Some (dst_reg, is32) \<Rightarrow> push_zext32 [mov_src_effect instr dst_reg] dst_reg is32)"

definition extract_lea :: "x86_instr \<Rightarrow> ssa_effect list" where
  "extract_lea instr =
     (case x86_reg_id (op_register instr 0) of Some dst \<Rightarrow> [Clobber dst] | None \<Rightarrow> [Nop])"

fun alu_op :: "x86_mnemonic \<Rightarrow> bin_op option" where
  "alu_op MAdd = Some Add"
| "alu_op MSub = Some Sub"
| "alu_op MAnd = Some And"
| "alu_op MOr = Some Or"
| "alu_op MXor = Some Xor"
| "alu_op _ = None"

definition alu_src_effect :: "x86_instr \<Rightarrow> bin_op \<Rightarrow> reg_id \<Rightarrow> ssa_effect" where
  "alu_src_effect instr op dst =
     (let k = op_kind instr 1 in
      if k = KRegister then
        (case x86_reg_id (op_register instr 1) of Some s \<Rightarrow> BinOp dst op dst s | None \<Rightarrow> Clobber dst)
      else if k \<in> {KImm8, KImm16, KImm32, KImm8to16, KImm8to32, KImm8to64}
        then BinOpImm dst op dst (immediate instr 1)
      else Clobber dst)"

definition extract_alu :: "x86_instr \<Rightarrow> ssa_effect list" where
  "extract_alu instr =
     (if op_count instr < 2 \<or> op_kind instr 0 \<noteq> KRegister then [Nop]
      else case alu_op (mnemonic instr) of
        None \<Rightarrow> [Nop]
      | Some op \<Rightarrow>
          (case x86_full_dst (op_register instr 0) of
             None \<Rightarrow> extract_clobbers instr
           | Some (dst, is32) \<Rightarrow>
               push_zext32 [alu_src_effect instr op dst] dst is32 @ [Clobber flags_reg]))"

definition extract_shift :: "x86_instr \<Rightarrow> ssa_effect list" where
  "extract_shift instr =
     (case x86_reg_id (op_register instr 0) of
        Some dst \<Rightarrow> [Clobber dst, Clobber flags_reg] | None \<Rightarrow> [Nop])"

definition cmp_operand :: "x86_instr \<Rightarrow> nat \<Rightarrow> reg_id option" where
  "cmp_operand instr k =
     (if op_kind instr k = KRegister then x86_cmp_reg (op_register instr k) else None)"

definition extract_cmp :: "x86_instr \<Rightarrow> ssa_effect list" where
  "extract_cmp instr =
     (if op_count instr < 2 then [Nop]
      else let a = cmp_operand instr 0; k = op_kind instr 1 in
        if k = KRegister then
          (case (a, x86_cmp_reg (op_register instr 1)) of
             (Some ar, Some br) \<Rightarrow> [CmpReg ar br] | _ \<Rightarrow> [Clobber flags_reg])
        else if k \<in> {KImm8, KImm32, KImm8to32, KImm8to64} then
          (case a of Some ar \<Rightarrow> [CmpImm ar (immediate instr 1)] | None \<Rightarrow> [Clobber flags_reg])
        else [Clobber flags_reg])"

definition extract_test :: "x86_instr \<Rightarrow> ssa_effect list" where
  "extract_test instr =
     (if op_count instr < 2 then [Nop]
      else let a = cmp_operand instr 0; k = op_kind instr 1 in
        if k = KRegister then
          (case (a, x86_cmp_reg (op_register instr 1)) of
             (Some ar, Some br) \<Rightarrow> [TestReg ar br] | _ \<Rightarrow> [Clobber flags_reg])
        else if k \<in> {KImm8, KImm32, KImm8to32} then
          (case a of Some ar \<Rightarrow> [TestImm ar (immediate instr 1)] | None \<Rightarrow> [Clobber flags_reg])
        else [Clobber flags_reg])"

definition is_self_xor :: "x86_instr \<Rightarrow> bool" where
  "is_self_xor instr \<longleftrightarrow> 2 \<le> op_count instr \<and> op_kind instr 0 = KRegister
     \<and> op_kind instr 1 = KRegister \<and> op_register instr 0 = op_register instr 1"

definition extract_self_xor :: "x86_instr \<Rightarrow> ssa_effect list" where
  "extract_self_xor instr =
     (case x86_full_dst (op_register instr 0) of
        Some (r, _) \<Rightarrow> [MovConst r 0, Clobber flags_reg]
      | None \<Rightarrow> extract_clobbers instr)"

definition extract_x86_reg_effects :: "x86_instr \<Rightarrow> ssa_effect list" where
  "extract_x86_reg_effects instr =
     (case mnemonic instr of
        MMov \<Rightarrow> extract_mov instr
      | MLea \<Rightarrow> extract_lea instr
      | MXor \<Rightarrow> if is_self_xor instr then extract_self_xor instr else extract_alu instr
      | MAdd \<Rightarrow> extract_alu instr | MSub \<Rightarrow> extract_alu instr
      | MAnd \<Rightarrow> extract_alu instr | MOr \<Rightarrow> extract_alu instr
      | MShl \<Rightarrow> extract_shift instr | MShr \<Rightarrow> extract_shift instr | MSar \<Rightarrow> extract_shift instr
      | MCmp \<Rightarrow> extract_cmp instr
      | MTest \<Rightarrow> extract_test instr
      | MCall \<Rightarrow> [Nop] | MRet \<Rightarrow> [Nop] | MNop \<Rightarrow> [Nop]
      | MOther \<Rightarrow> extract_clobbers instr)"

fun defines_flags_effect :: "ssa_effect \<Rightarrow> bool" where
  "defines_flags_effect (CmpReg _ _) = True"
| "defines_flags_effect (CmpImm _ _) = True"
| "defines_flags_effect (TestReg _ _) = True"
| "defines_flags_effect (TestImm _ _) = True"
| "defines_flags_effect (Clobber r) = (r = flags_reg)"
| "defines_flags_effect _ = False"

definition defines_flags :: "ssa_effect list \<Rightarrow> bool" where
  "defines_flags effects = list_ex defines_flags_effect effects"

definition extract_x86_effects :: "x86_instr \<Rightarrow> ssa_effect list" where
  "extract_x86_effects instr =
     (let effects = extract_x86_reg_effects instr in
      if modifies_flags instr \<and> \<not> defines_flags effects then effects @ [Clobber flags_reg] else effects)"

text \<open>The decoder in 64-bit mode, \<open>None\<close> when it cannot decode.\<close>

type_synonym x86_decoder = "bytes \<Rightarrow> u64 \<Rightarrow> x86_instr option"

definition x86_effects :: "x86_decoder \<Rightarrow> bytes \<Rightarrow> u64 \<Rightarrow> ssa_effect list" where
  "x86_effects dec rw addr =
     (if rw = [] then [Nop]
      else case dec rw addr of None \<Rightarrow> [Nop] | Some instr \<Rightarrow> extract_x86_effects instr)"

fun decode_0f_condition :: "u8 \<Rightarrow> cond_code option" where
  "decode_0f_condition b =
     (if b = 0x84 then Some Eq else if b = 0x85 then Some Ne
      else if b = 0x8C then Some Lt else if b = 0x8D then Some Ge
      else if b = 0x8E then Some Le else if b = 0x8F then Some Gt
      else if b = 0x82 then Some Ltu else if b = 0x83 then Some Geu else None)"

fun x86_branch_cond :: "bytes \<Rightarrow> cond_code option" where
  "x86_branch_cond [] = None"
| "x86_branch_cond (b # bs) =
     (if b = 0x74 then Some Eq else if b = 0x75 then Some Ne
      else if b = 0x7C then Some Lt else if b = 0x7D then Some Ge
      else if b = 0x7E then Some Le else if b = 0x7F then Some Gt
      else if b = 0x72 then Some Ltu else if b = 0x73 then Some Geu
      else if b = 0x0F then (case bs of [] \<Rightarrow> None | c # _ \<Rightarrow> decode_0f_condition c)
      else None)"

definition X86_CALLER_SAVED :: "reg_id list" where
  "X86_CALLER_SAVED = [0, 1, 2, 6, 7, 8, 9, 10, 11, 16]"

section \<open>Branch tests\<close>

datatype test_src = TestFlags | RegBits reg_id i64

record branch_test_info =
  bt_cc :: cond_code
  bt_src :: test_src

definition folds_branches :: "arch \<Rightarrow> bool" where
  "folds_branches a \<longleftrightarrow> a \<in> set [X86_64, Aarch64]"

definition word_le :: "bytes \<Rightarrow> u32 option" where
  "word_le rw = (if 4 \<le> length rw then Some (from_le (take 4 rw)) else None)"

definition eq_ne :: "bool \<Rightarrow> cond_code" where
  "eq_ne is_eq = (if is_eq then Eq else Ne)"

definition aarch64_reg_id :: "u32 \<Rightarrow> reg_id option" where
  "aarch64_reg_id reg = (if reg \<le> 15 then Some (unat reg) else None)"

definition a64_branch_cond :: "u32 \<Rightarrow> cond_code option" where
  "a64_branch_cond w =
     (if w AND 0xFF000010 \<noteq> 0x54000000 then None
      else if w AND 0xF = 0 \<or> w AND 0xF = 1 then Some (eq_ne (w AND 0xF = 0)) else None)"

definition a64_test_mask :: "u32 \<Rightarrow> i64 option" where
  "a64_test_mask w =
     (if w AND 0x7E000000 = 0x34000000 then Some (if drop_bit 31 w = 1 then - 1 else 0xFFFFFFFF)
      else if w AND 0x7E000000 = 0x36000000
        then Some (push_bit (unat (push_bit 5 (drop_bit 31 w) OR (drop_bit 19 w AND 0x1F))) 1)
      else None)"

definition a64_branch_test :: "u32 \<Rightarrow> branch_test_info option" where
  "a64_branch_test w =
     (case a64_branch_cond w of
        Some cc \<Rightarrow> Some \<lparr>bt_cc = cc, bt_src = TestFlags\<rparr>
      | None \<Rightarrow> do {
          mask \<leftarrow> a64_test_mask w;
          reg \<leftarrow> aarch64_reg_id (w AND 0x1F);
          Some \<lparr>bt_cc = eq_ne (drop_bit 24 w AND 1 = 0), bt_src = RegBits reg mask\<rparr>
        })"

definition arm32_branch_cond :: "u32 \<Rightarrow> cond_code option" where
  "arm32_branch_cond w =
     (if drop_bit 24 w AND 0xF \<noteq> 0xA then None
      else if drop_bit 28 w = 0 \<or> drop_bit 28 w = 1 then Some (eq_ne (drop_bit 28 w = 0)) else None)"

definition rv_branch_cond :: "bytes \<Rightarrow> cond_code option" where
  "rv_branch_cond rw =
     (if rw = [] \<or> hd rw AND 0x03 \<noteq> 0x03 then None
      else do {
        w \<leftarrow> word_le rw;
        if w AND 0x7F \<noteq> 0x63 then None
        else if drop_bit 12 w AND 7 = 0 \<or> drop_bit 12 w AND 7 = 1
          then Some (eq_ne (drop_bit 12 w AND 7 = 0)) else None
      })"

definition mips_branch_cond :: "bytes \<Rightarrow> bool \<Rightarrow> cond_code option" where
  "mips_branch_cond rw big_endian =
     (if length rw < 4 then None
      else let w = (if big_endian then from_be (take 4 rw) else from_le (take 4 rw)) :: u32
           in if drop_bit 26 w = 4 \<or> drop_bit 26 w = 5 then Some (eq_ne (drop_bit 26 w = 4)) else None)"

definition la_branch_cond :: "u32 \<Rightarrow> cond_code option" where
  "la_branch_cond w =
     (let op = drop_bit 26 w in
      if op = 0x16 \<or> op = 0x10 then Some Eq else if op = 0x17 \<or> op = 0x11 then Some Ne else None)"

definition s390x_branch_cond :: "bytes \<Rightarrow> cond_code option" where
  "s390x_branch_cond rw =
     (let is_brc = length rw = 4 \<and> rw ! 0 = 0xA7;
          is_brcl = length rw = 6 \<and> rw ! 0 = 0xC0
      in if \<not> (is_brc \<or> is_brcl) \<or> rw ! 1 AND 0x0F \<noteq> 4 then None
         else if drop_bit 4 (rw ! 1) = 8 \<or> drop_bit 4 (rw ! 1) = 7
           then Some (eq_ne (drop_bit 4 (rw ! 1) = 8)) else None)"

definition flags_test :: "cond_code \<Rightarrow> branch_test_info" where
  "flags_test cc = \<lparr>bt_cc = cc, bt_src = TestFlags\<rparr>"

definition branch_test :: "bytes \<Rightarrow> arch \<Rightarrow> bool \<Rightarrow> branch_test_info option" where
  "branch_test rw arch big_endian =
     (if \<not> folds_branches arch then None
      else case arch of
        Aarch64 \<Rightarrow> Option.bind (word_le rw) a64_branch_test
      | X86_64 \<Rightarrow> map_option flags_test (x86_branch_cond rw)
      | X86_32 \<Rightarrow> map_option flags_test (x86_branch_cond rw)
      | Arm32 \<Rightarrow> map_option flags_test (Option.bind (word_le rw) arm32_branch_cond)
      | RiscV64 \<Rightarrow> map_option flags_test (rv_branch_cond rw)
      | RiscV32 \<Rightarrow> map_option flags_test (rv_branch_cond rw)
      | Mips32 \<Rightarrow> map_option flags_test (mips_branch_cond rw big_endian)
      | Mips64 \<Rightarrow> map_option flags_test (mips_branch_cond rw big_endian)
      | S390x \<Rightarrow> map_option flags_test (s390x_branch_cond rw)
      | LoongArch64 \<Rightarrow> map_option flags_test (Option.bind (word_le rw) la_branch_cond))"

section \<open>Effects stay on tracked registers\<close>

fun tracked :: "ssa_effect \<Rightarrow> bool" where
  "tracked (MovConst d _) = (d < reg_count)"
| "tracked (MovReg d s) = (d < reg_count \<and> s < reg_count)"
| "tracked (BinOp d _ a b) = (d < reg_count \<and> a < reg_count \<and> b < reg_count)"
| "tracked (BinOpImm d _ a _) = (d < reg_count \<and> a < reg_count)"
| "tracked (CmpReg a b) = (a < reg_count \<and> b < reg_count)"
| "tracked (CmpImm a _) = (a < reg_count)"
| "tracked (TestReg a b) = (a < reg_count \<and> b < reg_count)"
| "tracked (TestImm a _) = (a < reg_count)"
| "tracked (Clobber d) = (d < reg_count)"
| "tracked Nop = True"

definition well_tracked :: "ssa_effect list \<Rightarrow> bool" where
  "well_tracked es \<longleftrightarrow> (\<forall>e \<in> set es. tracked e)"

lemma well_tracked_simps [simp]:
  "well_tracked []" "well_tracked (e # es) \<longleftrightarrow> tracked e \<and> well_tracked es"
  "well_tracked (es @ fs) \<longleftrightarrow> well_tracked es \<and> well_tracked fs"
  by (auto simp: well_tracked_def)

lemma well_tracked_clobbers: "well_tracked (map Clobber rs) \<longleftrightarrow> (\<forall>r \<in> set rs. r < reg_count)"
  by (simp add: well_tracked_def)

lemma flags_tracked [simp]: "flags_reg < reg_count"
  by (simp add: flags_reg_def reg_count_def)

lemma x86_reg_id_tracked: "x86_reg_id r = Some n \<Longrightarrow> n < reg_count"
  by (cases r) (auto simp: reg_count_def split: if_splits)

lemma x86_cmp_reg_tracked: "x86_cmp_reg r = Some n \<Longrightarrow> n < reg_count"
  by (cases r) (auto simp: reg_count_def split: if_splits)

lemma x86_full_dst_tracked: "x86_full_dst r = Some (n, b) \<Longrightarrow> n < reg_count"
  by (cases r) (auto simp: reg_count_def split: if_splits)

lemma push_zext32_tracked: "well_tracked es \<Longrightarrow> d < reg_count \<Longrightarrow> well_tracked (push_zext32 es d b)"
  by (auto simp: push_zext32_def)

lemma or_nop_tracked: "well_tracked es \<Longrightarrow> well_tracked (or_nop es)"
  by (auto simp: or_nop_def)

lemma extract_clobbers_tracked: "well_tracked (extract_clobbers instr)"
  unfolding extract_clobbers_def
  by (rule or_nop_tracked) (auto simp: well_tracked_def map_filter_def x86_reg_id_tracked)

lemma x86_effects_tracked: "well_tracked (x86_effects dec rw addr)"
proof -
  have mov: "well_tracked (extract_mov i)" for i
    using extract_clobbers_tracked [of i]
    by (auto simp: extract_mov_def mov_src_effect_def push_zext32_def
        dest: x86_reg_id_tracked x86_full_dst_tracked split: option.splits op_kind.splits prod.splits if_splits)
  have alu: "well_tracked (extract_alu i)" for i
    using extract_clobbers_tracked [of i]
    by (auto simp: extract_alu_def alu_src_effect_def push_zext32_def Let_def
        dest: x86_reg_id_tracked x86_full_dst_tracked split: option.splits prod.splits if_splits)
  have rest: "well_tracked (extract_lea i)" "well_tracked (extract_shift i)"
    "well_tracked (extract_self_xor i)" for i
    using extract_clobbers_tracked [of i]
    by (auto simp: extract_lea_def extract_shift_def extract_self_xor_def
        dest: x86_reg_id_tracked x86_full_dst_tracked split: option.splits prod.splits)
  have cmp: "well_tracked (extract_cmp i)" "well_tracked (extract_test i)" for i
    by (auto simp: extract_cmp_def extract_test_def cmp_operand_def Let_def
        dest: x86_cmp_reg_tracked split: option.splits if_splits)
  have "well_tracked (extract_x86_reg_effects i)" for i
    unfolding extract_x86_reg_effects_def
    using mov [of i] alu [of i] rest [of i] cmp [of i] extract_clobbers_tracked [of i]
    by (cases "mnemonic i") simp_all
  then show ?thesis
    by (auto simp: x86_effects_def extract_x86_effects_def Let_def split: option.split if_splits)
qed

end
