(* ===== verification/Regstate_A64.thy ===== *)
theory Regstate_A64
  imports Regstate
begin

text \<open>
  \<open>src/analysis/regstate.rs\<close>, the AArch64 extractor: an instruction word is classified by its
  encoding group; what is not modelled exactly clobbers every register and \<open>FLAGS\<close> it may write.
\<close>

section \<open>The code\<close>

definition AARCH64_CALLER_SAVED :: "reg_id list" where
  "AARCH64_CALLER_SAVED = [0, 1, 2, 3, 4, 5, 6, 7, 8, 9, 10, 11, 12, 13, 14, 15, 16]"

definition AARCH64_TRACKED :: "reg_id list" where
  "AARCH64_TRACKED = [0, 1, 2, 3, 4, 5, 6, 7, 8, 9, 10, 11, 12, 13, 14, 15, 16]"

definition a64_clobber_all :: "ssa_effect list" where
  "a64_clobber_all = map Clobber AARCH64_TRACKED"

definition a64_clobber_reg :: "ssa_effect list \<Rightarrow> u32 \<Rightarrow> ssa_effect list" where
  "a64_clobber_reg effects fld =
     (case aarch64_reg_id fld of Some r \<Rightarrow> effects @ [Clobber r] | None \<Rightarrow> effects)"

definition a64_or_nop :: "ssa_effect list \<Rightarrow> ssa_effect list" where
  "a64_or_nop effects = (if effects = [] then [Nop] else effects)"

definition a64_clobber_rd :: "u32 \<Rightarrow> bool \<Rightarrow> ssa_effect list" where
  "a64_clobber_rd w flags =
     (let effects = a64_clobber_reg [] (w AND 0x1F)
      in a64_or_nop (if flags then effects @ [Clobber flags_reg] else effects))"

text \<open>The three register fields.\<close>

definition rd_of :: "u32 \<Rightarrow> reg_id option" where
  "rd_of w = aarch64_reg_id (w AND 0x1F)"

definition rn_of :: "u32 \<Rightarrow> reg_id option" where
  "rn_of w = aarch64_reg_id (drop_bit 5 w AND 0x1F)"

definition rm_of :: "u32 \<Rightarrow> reg_id option" where
  "rm_of w = aarch64_reg_id (drop_bit 16 w AND 0x1F)"

text \<open>The common end of the modelled instructions: the effects on \<open>FLAGS\<close>, the effect on \<open>Rd\<close> when it
  is tracked, and its zero extension in the 32-bit form.\<close>

definition a64_result :: "u32 \<Rightarrow> ssa_effect list \<Rightarrow> (reg_id \<Rightarrow> ssa_effect) \<Rightarrow> ssa_effect list" where
  "a64_result w flag_effects rd_effect =
     a64_or_nop (case rd_of w of
       None \<Rightarrow> flag_effects
     | Some d \<Rightarrow> push_zext32 (flag_effects @ [rd_effect d]) d (drop_bit 31 w = 0))"

definition a64_addsub_imm :: "u32 \<Rightarrow> ssa_effect list" where
  "a64_addsub_imm w =
     (let is_sub = drop_bit 30 w AND 1 = 1;
          imm12 = ucast (drop_bit 10 w AND 0xFFF) :: i64;
          imm = (if drop_bit 22 w AND 1 = 1 then push_bit 12 imm12 else imm12);
          flag_effects =
            (if drop_bit 29 w AND 1 = 1
             then [case rn_of w of
                     Some n \<Rightarrow> if is_sub then CmpImm n imm else CmpImm n (- imm)
                   | None \<Rightarrow> Clobber flags_reg]
             else [])
      in a64_result w flag_effects (\<lambda>d.
           case rn_of w of
             Some n \<Rightarrow> BinOpImm d (if is_sub then Sub else Add) n imm
           | None \<Rightarrow> Clobber d))"

definition a64_logic_op :: "u32 \<Rightarrow> bin_op" where
  "a64_logic_op opc = (if opc = 1 then Or else if opc = 2 then Xor else And)"

definition a64_rotate_elem :: "u64 \<Rightarrow> nat \<Rightarrow> nat \<Rightarrow> u64" where
  "a64_rotate_elem elem r esize =
     (if r = 0 then elem
      else let m = (if esize = 64 then - 1 else push_bit esize 1 - 1)
           in (drop_bit r elem OR push_bit (esize - r) elem) AND m)"

text \<open>The loop that fills \<open>size\<close> bits with copies of the element.\<close>

function fill_elems :: "u64 \<Rightarrow> nat \<Rightarrow> nat \<Rightarrow> nat \<Rightarrow> u64 \<Rightarrow> u64" where
  "fill_elems elem esize sz pos acc =
     (if pos < sz \<and> 0 < esize then fill_elems elem esize sz (pos + esize) (acc OR push_bit pos elem) else acc)"
  by pat_completeness auto
termination
  by (relation "measure (\<lambda>(elem, esize, sz, pos, acc). sz - pos)") auto

declare fill_elems.simps [simp del]

text \<open>\<open>31u32.checked_sub(x.leading_zeros())\<close>, the index of the highest bit.\<close>

definition top_bit :: "u32 \<Rightarrow> nat option" where
  "top_bit x = find (\<lambda>i. bit x i) (rev [0..<32])"

definition a64_bitmask_imm :: "u32 \<Rightarrow> i64 option" where
  "a64_bitmask_imm w =
     (let is64 = drop_bit 31 w = 1;
          n = drop_bit 22 w AND 1;
          immr = drop_bit 16 w AND 0x3F;
          imms = drop_bit 10 w AND 0x3F
      in if \<not> is64 \<and> n = 1 then None
         else case top_bit (push_bit 6 n OR (NOT imms AND 0x3F)) of
           None \<Rightarrow> None
         | Some len \<Rightarrow>
             if len = 0 then None
             else let esize = 2 ^ len; levels = esize - 1;
                      s = unat (imms AND of_nat levels); r = unat (immr AND of_nat levels)
                  in if s = levels then None
                     else Some (fill_elems (a64_rotate_elem (push_bit (s + 1) 1 - 1) r esize) esize
                            (if is64 then 64 else 32) 0 0))"

definition a64_logical_imm :: "u32 \<Rightarrow> ssa_effect list" where
  "a64_logical_imm w =
     (let opc = drop_bit 29 w AND 3;
          imm = a64_bitmask_imm w;
          rn_zr = (drop_bit 5 w AND 0x1F = 31);
          op = a64_logic_op opc;
          flag_effects =
            (if opc = 3
             then [case (rn_of w, imm) of (Some n, Some i) \<Rightarrow> TestImm n i | _ \<Rightarrow> Clobber flags_reg]
             else [])
      in a64_result w flag_effects (\<lambda>d.
           case imm of
             None \<Rightarrow> Clobber d
           | Some i \<Rightarrow>
               if rn_zr then MovConst d (if op \<noteq> And then i else 0)
               else (case rn_of w of Some n \<Rightarrow> BinOpImm d op n i | None \<Rightarrow> Clobber d)))"

definition a64_movwide :: "u32 \<Rightarrow> ssa_effect list" where
  "a64_movwide w =
     (case rd_of w of
        None \<Rightarrow> [Nop]
      | Some d \<Rightarrow>
          let sh = unat (drop_bit 21 w AND 3) * 16;
              imm = push_bit sh (ucast (drop_bit 5 w AND 0xFFFF)) :: i64;
              opc = drop_bit 29 w AND 3
          in push_zext32
               (if opc = 0 then [MovConst d (NOT imm)]
                else if opc = 2 then [MovConst d imm]
                else if opc = 3 then
                  [BinOpImm d And d (NOT (push_bit sh 0xFFFF)), BinOpImm d Or d imm]
                else [Clobber d]) d (drop_bit 31 w = 0))"

definition a64_dp_imm :: "u32 \<Rightarrow> ssa_effect list" where
  "a64_dp_imm w =
     (let k = drop_bit 23 w AND 7 in
      if k = 2 then a64_addsub_imm w
      else if k = 4 then a64_logical_imm w
      else if k = 5 then a64_movwide w
      else a64_clobber_rd w False)"

definition a64_writes_nothing :: "u32 \<Rightarrow> bool" where
  "a64_writes_nothing w \<longleftrightarrow>
     w AND 0xFC000000 = 0x14000000 \<or> w AND 0x7E000000 = 0x34000000 \<or> w AND 0x7E000000 = 0x36000000
     \<or> w AND 0xFF000000 = 0x54000000 \<or> w AND 0xFFFFF01F = 0xD503201F \<or> w AND 0xFFFFF01F = 0xD503301F"

definition a64_branch_sys :: "u32 \<Rightarrow> ssa_effect list" where
  "a64_branch_sys w =
     (if a64_writes_nothing w then [Nop]
      else if w AND 0xFFF8F01F = 0xD500401F \<or> w AND 0xFFF00000 = 0xD5100000 then [Clobber flags_reg]
      else if w AND 0xFFF00000 = 0xD5300000 then a64_clobber_rd w True
      else a64_clobber_all)"

text \<open>The base register a load or store writes back, \<open>None\<close> for the forms that clobber everything.\<close>

definition ldst_writeback :: "u32 \<Rightarrow> ssa_effect list option" where
  "ldst_writeback w =
     (if drop_bit 24 w AND 1 = 0 then
        (let b21 = drop_bit 21 w AND 1; k = drop_bit 10 w AND 3 in
         if b21 = 0 \<and> (k = 1 \<or> k = 3) then Some (a64_clobber_reg [] (drop_bit 5 w AND 0x1F))
         else if b21 = 0 \<or> k = 2 then Some []
         else None)
      else Some [])"

definition a64_ldst_reg :: "u32 \<Rightarrow> ssa_effect list" where
  "a64_ldst_reg w =
     (case ldst_writeback w of
        None \<Rightarrow> a64_clobber_all
      | Some effects \<Rightarrow>
          let sz = drop_bit 30 w; opc = drop_bit 22 w AND 3;
              is_prfm = (opc = 2 \<and> sz = 3);
              is_gpr_load = (drop_bit 26 w AND 1 = 0 \<and> opc \<noteq> 0 \<and> \<not> is_prfm)
          in a64_or_nop (if is_gpr_load then a64_clobber_reg effects (w AND 0x1F) else effects))"

definition a64_ldst_pair :: "u32 \<Rightarrow> ssa_effect list" where
  "a64_ldst_pair w =
     (let is_simd = drop_bit 26 w AND 1 = 1 in
      if \<not> is_simd \<and> drop_bit 30 w = 3 then a64_clobber_all
      else let effects = (if drop_bit 23 w AND 1 = 1 then a64_clobber_reg [] (drop_bit 5 w AND 0x1F) else [])
           in a64_or_nop
                (if \<not> is_simd \<and> drop_bit 22 w AND 1 = 1
                 then a64_clobber_reg (a64_clobber_reg effects (w AND 0x1F)) (drop_bit 10 w AND 0x1F)
                 else effects))"

definition a64_ldr_literal :: "u32 \<Rightarrow> ssa_effect list" where
  "a64_ldr_literal w =
     (if drop_bit 26 w AND 1 = 1 \<or> drop_bit 30 w = 3 then [Nop] else a64_clobber_rd w False)"

definition a64_ldst :: "u32 \<Rightarrow> ssa_effect list" where
  "a64_ldst w =
     (let k = drop_bit 27 w AND 7 in
      if k = 7 then a64_ldst_reg w
      else if k = 5 then a64_ldst_pair w
      else if k = 3 \<and> drop_bit 24 w AND 1 = 0 then a64_ldr_literal w
      else a64_clobber_all)"

definition a64_addsub_reg :: "u32 \<Rightarrow> ssa_effect list" where
  "a64_addsub_reg w =
     (let is_sub = drop_bit 30 w AND 1 = 1;
          unshifted = (drop_bit 10 w AND 0x3F = 0);
          ops = (case (rn_of w, rm_of w) of
                   (Some n, Some m) \<Rightarrow> if unshifted then Some (n, m) else None | _ \<Rightarrow> None);
          flag_effects =
            (if drop_bit 29 w AND 1 = 1
             then [case ops of
                     Some (n, m) \<Rightarrow> if is_sub then CmpReg n m else Clobber flags_reg
                   | None \<Rightarrow> Clobber flags_reg]
             else [])
      in a64_result w flag_effects (\<lambda>d.
           case ops of
             Some (n, m) \<Rightarrow> BinOp d (if is_sub then Sub else Add) n m
           | None \<Rightarrow> Clobber d))"

definition a64_logical_reg :: "u32 \<Rightarrow> ssa_effect list" where
  "a64_logical_reg w =
     (let opc = drop_bit 29 w AND 3;
          plain = (drop_bit 10 w AND 0x3F = 0 \<and> drop_bit 21 w AND 1 = 0);
          rn_zr = (drop_bit 5 w AND 0x1F = 31);
          flag_effects =
            (if opc = 3
             then [case (rn_of w, rm_of w) of
                     (Some a, Some b) \<Rightarrow> if plain then TestReg a b else Clobber flags_reg
                   | _ \<Rightarrow> Clobber flags_reg]
             else [])
      in a64_result w flag_effects (\<lambda>d.
           case rm_of w of
             None \<Rightarrow> Clobber d
           | Some b \<Rightarrow>
               if plain \<and> rn_zr \<and> opc = 1 then MovReg d b
               else (case rn_of w of
                       Some a \<Rightarrow> if plain then BinOp d (a64_logic_op opc) a b else Clobber d
                     | None \<Rightarrow> Clobber d)))"

definition a64_dp_reg :: "u32 \<Rightarrow> ssa_effect list" where
  "a64_dp_reg w =
     (let sets_flags = drop_bit 29 w AND 1 = 1 in
      if drop_bit 28 w AND 1 = 0 then
        (if drop_bit 24 w AND 1 = 0 then a64_logical_reg w
         else if drop_bit 21 w AND 1 = 0 then a64_addsub_reg w
         else a64_clobber_rd w sets_flags)
      else let op = drop_bit 21 w AND 0xF in
        if op = 2 then [Clobber flags_reg]
        else if op = 0 \<or> op = 4 \<or> op = 6 then a64_clobber_rd w sets_flags
        else if op AND 8 \<noteq> 0 then a64_clobber_rd w sets_flags
        else a64_clobber_all)"

definition a64_fp_simd :: "u32 \<Rightarrow> ssa_effect list" where
  "a64_fp_simd w =
     (let scalar_fp = (drop_bit 24 w AND 0x1F = 0x1E);
          to_gpr = (scalar_fp \<and> (drop_bit 21 w AND 1 = 0 \<or> drop_bit 10 w AND 0x3F = 0));
          simd_copy = (w AND 0x9FE08400 = 0x0E000400)
      in if to_gpr \<or> simd_copy then a64_clobber_rd w scalar_fp
         else if scalar_fp then [Clobber flags_reg]
         else [Nop])"

definition a64_word_effects :: "u32 \<Rightarrow> ssa_effect list" where
  "a64_word_effects w =
     (let g = drop_bit 25 w AND 0xF in
      if g = 8 \<or> g = 9 then a64_dp_imm w
      else if g = 10 \<or> g = 11 then a64_branch_sys w
      else if g = 4 \<or> g = 6 \<or> g = 12 \<or> g = 14 then a64_ldst w
      else if g = 5 \<or> g = 13 then a64_dp_reg w
      else if g = 7 \<or> g = 15 then a64_fp_simd w
      else a64_clobber_all)"

definition aarch64_effects :: "bytes \<Rightarrow> ssa_effect list" where
  "aarch64_effects rw = (case word_le rw of None \<Rightarrow> a64_clobber_all | Some w \<Rightarrow> a64_word_effects w)"

section \<open>Effects stay on tracked registers\<close>

lemma aarch64_reg_tracked: "aarch64_reg_id r = Some n \<Longrightarrow> n < reg_count"
  by (auto simp: aarch64_reg_id_def reg_count_def word_le_nat_alt split: if_splits)

lemma field_tracked:
  "rd_of w = Some n \<Longrightarrow> n < reg_count" "rn_of w = Some n \<Longrightarrow> n < reg_count" "rm_of w = Some n \<Longrightarrow> n < reg_count"
  unfolding rd_of_def rn_of_def rm_of_def by (rule aarch64_reg_tracked, assumption)+

lemma a64_clobbers_tracked [simp]:
  "well_tracked a64_clobber_all"
  "well_tracked es \<Longrightarrow> well_tracked (a64_clobber_reg es f)"
  "well_tracked (a64_clobber_rd w b)"
  "well_tracked es \<Longrightarrow> well_tracked (a64_or_nop es)"
  by (auto simp: a64_clobber_all_def AARCH64_TRACKED_def well_tracked_clobbers reg_count_def a64_clobber_reg_def
      a64_clobber_rd_def a64_or_nop_def flags_reg_def Let_def
      dest: aarch64_reg_tracked [unfolded reg_count_def] split: option.splits)

lemma a64_result_tracked:
  assumes "well_tracked fe" "\<And>d. rd_of w = Some d \<Longrightarrow> d < reg_count \<Longrightarrow> tracked (x d)"
  shows "well_tracked (a64_result w fe x)"
proof (cases "rd_of w")
  case (Some d)
  then have "d < reg_count" by (rule field_tracked)
  then show ?thesis using Some assms
    by (auto simp: a64_result_def a64_or_nop_def push_zext32_def)
qed (use assms in \<open>simp add: a64_result_def a64_or_nop_def\<close>)

lemma a64_addsub_imm_tracked [simp]: "well_tracked (a64_addsub_imm w)"
  unfolding a64_addsub_imm_def Let_def
  by (rule a64_result_tracked) (auto dest: field_tracked split: option.split)

lemma a64_logical_imm_tracked [simp]: "well_tracked (a64_logical_imm w)"
  unfolding a64_logical_imm_def Let_def
  by (rule a64_result_tracked) (auto dest: field_tracked split: option.split)

lemma a64_addsub_reg_tracked [simp]: "well_tracked (a64_addsub_reg w)"
  unfolding a64_addsub_reg_def Let_def
  by (rule a64_result_tracked) (auto dest: field_tracked split: option.split)

lemma a64_logical_reg_tracked [simp]: "well_tracked (a64_logical_reg w)"
  unfolding a64_logical_reg_def Let_def
  by (rule a64_result_tracked) (auto dest: field_tracked split: option.split)

lemma a64_movwide_tracked [simp]: "well_tracked (a64_movwide w)"
  unfolding a64_movwide_def Let_def push_zext32_def
  by (auto dest: field_tracked split: option.split)

lemma a64_ldst_tracked [simp]: "well_tracked (a64_ldst w)"
proof -
  have "well_tracked es" if "ldst_writeback w = Some es" for es
    using that by (auto simp: ldst_writeback_def Let_def split: if_splits)
  then have "well_tracked (a64_ldst_reg w)"
    by (simp add: a64_ldst_reg_def Let_def split: option.split)
  moreover have "well_tracked (a64_ldst_pair w)"
    by (simp add: a64_ldst_pair_def Let_def)
  moreover have "well_tracked (a64_ldr_literal w)"
    by (simp add: a64_ldr_literal_def)
  ultimately show ?thesis by (simp add: a64_ldst_def Let_def)
qed

lemma a64_groups_tracked [simp]:
  "well_tracked (a64_dp_imm w)" "well_tracked (a64_branch_sys w)"
  "well_tracked (a64_dp_reg w)" "well_tracked (a64_fp_simd w)"
  by (simp_all add: a64_dp_imm_def a64_branch_sys_def a64_dp_reg_def a64_fp_simd_def Let_def)

lemma aarch64_effects_tracked: "well_tracked (aarch64_effects rw)"
  by (simp add: aarch64_effects_def a64_word_effects_def Let_def split: option.split)

end
