(* ===== verification/Regstate_Others.thy ===== *)
theory Regstate_Others
  imports Regstate_A64
begin

text \<open>
  \<open>src/analysis/regstate.rs\<close>, the extractors for ARM, RISC-V, MIPS, z/Architecture and LoongArch,
  and the dispatch over the architectures.
\<close>

section \<open>ARM\<close>

definition ARM32_CALLER_SAVED :: "reg_id list" where
  "ARM32_CALLER_SAVED = [0, 1, 2, 3, 12, 14, 16]"

definition arm32_reg_id :: "u32 \<Rightarrow> reg_id option" where
  "arm32_reg_id reg = (if reg \<le> 15 then Some (unat reg) else None)"

definition flag_clobber :: "u32 \<Rightarrow> ssa_effect list" where
  "flag_clobber s_flag = (if s_flag = 1 then [Clobber flags_reg] else [])"

definition arm32_mov :: "u32 \<Rightarrow> u32 \<Rightarrow> i64 option \<Rightarrow> reg_id option \<Rightarrow> ssa_effect list" where
  "arm32_mov rd s_flag op2_val op2_reg =
     (case arm32_reg_id rd of
        None \<Rightarrow> [Nop]
      | Some rd_id \<Rightarrow>
          (case op2_val of
             Some v \<Rightarrow> MovConst rd_id v
           | None \<Rightarrow> (case op2_reg of Some rm \<Rightarrow> MovReg rd_id rm | None \<Rightarrow> Clobber rd_id)) # flag_clobber s_flag)"

definition arm32_mvn :: "u32 \<Rightarrow> u32 \<Rightarrow> i64 option \<Rightarrow> ssa_effect list" where
  "arm32_mvn rd s_flag op2_val =
     (case arm32_reg_id rd of
        None \<Rightarrow> [Nop]
      | Some rd_id \<Rightarrow>
          (case op2_val of Some v \<Rightarrow> MovConst rd_id (NOT v) | None \<Rightarrow> Clobber rd_id) # flag_clobber s_flag)"

text \<open>\<open>arm32_addsub\<close> and \<open>arm32_logic\<close> have the same body.\<close>

definition arm32_addsub ::
  "bin_op \<Rightarrow> u32 \<Rightarrow> u32 \<Rightarrow> u32 \<Rightarrow> i64 option \<Rightarrow> reg_id option \<Rightarrow> ssa_effect list" where
  "arm32_addsub op rd rn s_flag op2_val op2_reg =
     (case arm32_reg_id rd of
        None \<Rightarrow> if s_flag = 1 then [Clobber flags_reg] else [Nop]
      | Some rd_id \<Rightarrow>
          (case (arm32_reg_id rn, op2_val, op2_reg) of
             (Some rn_id, Some v, _) \<Rightarrow> BinOpImm rd_id op rn_id v
           | (Some rn_id, None, Some rm) \<Rightarrow> BinOp rd_id op rn_id rm
           | _ \<Rightarrow> Clobber rd_id) # flag_clobber s_flag)"

definition arm32_logic ::
  "bin_op \<Rightarrow> u32 \<Rightarrow> u32 \<Rightarrow> u32 \<Rightarrow> i64 option \<Rightarrow> reg_id option \<Rightarrow> ssa_effect list" where
  "arm32_logic op rd rn s_flag op2_val op2_reg =
     (case arm32_reg_id rd of
        None \<Rightarrow> if s_flag = 1 then [Clobber flags_reg] else [Nop]
      | Some rd_id \<Rightarrow>
          (case (arm32_reg_id rn, op2_val, op2_reg) of
             (Some rn_id, Some v, _) \<Rightarrow> BinOpImm rd_id op rn_id v
           | (Some rn_id, None, Some rm) \<Rightarrow> BinOp rd_id op rn_id rm
           | _ \<Rightarrow> Clobber rd_id) # flag_clobber s_flag)"

definition arm32_cmp :: "u32 \<Rightarrow> i64 option \<Rightarrow> reg_id option \<Rightarrow> ssa_effect list" where
  "arm32_cmp rn op2_val op2_reg =
     (case (arm32_reg_id rn, op2_val, op2_reg) of
        (Some rn_id, Some v, _) \<Rightarrow> [CmpImm rn_id v]
      | (Some rn_id, None, Some rm) \<Rightarrow> [CmpReg rn_id rm]
      | _ \<Rightarrow> [Clobber flags_reg])"

definition arm32_tst :: "u32 \<Rightarrow> i64 option \<Rightarrow> reg_id option \<Rightarrow> ssa_effect list" where
  "arm32_tst rn op2_val op2_reg =
     (case (arm32_reg_id rn, op2_val, op2_reg) of
        (Some rn_id, Some v, _) \<Rightarrow> [TestImm rn_id v]
      | (Some rn_id, None, Some rm) \<Rightarrow> [TestReg rn_id rm]
      | _ \<Rightarrow> [Clobber flags_reg])"

text \<open>The second operand: an immediate (rotated right, zero extended), an unshifted register, or
  neither.\<close>

definition arm32_op2_val :: "u32 \<Rightarrow> u32 \<Rightarrow> i64 option" where
  "arm32_op2_val w i_bit =
     (if i_bit = 1
      then Some (ucast (word_rotr (unat ((drop_bit 8 w AND 0xF) * 2)) (w AND 0xFF)))
      else None)"

definition arm32_op2_reg :: "u32 \<Rightarrow> u32 \<Rightarrow> reg_id option" where
  "arm32_op2_reg w i_bit =
     (if i_bit = 1 then None
      else let rm = w AND 0xF; shift_type = drop_bit 5 w AND 3; shift_imm = drop_bit 7 w AND 0x1F
           in if shift_imm = 0 \<and> shift_type = 0 then arm32_reg_id rm else None)"

definition arm32_dp :: "u32 \<Rightarrow> u32 \<Rightarrow> u32 \<Rightarrow> u32 \<Rightarrow> u32 \<Rightarrow> u32 \<Rightarrow> ssa_effect list" where
  "arm32_dp w i_bit opcode s_flag rn rd =
     (let op2_val = arm32_op2_val w i_bit; op2_reg = arm32_op2_reg w i_bit in
      if opcode = 0xD then arm32_mov rd s_flag op2_val op2_reg
      else if opcode = 0xF then arm32_mvn rd s_flag op2_val
      else if opcode = 0x4 then arm32_addsub Add rd rn s_flag op2_val op2_reg
      else if opcode = 0x2 then arm32_addsub Sub rd rn s_flag op2_val op2_reg
      else if opcode = 0x0 then arm32_logic And rd rn s_flag op2_val op2_reg
      else if opcode = 0x1 then arm32_logic Xor rd rn s_flag op2_val op2_reg
      else if opcode = 0xC then arm32_logic Or rd rn s_flag op2_val op2_reg
      else if opcode = 0xA then arm32_cmp rn op2_val op2_reg
      else if opcode = 0x8 then arm32_tst rn op2_val op2_reg
      else [Nop])"

definition arm32_effects :: "bytes \<Rightarrow> ssa_effect list" where
  "arm32_effects rw =
     (if length rw < 4 then [Nop]
      else let w = from_le (take 4 rw) :: u32 in
        if drop_bit 28 w = 0xF then [Nop]
        else if drop_bit 26 w AND 3 \<noteq> 0 then [Nop]
        else arm32_dp w (drop_bit 25 w AND 1) (drop_bit 21 w AND 0xF) (drop_bit 20 w AND 1)
               (drop_bit 16 w AND 0xF) (drop_bit 12 w AND 0xF))"

section \<open>RISC-V\<close>

definition RISCV_CALLER_SAVED :: "reg_id list" where
  "RISCV_CALLER_SAVED = [1, 5, 6, 7, 10, 11, 12, 13, 14, 15, 16]"

definition riscv_reg_id :: "u32 \<Rightarrow> reg_id option" where
  "riscv_reg_id reg = (if 1 \<le> reg \<and> reg \<le> 15 then Some (unat reg) else None)"

definition rv_lui :: "u32 \<Rightarrow> ssa_effect list" where
  "rv_lui w =
     (let rd = drop_bit 7 w AND 0x1F in
      if rd = 0 then [Nop]
      else case riscv_reg_id rd of
             None \<Rightarrow> [Nop]
           | Some rd_id \<Rightarrow> [MovConst rd_id (scast (w AND 0xFFFFF000))])"

definition rv_imm_op :: "reg_id \<Rightarrow> u32 \<Rightarrow> i64 \<Rightarrow> bin_op \<Rightarrow> ssa_effect list" where
  "rv_imm_op rd_id rs1 imm op =
     (if rs1 = 0 then
        [MovConst rd_id (case op of And \<Rightarrow> 0 AND imm | Or \<Rightarrow> imm | Xor \<Rightarrow> imm | _ \<Rightarrow> 0)]
      else case riscv_reg_id rs1 of
             Some s \<Rightarrow> [BinOpImm rd_id op s imm] | None \<Rightarrow> [Clobber rd_id])"

definition rv_imm :: "u32 \<Rightarrow> ssa_effect list" where
  "rv_imm w =
     (let funct3 = drop_bit 12 w AND 7; rd = drop_bit 7 w AND 0x1F; rs1 = drop_bit 15 w AND 0x1F;
          imm = scast (signed_drop_bit 20 w) :: i64
      in if rd = 0 then [Nop]
         else case riscv_reg_id rd of
           None \<Rightarrow> [Nop]
         | Some rd_id \<Rightarrow>
             if funct3 = 0 then
               (if rs1 = 0 then [MovConst rd_id imm]
                else case riscv_reg_id rs1 of
                       Some s \<Rightarrow> if imm = 0 then [MovReg rd_id s] else [BinOpImm rd_id Add s imm]
                     | None \<Rightarrow> [Clobber rd_id])
             else if funct3 = 7 then rv_imm_op rd_id rs1 imm And
             else if funct3 = 6 then rv_imm_op rd_id rs1 imm Or
             else if funct3 = 4 then rv_imm_op rd_id rs1 imm Xor
             else [Clobber rd_id])"

definition rv_binop_reg :: "reg_id \<Rightarrow> u32 \<Rightarrow> u32 \<Rightarrow> bin_op \<Rightarrow> ssa_effect list" where
  "rv_binop_reg rd_id rs1 rs2 op =
     (case (riscv_reg_id rs1, riscv_reg_id rs2) of
        (Some a, Some b) \<Rightarrow> [BinOp rd_id op a b] | _ \<Rightarrow> [Clobber rd_id])"

definition rv_mov_reg :: "reg_id \<Rightarrow> u32 \<Rightarrow> ssa_effect list" where
  "rv_mov_reg rd_id rs =
     (case riscv_reg_id rs of Some s \<Rightarrow> [MovReg rd_id s] | None \<Rightarrow> [Clobber rd_id])"

definition rv_add :: "reg_id \<Rightarrow> u32 \<Rightarrow> u32 \<Rightarrow> ssa_effect list" where
  "rv_add rd_id rs1 rs2 =
     (if rs1 = 0 \<and> rs2 = 0 then [MovConst rd_id 0]
      else if rs1 = 0 then rv_mov_reg rd_id rs2
      else if rs2 = 0 then rv_mov_reg rd_id rs1
      else rv_binop_reg rd_id rs1 rs2 Add)"

definition rv_reg :: "u32 \<Rightarrow> ssa_effect list" where
  "rv_reg w =
     (let funct3 = drop_bit 12 w AND 7; funct7 = drop_bit 25 w AND 0x7F;
          rd = drop_bit 7 w AND 0x1F; rs1 = drop_bit 15 w AND 0x1F; rs2 = drop_bit 20 w AND 0x1F
      in if rd = 0 then [Nop]
         else case riscv_reg_id rd of
           None \<Rightarrow> [Nop]
         | Some rd_id \<Rightarrow>
             if funct3 = 0 \<and> funct7 = 0 then rv_add rd_id rs1 rs2
             else if funct3 = 0 \<and> funct7 = 0x20 then rv_binop_reg rd_id rs1 rs2 Sub
             else if funct3 = 7 \<and> funct7 = 0 then rv_binop_reg rd_id rs1 rs2 And
             else if funct3 = 6 \<and> funct7 = 0 then rv_binop_reg rd_id rs1 rs2 Or
             else if funct3 = 4 \<and> funct7 = 0 then rv_binop_reg rd_id rs1 rs2 Xor
             else [Clobber rd_id])"

text \<open>The comparison of two registers; one that is hard-wired to zero is the immediate 0. The branches
  of RISC-V, MIPS and LoongArch set \<open>FLAGS\<close> this way, each with its own register map.\<close>

definition cmp_regs :: "(u32 \<Rightarrow> reg_id option) \<Rightarrow> u32 \<Rightarrow> u32 \<Rightarrow> ssa_effect list" where
  "cmp_regs rid a b =
     (if b = 0 \<and> rid a \<noteq> None then [CmpImm (the (rid a)) 0]
      else if a = 0 \<and> rid b \<noteq> None then [CmpImm (the (rid b)) 0]
      else case (rid a, rid b) of (Some x, Some y) \<Rightarrow> [CmpReg x y] | _ \<Rightarrow> [Clobber flags_reg])"

definition rv_branch :: "u32 \<Rightarrow> ssa_effect list" where
  "rv_branch w = cmp_regs riscv_reg_id (drop_bit 15 w AND 0x1F) (drop_bit 20 w AND 0x1F)"

definition rv_word :: "u32 \<Rightarrow> ssa_effect list" where
  "rv_word w =
     (let opcode = w AND 0x7F in
      if opcode = 0x37 then rv_lui w
      else if opcode = 0x13 then rv_imm w
      else if opcode = 0x33 then rv_reg w
      else if opcode = 0x63 then rv_branch w
      else [Nop])"

text \<open>The six-bit immediate of C.LI and C.ADDI.\<close>

definition rv_c_imm6 :: "u16 \<Rightarrow> i64" where
  "rv_c_imm6 hw =
     (let lo = ucast (drop_bit 2 hw AND 0x1F)
      in if drop_bit 12 hw AND 1 = 1 then lo OR NOT 0x1F else lo)"

definition rv_c_rd :: "u16 \<Rightarrow> u32" where
  "rv_c_rd hw = ucast (drop_bit 7 hw AND 0x1F)"

definition rv_c_li :: "u16 \<Rightarrow> ssa_effect list" where
  "rv_c_li hw =
     (if rv_c_rd hw = 0 then [Nop]
      else case riscv_reg_id (rv_c_rd hw) of
             None \<Rightarrow> [Nop] | Some rd_id \<Rightarrow> [MovConst rd_id (rv_c_imm6 hw)])"

definition rv_c_addi :: "u16 \<Rightarrow> ssa_effect list" where
  "rv_c_addi hw =
     (if rv_c_rd hw = 0 then [Nop]
      else case riscv_reg_id (rv_c_rd hw) of
             None \<Rightarrow> [Nop]
           | Some rd_id \<Rightarrow>
               if rv_c_imm6 hw = 0 then [Nop] else [BinOpImm rd_id Add rd_id (rv_c_imm6 hw)])"

definition rv_c_mv_add :: "u16 \<Rightarrow> ssa_effect list" where
  "rv_c_mv_add hw =
     (let rs2 = ucast (drop_bit 2 hw AND 0x1F) :: u32 in
      if rs2 = 0 \<or> rv_c_rd hw = 0 then [Nop]
      else case riscv_reg_id (rv_c_rd hw) of
        None \<Rightarrow> [Nop]
      | Some rd_id \<Rightarrow>
          (case riscv_reg_id rs2 of
             Some s \<Rightarrow> if drop_bit 12 hw AND 1 = 0 then [MovReg rd_id s] else [BinOp rd_id Add rd_id s]
           | None \<Rightarrow> [Clobber rd_id]))"

definition rv_compressed :: "u16 \<Rightarrow> ssa_effect list" where
  "rv_compressed hw =
     (let op = hw AND 3; funct3 = drop_bit 13 hw AND 7 in
      if op = 1 \<and> funct3 = 2 then rv_c_li hw
      else if op = 1 \<and> funct3 = 0 then rv_c_addi hw
      else if op = 2 \<and> funct3 = 4 then rv_c_mv_add hw
      else [Nop])"

definition riscv_effects :: "bytes \<Rightarrow> ssa_effect list" where
  "riscv_effects rw =
     (if length rw < 2 then [Nop]
      else if rw ! 0 AND 3 \<noteq> 3 then rv_compressed (from_le (take 2 rw))
      else if length rw < 4 then [Nop]
      else rv_word (from_le (take 4 rw)))"

section \<open>MIPS\<close>

definition MIPS_CALLER_SAVED :: "reg_id list" where
  "MIPS_CALLER_SAVED = [1, 2, 3, 4, 5, 6, 7, 8, 9, 10, 11, 12, 13, 14, 15, 16]"

definition mips_reg_id :: "u32 \<Rightarrow> reg_id option" where
  "mips_reg_id reg = (if 1 \<le> reg \<and> reg \<le> 15 then Some (unat reg) else None)"

definition mips_rs :: "u32 \<Rightarrow> u32" where
  "mips_rs w = drop_bit 21 w AND 0x1F"

definition mips_rt :: "u32 \<Rightarrow> u32" where
  "mips_rt w = drop_bit 16 w AND 0x1F"

definition mips_lui :: "u32 \<Rightarrow> ssa_effect list" where
  "mips_lui w =
     (case mips_reg_id (mips_rt w) of
        Some r \<Rightarrow> [MovConst r (push_bit 16 (ucast (w AND 0xFFFF)))] | None \<Rightarrow> [Nop])"

definition mips_addiu :: "u32 \<Rightarrow> ssa_effect list" where
  "mips_addiu w =
     (let imm = scast (ucast (w AND 0xFFFF) :: u16) :: i64 in
      case mips_reg_id (mips_rt w) of
        None \<Rightarrow> [Nop]
      | Some rt_id \<Rightarrow>
          if mips_rs w = 0 then [MovConst rt_id imm]
          else (case mips_reg_id (mips_rs w) of
                  Some rs_id \<Rightarrow> [BinOpImm rt_id Add rs_id imm] | None \<Rightarrow> [Clobber rt_id]))"

definition mips_andi :: "u32 \<Rightarrow> ssa_effect list" where
  "mips_andi w =
     (let imm = ucast (w AND 0xFFFF) :: i64 in
      case mips_reg_id (mips_rt w) of
        None \<Rightarrow> [Nop]
      | Some rt_id \<Rightarrow>
          if mips_rs w = 0 then [MovConst rt_id 0]
          else (case mips_reg_id (mips_rs w) of
                  Some rs_id \<Rightarrow> [BinOpImm rt_id And rs_id imm] | None \<Rightarrow> [Clobber rt_id]))"

definition mips_ori :: "u32 \<Rightarrow> ssa_effect list" where
  "mips_ori w =
     (let imm = ucast (w AND 0xFFFF) :: i64 in
      case mips_reg_id (mips_rt w) of
        None \<Rightarrow> [Nop]
      | Some rt_id \<Rightarrow>
          if mips_rs w = 0 then [MovConst rt_id imm]
          else (case mips_reg_id (mips_rs w) of
                  Some rs_id \<Rightarrow> [BinOpImm rt_id Or rs_id imm] | None \<Rightarrow> [Clobber rt_id]))"

definition mips_xori :: "u32 \<Rightarrow> ssa_effect list" where
  "mips_xori w =
     (let imm = ucast (w AND 0xFFFF) :: i64 in
      case mips_reg_id (mips_rt w) of
        None \<Rightarrow> [Nop]
      | Some rt_id \<Rightarrow>
          if mips_rs w = 0 then [MovConst rt_id imm]
          else (case mips_reg_id (mips_rs w) of
                  Some rs_id \<Rightarrow> [BinOpImm rt_id Xor rs_id imm] | None \<Rightarrow> [Clobber rt_id]))"

definition mips_binop_r :: "reg_id \<Rightarrow> u32 \<Rightarrow> u32 \<Rightarrow> bin_op \<Rightarrow> ssa_effect list" where
  "mips_binop_r rd_id rs rt op =
     (case (mips_reg_id rs, mips_reg_id rt) of
        (Some a, Some b) \<Rightarrow> [BinOp rd_id op a b] | _ \<Rightarrow> [Clobber rd_id])"

definition mips_mov_reg :: "reg_id \<Rightarrow> u32 \<Rightarrow> ssa_effect list" where
  "mips_mov_reg rd_id r =
     (case mips_reg_id r of Some s \<Rightarrow> [MovReg rd_id s] | None \<Rightarrow> [Clobber rd_id])"

definition mips_special :: "u32 \<Rightarrow> ssa_effect list" where
  "mips_special w =
     (let funct = w AND 0x3F; rs = mips_rs w; rt = mips_rt w in
      case mips_reg_id (drop_bit 11 w AND 0x1F) of
        None \<Rightarrow> [Nop]
      | Some rd_id \<Rightarrow>
          if funct = 0x21 then
            (if rs = 0 \<and> rt = 0 then [MovConst rd_id 0]
             else if rs = 0 then mips_mov_reg rd_id rt
             else if rt = 0 then mips_mov_reg rd_id rs
             else mips_binop_r rd_id rs rt Add)
          else if funct = 0x23 then mips_binop_r rd_id rs rt Sub
          else if funct = 0x24 then mips_binop_r rd_id rs rt And
          else if funct = 0x25 then mips_binop_r rd_id rs rt Or
          else if funct = 0x26 then mips_binop_r rd_id rs rt Xor
          else [Clobber rd_id])"

definition mips_branch :: "u32 \<Rightarrow> ssa_effect list" where
  "mips_branch w = cmp_regs mips_reg_id (mips_rs w) (mips_rt w)"

definition mips_effects :: "bytes \<Rightarrow> bool \<Rightarrow> ssa_effect list" where
  "mips_effects rw big_endian =
     (if length rw < 4 then [Nop]
      else let w = (if big_endian then from_be (take 4 rw) else from_le (take 4 rw)) :: u32;
               op = drop_bit 26 w
           in if op = 0x00 then mips_special w
              else if op = 0x09 then mips_addiu w
              else if op = 0x0C then mips_andi w
              else if op = 0x0D then mips_ori w
              else if op = 0x0E then mips_xori w
              else if op = 0x0F then mips_lui w
              else if op = 0x04 \<or> op = 0x05 then mips_branch w
              else [Nop])"

end
