(* ===== verification/Regstate_Dispatch.thy ===== *)
theory Regstate_Dispatch
  imports Regstate_Others
begin

text \<open>
  \<open>src/analysis/regstate.rs\<close>, the extractors for z/Architecture and LoongArch and the dispatch over
  the architectures; every effect of every extractor stays on the tracked registers.
\<close>

section \<open>z/Architecture\<close>

definition S390X_CALLER_SAVED :: "reg_id list" where
  "S390X_CALLER_SAVED = [0, 1, 2, 3, 4, 5, 14, 16]"

definition s390x_reg_id :: "u8 \<Rightarrow> reg_id option" where
  "s390x_reg_id reg = (if reg \<le> 15 then Some (unat reg) else None)"

definition s390x_binop_rr :: "u8 \<Rightarrow> u8 \<Rightarrow> bin_op \<Rightarrow> ssa_effect list" where
  "s390x_binop_rr r1 r2 op =
     (case (s390x_reg_id r1, s390x_reg_id r2) of
        (Some a, Some b) \<Rightarrow> [BinOp a op a b, Clobber flags_reg]
      | (Some a, None) \<Rightarrow> [Clobber a, Clobber flags_reg]
      | (None, _) \<Rightarrow> [Clobber flags_reg])"

definition s390x_mov_rr :: "u8 \<Rightarrow> u8 \<Rightarrow> ssa_effect list" where
  "s390x_mov_rr r1 r2 =
     (case (s390x_reg_id r1, s390x_reg_id r2) of
        (Some a, Some b) \<Rightarrow> [MovReg a b] | (Some a, None) \<Rightarrow> [Clobber a] | (None, _) \<Rightarrow> [Nop])"

definition s390x_cmp_rr :: "u8 \<Rightarrow> u8 \<Rightarrow> ssa_effect list" where
  "s390x_cmp_rr r1 r2 =
     (case (s390x_reg_id r1, s390x_reg_id r2) of
        (Some a, Some b) \<Rightarrow> [CmpReg a b] | _ \<Rightarrow> [Clobber flags_reg])"

definition s390x_rr :: "bytes \<Rightarrow> ssa_effect list" where
  "s390x_rr rw =
     (let op = rw ! 0; r1 = drop_bit 4 (rw ! 1) AND 0x0F; r2 = rw ! 1 AND 0x0F in
      if op = 0x18 then s390x_mov_rr r1 r2
      else if op = 0x1A then s390x_binop_rr r1 r2 Add
      else if op = 0x1B then s390x_binop_rr r1 r2 Sub
      else if op = 0x14 then s390x_binop_rr r1 r2 And
      else if op = 0x16 then s390x_binop_rr r1 r2 Or
      else if op = 0x17 then s390x_binop_rr r1 r2 Xor
      else if op = 0x19 then s390x_cmp_rr r1 r2
      else [Nop])"

definition s390x_ri :: "bytes \<Rightarrow> ssa_effect list" where
  "s390x_ri rw =
     (let r1 = drop_bit 4 (rw ! 1) AND 0x0F; op4 = rw ! 1 AND 0x0F;
          i16_val = scast (from_be (take 2 (drop 2 rw)) :: u16) :: i64
      in if op4 = 0x08 \<or> op4 = 0x09 then
           (case s390x_reg_id r1 of Some r \<Rightarrow> [MovConst r i16_val] | None \<Rightarrow> [Nop])
         else if op4 = 0x0A \<or> op4 = 0x0B then
           (case s390x_reg_id r1 of
              Some r \<Rightarrow> [BinOpImm r Add r i16_val, Clobber flags_reg] | None \<Rightarrow> [Clobber flags_reg])
         else if op4 = 0x0E \<or> op4 = 0x0F then
           (case s390x_reg_id r1 of Some r \<Rightarrow> [CmpImm r i16_val] | None \<Rightarrow> [Clobber flags_reg])
         else [Nop])"

definition s390x_rre :: "bytes \<Rightarrow> ssa_effect list" where
  "s390x_rre rw =
     (let op_lo = rw ! 1; r1 = drop_bit 4 (rw ! 3) AND 0x0F; r2 = rw ! 3 AND 0x0F in
      if op_lo = 0x04 then s390x_mov_rr r1 r2
      else if op_lo = 0x08 then s390x_binop_rr r1 r2 Add
      else if op_lo = 0x09 then s390x_binop_rr r1 r2 Sub
      else if op_lo = 0x80 then s390x_binop_rr r1 r2 And
      else if op_lo = 0x81 then s390x_binop_rr r1 r2 Or
      else if op_lo = 0x82 then s390x_binop_rr r1 r2 Xor
      else if op_lo = 0x20 then s390x_cmp_rr r1 r2
      else [Nop])"

definition s390x_4byte :: "bytes \<Rightarrow> ssa_effect list" where
  "s390x_4byte rw =
     (if rw ! 0 = 0xA7 then s390x_ri rw else if rw ! 0 = 0xB9 then s390x_rre rw else [Nop])"

definition s390x_6byte :: "bytes \<Rightarrow> ssa_effect list" where
  "s390x_6byte rw = [Nop]"

definition s390x_effects :: "bytes \<Rightarrow> ssa_effect list" where
  "s390x_effects rw =
     (if length rw = 2 then s390x_rr rw
      else if length rw = 4 then s390x_4byte rw
      else if length rw = 6 then s390x_6byte rw
      else [Nop])"

section \<open>LoongArch\<close>

definition LOONGARCH_CALLER_SAVED :: "reg_id list" where
  "LOONGARCH_CALLER_SAVED = [1, 4, 5, 6, 7, 8, 9, 10, 11, 12, 13, 14, 15, 16]"

definition loongarch_reg_id :: "u32 \<Rightarrow> reg_id option" where
  "loongarch_reg_id reg = (if 1 \<le> reg \<and> reg \<le> 15 then Some (unat reg) else None)"

definition la_rd :: "u32 \<Rightarrow> u32" where
  "la_rd w = w AND 0x1F"

definition la_rj :: "u32 \<Rightarrow> u32" where
  "la_rj w = drop_bit 5 w AND 0x1F"

definition la_rk :: "u32 \<Rightarrow> u32" where
  "la_rk w = drop_bit 10 w AND 0x1F"

definition la_lu12iw :: "u32 \<Rightarrow> ssa_effect list" where
  "la_lu12iw w =
     (case loongarch_reg_id (la_rd w) of
        None \<Rightarrow> [Nop]
      | Some rd_id \<Rightarrow>
          [MovConst rd_id (scast (signed_drop_bit 12 (push_bit 12 (drop_bit 5 w AND 0xFFFFF))) * push_bit 12 1)])"

definition la_addi :: "u32 \<Rightarrow> ssa_effect list" where
  "la_addi w =
     (let imm = scast (signed_drop_bit 20 (push_bit 20 (drop_bit 10 w AND 0xFFF))) :: i64 in
      case loongarch_reg_id (la_rd w) of
        None \<Rightarrow> [Nop]
      | Some rd_id \<Rightarrow>
          if la_rj w = 0 then [MovConst rd_id imm]
          else (case loongarch_reg_id (la_rj w) of
                  Some rj_id \<Rightarrow> if imm = 0 then [MovReg rd_id rj_id] else [BinOpImm rd_id Add rj_id imm]
                | None \<Rightarrow> [Clobber rd_id]))"

definition la_andi :: "u32 \<Rightarrow> ssa_effect list" where
  "la_andi w =
     (let imm = ucast (drop_bit 10 w AND 0xFFF) :: i64 in
      case loongarch_reg_id (la_rd w) of
        None \<Rightarrow> [Nop]
      | Some rd_id \<Rightarrow>
          if la_rj w = 0 then [MovConst rd_id 0]
          else (case loongarch_reg_id (la_rj w) of
                  Some rj_id \<Rightarrow> [BinOpImm rd_id And rj_id imm] | None \<Rightarrow> [Clobber rd_id]))"

definition la_ori :: "u32 \<Rightarrow> ssa_effect list" where
  "la_ori w =
     (let imm = ucast (drop_bit 10 w AND 0xFFF) :: i64 in
      case loongarch_reg_id (la_rd w) of
        None \<Rightarrow> [Nop]
      | Some rd_id \<Rightarrow>
          if la_rj w = 0 then [MovConst rd_id imm]
          else (case loongarch_reg_id (la_rj w) of
                  Some rj_id \<Rightarrow> [BinOpImm rd_id Or rj_id imm] | None \<Rightarrow> [Clobber rd_id]))"

definition la_xori :: "u32 \<Rightarrow> ssa_effect list" where
  "la_xori w =
     (let imm = ucast (drop_bit 10 w AND 0xFFF) :: i64 in
      case loongarch_reg_id (la_rd w) of
        None \<Rightarrow> [Nop]
      | Some rd_id \<Rightarrow>
          if la_rj w = 0 then [MovConst rd_id imm]
          else (case loongarch_reg_id (la_rj w) of
                  Some rj_id \<Rightarrow> [BinOpImm rd_id Xor rj_id imm] | None \<Rightarrow> [Clobber rd_id]))"

definition la_binop_3r :: "u32 \<Rightarrow> bin_op \<Rightarrow> ssa_effect list" where
  "la_binop_3r w op =
     (case loongarch_reg_id (la_rd w) of
        None \<Rightarrow> [Nop]
      | Some rd_id \<Rightarrow>
          (case (loongarch_reg_id (la_rj w), loongarch_reg_id (la_rk w)) of
             (Some a, Some b) \<Rightarrow> [BinOp rd_id op a b] | _ \<Rightarrow> [Clobber rd_id]))"

definition la_mov_reg :: "reg_id \<Rightarrow> u32 \<Rightarrow> ssa_effect list" where
  "la_mov_reg rd_id r =
     (case loongarch_reg_id r of Some s \<Rightarrow> [MovReg rd_id s] | None \<Rightarrow> [Clobber rd_id])"

definition la_add :: "u32 \<Rightarrow> ssa_effect list" where
  "la_add w =
     (case loongarch_reg_id (la_rd w) of
        None \<Rightarrow> [Nop]
      | Some rd_id \<Rightarrow>
          if la_rj w = 0 \<and> la_rk w = 0 then [MovConst rd_id 0]
          else if la_rj w = 0 then la_mov_reg rd_id (la_rk w)
          else if la_rk w = 0 then la_mov_reg rd_id (la_rj w)
          else la_binop_3r w Add)"

definition la_branch_2r :: "u32 \<Rightarrow> ssa_effect list" where
  "la_branch_2r w = cmp_regs loongarch_reg_id (la_rj w) (la_rd w)"

definition la_branch_1r :: "u32 \<Rightarrow> ssa_effect list" where
  "la_branch_1r w =
     (case loongarch_reg_id (la_rj w) of Some rj_id \<Rightarrow> [CmpImm rj_id 0] | None \<Rightarrow> [Clobber flags_reg])"

definition loongarch_effects :: "bytes \<Rightarrow> ssa_effect list" where
  "loongarch_effects rw =
     (if length rw < 4 then [Nop]
      else let w = from_le (take 4 rw) :: u32;
               op7 = drop_bit 25 w AND 0x7F; op10 = drop_bit 22 w AND 0x3FF;
               op6 = drop_bit 26 w; op17 = drop_bit 15 w AND 0x1FFFF
           in if op7 = 0x0A then la_lu12iw w
              else if op10 = 0x0A \<or> op10 = 0x0B then la_addi w
              else if op10 = 0x0D then la_andi w
              else if op10 = 0x0E then la_ori w
              else if op10 = 0x0F then la_xori w
              else if op6 \<in> {0x16, 0x17, 0x18, 0x19, 0x1A, 0x1B} then la_branch_2r w
              else if op6 = 0x10 \<or> op6 = 0x11 then la_branch_1r w
              else if op17 = 0x20 \<or> op17 = 0x21 then la_add w
              else if op17 = 0x22 \<or> op17 = 0x23 then la_binop_3r w Sub
              else if op17 = 0x29 then la_binop_3r w And
              else if op17 = 0x2A then la_binop_3r w Or
              else if op17 = 0x2B then la_binop_3r w Xor
              else [Nop])"

section \<open>Dispatch\<close>

fun arch_effects :: "x86_decoder \<Rightarrow> bytes \<Rightarrow> u64 \<Rightarrow> arch \<Rightarrow> bool \<Rightarrow> ssa_effect list" where
  "arch_effects dec rw addr X86_64 be = x86_effects dec rw addr"
| "arch_effects dec rw addr X86_32 be = x86_effects dec rw addr"
| "arch_effects dec rw addr Aarch64 be = aarch64_effects rw"
| "arch_effects dec rw addr Arm32 be = arm32_effects rw"
| "arch_effects dec rw addr RiscV64 be = riscv_effects rw"
| "arch_effects dec rw addr RiscV32 be = riscv_effects rw"
| "arch_effects dec rw addr Mips32 be = mips_effects rw be"
| "arch_effects dec rw addr Mips64 be = mips_effects rw be"
| "arch_effects dec rw addr S390x be = s390x_effects rw"
| "arch_effects dec rw addr LoongArch64 be = loongarch_effects rw"

fun caller_saved :: "arch \<Rightarrow> reg_id list" where
  "caller_saved X86_64 = X86_CALLER_SAVED"
| "caller_saved X86_32 = X86_CALLER_SAVED"
| "caller_saved Aarch64 = AARCH64_CALLER_SAVED"
| "caller_saved Arm32 = ARM32_CALLER_SAVED"
| "caller_saved RiscV64 = RISCV_CALLER_SAVED"
| "caller_saved RiscV32 = RISCV_CALLER_SAVED"
| "caller_saved Mips32 = MIPS_CALLER_SAVED"
| "caller_saved Mips64 = MIPS_CALLER_SAVED"
| "caller_saved S390x = S390X_CALLER_SAVED"
| "caller_saved LoongArch64 = LOONGARCH_CALLER_SAVED"

section \<open>Every effect is tracked\<close>

lemma reg_ids_tracked:
  "arm32_reg_id r = Some n \<Longrightarrow> n < reg_count" "riscv_reg_id r = Some n \<Longrightarrow> n < reg_count"
  "mips_reg_id r = Some n \<Longrightarrow> n < reg_count" "loongarch_reg_id r = Some n \<Longrightarrow> n < reg_count"
  "s390x_reg_id b = Some n \<Longrightarrow> n < reg_count"
  by (auto simp: arm32_reg_id_def riscv_reg_id_def mips_reg_id_def loongarch_reg_id_def s390x_reg_id_def
      reg_count_def word_le_nat_alt split: if_splits)

lemma cmp_regs_tracked:
  assumes "\<And>r n. rid r = Some n \<Longrightarrow> n < reg_count"
  shows "well_tracked (cmp_regs rid a b)"
  using assms [of a] assms [of b] by (auto simp: cmp_regs_def split: option.split)

lemmas branch_tracked [simp] =
  cmp_regs_tracked [of riscv_reg_id, OF reg_ids_tracked(2)]
  cmp_regs_tracked [of mips_reg_id, OF reg_ids_tracked(3)]
  cmp_regs_tracked [of loongarch_reg_id, OF reg_ids_tracked(4)]

lemma arm32_tracked [simp]:
  "(\<And>n. v2 = Some n \<Longrightarrow> n < reg_count) \<Longrightarrow> well_tracked (arm32_mov rd s v1 v2)"
  "well_tracked (arm32_mvn rd s v1)"
  "(\<And>n. v2 = Some n \<Longrightarrow> n < reg_count) \<Longrightarrow> well_tracked (arm32_addsub op rd rn s v1 v2)"
  "(\<And>n. v2 = Some n \<Longrightarrow> n < reg_count) \<Longrightarrow> well_tracked (arm32_logic op rd rn s v1 v2)"
  "(\<And>n. v2 = Some n \<Longrightarrow> n < reg_count) \<Longrightarrow> well_tracked (arm32_cmp rn v1 v2)"
  "(\<And>n. v2 = Some n \<Longrightarrow> n < reg_count) \<Longrightarrow> well_tracked (arm32_tst rn v1 v2)"
  by (auto simp: arm32_mov_def arm32_mvn_def arm32_addsub_def arm32_logic_def arm32_cmp_def arm32_tst_def
      flag_clobber_def dest: reg_ids_tracked split: option.split)

lemma arm32_effects_tracked: "well_tracked (arm32_effects rw)"
proof -
  have op2: "arm32_op2_reg w b = Some n \<Longrightarrow> n < reg_count" for w b n
    by (auto simp: arm32_op2_reg_def Let_def dest: reg_ids_tracked split: if_splits)
  then show ?thesis by (simp add: arm32_effects_def arm32_dp_def Let_def)
qed

lemma rv_parts_tracked [simp]:
  "d < reg_count \<Longrightarrow> well_tracked (rv_imm_op d r i op)" "d < reg_count \<Longrightarrow> well_tracked (rv_binop_reg d r1 r2 op)"
  "d < reg_count \<Longrightarrow> well_tracked (rv_mov_reg d r1)" "d < reg_count \<Longrightarrow> well_tracked (rv_add d r1 r2)"
  by (auto simp: rv_imm_op_def rv_binop_reg_def rv_mov_reg_def rv_add_def dest: reg_ids_tracked split: option.split)

lemma riscv_effects_tracked: "well_tracked (riscv_effects rw)"
proof -
  have "well_tracked (rv_lui w)" "well_tracked (rv_imm w)" "well_tracked (rv_reg w)" for w
    by (auto simp: rv_lui_def rv_imm_def rv_reg_def Let_def dest: reg_ids_tracked split: option.split)
  moreover have "well_tracked (rv_c_li h)" "well_tracked (rv_c_addi h)" "well_tracked (rv_c_mv_add h)" for h
    by (auto simp: rv_c_li_def rv_c_addi_def rv_c_mv_add_def Let_def dest: reg_ids_tracked split: option.split)
  ultimately show ?thesis
    by (simp add: riscv_effects_def rv_word_def rv_branch_def rv_compressed_def Let_def)
qed

lemma mips_parts_tracked [simp]:
  "d < reg_count \<Longrightarrow> well_tracked (mips_mov_reg d r)" "d < reg_count \<Longrightarrow> well_tracked (mips_binop_r d r1 r2 op)"
  by (auto simp: mips_mov_reg_def mips_binop_r_def dest: reg_ids_tracked split: option.split)

lemma mips_effects_tracked: "well_tracked (mips_effects rw be)"
proof -
  have "well_tracked (mips_lui w)" "well_tracked (mips_addiu w)" "well_tracked (mips_andi w)"
    "well_tracked (mips_ori w)" "well_tracked (mips_xori w)" for w
    by (auto simp: mips_lui_def mips_addiu_def mips_andi_def mips_ori_def mips_xori_def Let_def
        dest: reg_ids_tracked split: option.split)
  moreover have "well_tracked (mips_special w)" for w
    by (auto simp: mips_special_def Let_def dest: reg_ids_tracked split: option.split)
  ultimately show ?thesis by (simp add: mips_effects_def mips_branch_def Let_def)
qed

lemma s390x_parts_tracked [simp]:
  "well_tracked (s390x_binop_rr r1 r2 op)" "well_tracked (s390x_mov_rr r1 r2)" "well_tracked (s390x_cmp_rr r1 r2)"
  by (auto simp: s390x_binop_rr_def s390x_mov_rr_def s390x_cmp_rr_def dest: reg_ids_tracked split: option.split)

lemma s390x_effects_tracked: "well_tracked (s390x_effects rw)"
proof -
  have "well_tracked (s390x_ri rw)"
    by (auto simp: s390x_ri_def Let_def dest: reg_ids_tracked split: option.split)
  then show ?thesis
    by (simp add: s390x_effects_def s390x_rr_def s390x_4byte_def s390x_rre_def s390x_6byte_def Let_def)
qed

lemma la_parts_tracked [simp]:
  "d < reg_count \<Longrightarrow> well_tracked (la_mov_reg d r)" "well_tracked (la_binop_3r w op)"
  by (auto simp: la_mov_reg_def la_binop_3r_def dest: reg_ids_tracked split: option.split)

lemma loongarch_effects_tracked: "well_tracked (loongarch_effects rw)"
proof -
  have "well_tracked (la_lu12iw w)" "well_tracked (la_addi w)" "well_tracked (la_andi w)"
    "well_tracked (la_ori w)" "well_tracked (la_xori w)" "well_tracked (la_branch_1r w)" for w
    by (auto simp: la_lu12iw_def la_addi_def la_andi_def la_ori_def la_xori_def la_branch_1r_def Let_def
        dest: reg_ids_tracked split: option.split)
  moreover have "well_tracked (la_add w)" for w
    by (auto simp: la_add_def dest: reg_ids_tracked split: option.split)
  ultimately show ?thesis by (simp add: loongarch_effects_def la_branch_2r_def Let_def)
qed

lemma arch_effects_tracked: "well_tracked (arch_effects dec rw addr a be)"
  using x86_effects_tracked aarch64_effects_tracked arm32_effects_tracked riscv_effects_tracked
    mips_effects_tracked s390x_effects_tracked loongarch_effects_tracked
  by (cases a) auto

lemma caller_saved_tracked: "r \<in> set (caller_saved a) \<Longrightarrow> r < reg_count"
  by (cases a) (auto simp: X86_CALLER_SAVED_def AARCH64_CALLER_SAVED_def ARM32_CALLER_SAVED_def
      RISCV_CALLER_SAVED_def MIPS_CALLER_SAVED_def S390X_CALLER_SAVED_def LOONGARCH_CALLER_SAVED_def reg_count_def)

end
