(* ===== verification/Sccp.thy ===== *)
theory Sccp
  imports Cfg_Dead Regstate_Dispatch
begin

text \<open>
  \<open>src/analysis/sccp.rs\<close>: sparse conditional constant propagation over the blocks of a function. The
  state keeps an abstract value per block and register, the edges taken and the blocks executed; a
  branch whose tested value is known is followed in one direction only. \<open>None\<close> is a panic of an
  index out of range. The dominator tree the code computes is not used by the solver and not
  modelled.
\<close>

section \<open>Terminators\<close>

record cond_term =
  ct_test :: branch_test_info
  ct_taken :: nat
  ct_fallthrough :: nat

record sccp_flow =
  flow_succs :: "nat list list"
  flow_terms :: "cond_term option list"

definition cond_term_of ::
  "basic_block \<Rightarrow> decoded_instr list \<Rightarrow> (u64 \<times> nat) list \<Rightarrow> arch \<Rightarrow> bool \<Rightarrow> cond_term option" where
  "cond_term_of block instrs by_addr arch big_endian = do {
     last_i \<leftarrow> find (\<lambda>i. start_addr block \<le> i_addr i \<and> i_addr i < end_addr block) (rev instrs);
     if flow last_i \<noteq> ConditionalBranch \<or> length (successors block) \<noteq> 2 then None
     else do {
       fallthrough \<leftarrow> map_of by_addr (next_addr last_i);
       let taken_ids = List.map_filter (map_of by_addr) (targets last_i);
       taken \<leftarrow> (case taken_ids of [] \<Rightarrow> None | t # _ \<Rightarrow> Some t);
       test \<leftarrow> branch_test (raw last_i) arch big_endian;
       let unique = (length taken_ids = 1 \<and> taken \<noteq> fallthrough);
       let matches = (taken \<in> set (successors block) \<and> fallthrough \<in> set (successors block));
       if unique \<and> matches
       then Some \<lparr>ct_test = test, ct_taken = taken, ct_fallthrough = fallthrough\<rparr> else None
     }
   }"

definition build_cond_terms :: "func_cfg \<Rightarrow> decoded_instr list \<Rightarrow> arch \<Rightarrow> bool \<Rightarrow> cond_term option list" where
  "build_cond_terms cfg instrs arch big_endian =
     map (\<lambda>b. cond_term_of b instrs (addr_ids (blocks cfg)) arch big_endian) (blocks cfg)"

definition collect_func_instrs :: "func_cfg \<Rightarrow> decoded_instr list \<Rightarrow> decoded_instr list" where
  "collect_func_instrs cfg instrs = in_func (func_addr cfg) (func_addr cfg + func_size cfg) instrs"

definition instr_effects :: "x86_decoder \<Rightarrow> decoded_instr \<Rightarrow> arch \<Rightarrow> bool \<Rightarrow> ssa_effect list" where
  "instr_effects dec instr arch big_endian =
     (if is_call instr \<or> flow instr = IndirectCall then map Clobber (caller_saved arch)
      else arch_effects dec (raw instr) (i_addr instr) arch big_endian)"

definition build_block_effects ::
  "x86_decoder \<Rightarrow> func_cfg \<Rightarrow> decoded_instr list \<Rightarrow> arch \<Rightarrow> bool \<Rightarrow> ssa_effect list list" where
  "build_block_effects dec cfg instrs arch big_endian =
     map (\<lambda>b. concat (map (\<lambda>i. instr_effects dec i arch big_endian)
         (filter (\<lambda>i. start_addr b \<le> i_addr i \<and> i_addr i < end_addr b) instrs))) (blocks cfg)"

section \<open>Effects on abstract values\<close>

definition get_reg :: "val list \<Rightarrow> reg_id \<Rightarrow> val option" where
  "get_reg vals r = (if r < length vals then Some (vals ! r) else None)"

definition set_reg :: "val list \<Rightarrow> reg_id \<Rightarrow> val \<Rightarrow> val list option" where
  "set_reg vals r v = (if r < length vals then Some (vals[r := v]) else None)"

fun lift1 :: "(i64 \<Rightarrow> i64) \<Rightarrow> val \<Rightarrow> val" where
  "lift1 f Bot = Bot"
| "lift1 f Top = Top"
| "lift1 f (Const x) = Const (f x)"

fun lift2 :: "(i64 \<Rightarrow> i64 \<Rightarrow> i64) \<Rightarrow> val \<Rightarrow> val \<Rightarrow> val" where
  "lift2 f Bot _ = Bot"
| "lift2 f _ Bot = Bot"
| "lift2 f Top _ = Top"
| "lift2 f _ Top = Top"
| "lift2 f (Const x) (Const y) = Const (f x y)"

definition apply_cmp_reg :: "val list \<Rightarrow> reg_id \<Rightarrow> reg_id \<Rightarrow> val list option" where
  "apply_cmp_reg vals a b = do {
     va \<leftarrow> get_reg vals a; vb \<leftarrow> get_reg vals b; set_reg vals flags_reg (lift2 (\<lambda>x y. x - y) va vb) }"

definition apply_cmp_imm :: "val list \<Rightarrow> reg_id \<Rightarrow> i64 \<Rightarrow> val list option" where
  "apply_cmp_imm vals a imm = do {
     va \<leftarrow> get_reg vals a; set_reg vals flags_reg (lift1 (\<lambda>x. x - imm) va) }"

definition apply_test_reg :: "val list \<Rightarrow> reg_id \<Rightarrow> reg_id \<Rightarrow> val list option" where
  "apply_test_reg vals a b = do {
     va \<leftarrow> get_reg vals a; vb \<leftarrow> get_reg vals b; set_reg vals flags_reg (lift2 (\<lambda>x y. x AND y) va vb) }"

definition apply_test_imm :: "val list \<Rightarrow> reg_id \<Rightarrow> i64 \<Rightarrow> val list option" where
  "apply_test_imm vals a imm = do {
     va \<leftarrow> get_reg vals a; set_reg vals flags_reg (lift1 (\<lambda>x. x AND imm) va) }"

fun apply_effect :: "val list \<Rightarrow> ssa_effect \<Rightarrow> val list option" where
  "apply_effect vals (MovConst d c) = set_reg vals d (Const c)"
| "apply_effect vals (MovReg d s) = do { v \<leftarrow> get_reg vals s; set_reg vals d v }"
| "apply_effect vals (BinOp d op a b) = do {
     x \<leftarrow> get_reg vals a; y \<leftarrow> get_reg vals b; set_reg vals d (eval_binop op x y) }"
| "apply_effect vals (BinOpImm d op a imm) = do {
     x \<leftarrow> get_reg vals a; set_reg vals d (eval_binop op x (Const imm)) }"
| "apply_effect vals (CmpReg a b) = apply_cmp_reg vals a b"
| "apply_effect vals (CmpImm a imm) = apply_cmp_imm vals a imm"
| "apply_effect vals (TestReg a b) = apply_test_reg vals a b"
| "apply_effect vals (TestImm a imm) = apply_test_imm vals a imm"
| "apply_effect vals (Clobber d) = set_reg vals d Top"
| "apply_effect vals Nop = Some vals"

fun apply_effects :: "val list \<Rightarrow> ssa_effect list \<Rightarrow> val list option" where
  "apply_effects vals [] = Some vals"
| "apply_effects vals (e # es) = Option.bind (apply_effect vals e) (\<lambda>vals'. apply_effects vals' es)"

section \<open>Branches\<close>

datatype branch_result = AlwaysTaken | NeverTaken | Unknown

definition resolve_branch :: "cond_code \<Rightarrow> bool option \<Rightarrow> branch_result" where
  "resolve_branch cc zero =
     (case zero of
        None \<Rightarrow> Unknown
      | Some z \<Rightarrow>
          if cc = Eq then (if z then AlwaysTaken else NeverTaken)
          else if cc = Ne then (if \<not> z then AlwaysTaken else NeverTaken)
          else Unknown)"

fun flags_zero :: "val \<Rightarrow> bool option" where
  "flags_zero (Const v) = (if v = 0 then Some True else if v AND 0xFF \<noteq> 0 then Some False else None)"
| "flags_zero _ = None"

definition tested_zero :: "test_src \<Rightarrow> val list \<Rightarrow> bool option" where
  "tested_zero src vals =
     (case src of
        TestFlags \<Rightarrow> Option.bind (get_reg vals flags_reg) flags_zero
      | RegBits r m \<Rightarrow> map_option (\<lambda>v. v AND m = 0) (Option.bind (get_reg vals r) as_const))"

definition only_succ :: "cond_term option \<Rightarrow> val list \<Rightarrow> nat option" where
  "only_succ term vals = do {
     t \<leftarrow> term;
     (case resolve_branch (bt_cc (ct_test t)) (tested_zero (bt_src (ct_test t)) vals) of
        AlwaysTaken \<Rightarrow> Some (ct_taken t)
      | NeverTaken \<Rightarrow> Some (ct_fallthrough t)
      | Unknown \<Rightarrow> None)
   }"

section \<open>The solver\<close>

record sccp_state =
  reg_vals :: "val list list"
  exec_edges :: "(nat \<times> nat) list"
  block_exec :: "bool list"

definition new_state :: "nat \<Rightarrow> sccp_state" where
  "new_state n = \<lparr>reg_vals = replicate n (replicate reg_count Bot), exec_edges = [],
     block_exec = replicate n False\<rparr>"

definition is_exec :: "sccp_state \<Rightarrow> nat \<Rightarrow> bool" where
  "is_exec st b = block_exec st ! b"

definition mark_edge_exec :: "sccp_state \<Rightarrow> nat \<Rightarrow> sccp_state" where
  "mark_edge_exec st b = st\<lparr>block_exec := (block_exec st)[b := True]\<rparr>"

definition init_entry_regs :: "sccp_state \<Rightarrow> nat \<Rightarrow> sccp_state" where
  "init_entry_regs st entry = st\<lparr>reg_vals := (reg_vals st)[entry := replicate reg_count Top]\<rparr>"

definition eval_block :: "sccp_state \<Rightarrow> nat \<Rightarrow> ssa_effect list list \<Rightarrow> val list option" where
  "eval_block st b block_effects = apply_effects (reg_vals st ! b) (block_effects ! b)"

definition merged :: "val list \<Rightarrow> val list \<Rightarrow> val list" where
  "merged old vals = map (\<lambda>r. meet (old ! r) (vals ! r)) [0..<reg_count]"

definition merge_and_enqueue ::
  "nat \<Rightarrow> val list \<Rightarrow> nat \<Rightarrow> sccp_state \<times> nat list \<Rightarrow> sccp_state \<times> nat list" where
  "merge_and_enqueue from_b vals to = (\<lambda>(st, worklist).
     if length (reg_vals st) \<le> to then (st, worklist)
     else let new_exec = (from_b, to) \<notin> set (exec_edges st);
              old = reg_vals st ! to;
              new = merged old vals;
              st' = st\<lparr>reg_vals := (reg_vals st)[to := new],
                       exec_edges := set_insert (from_b, to) (exec_edges st)\<rparr>
          in if new_exec \<or> new \<noteq> old
             then (st'\<lparr>block_exec := (block_exec st)[to := True]\<rparr>, worklist @ [to])
             else (st', worklist))"

definition next_blocks :: "sccp_flow \<Rightarrow> nat \<Rightarrow> val list \<Rightarrow> nat list" where
  "next_blocks fl b vals =
     (case only_succ (flow_terms fl ! b) vals of Some s \<Rightarrow> [s] | None \<Rightarrow> flow_succs fl ! b)"

definition propagate_succs ::
  "sccp_state \<Rightarrow> nat \<Rightarrow> val list \<Rightarrow> sccp_flow \<Rightarrow> nat list \<Rightarrow> sccp_state \<times> nat list" where
  "propagate_succs st b vals fl worklist =
     fold (merge_and_enqueue b vals) (next_blocks fl b vals) (st, worklist)"

text \<open>The worklist loop: the second component tells whether it ended with an empty worklist.\<close>

function sccp_loop ::
  "ssa_effect list list \<Rightarrow> sccp_flow \<Rightarrow> nat \<Rightarrow> sccp_state \<Rightarrow> nat list \<Rightarrow> nat \<Rightarrow> (sccp_state \<times> bool) option" where
  "sccp_loop effs fl max_iter st [] iterations = Some (st, True)"
| "sccp_loop effs fl max_iter st (b # worklist) iterations =
     (if max_iter < iterations + 1 then Some (st, False)
      else if \<not> is_exec st b then sccp_loop effs fl max_iter st worklist (iterations + 1)
      else case eval_block st b effs of
             None \<Rightarrow> None
           | Some vals \<Rightarrow>
               let p = propagate_succs st b vals fl worklist
               in sccp_loop effs fl max_iter (fst p) (snd p) (iterations + 1))"
  by pat_completeness auto
termination
  by (relation "measure (\<lambda>(effs, fl, max_iter, st, wl, iterations). Suc max_iter - iterations)") auto

definition run_sccp ::
  "sccp_state \<Rightarrow> func_cfg \<Rightarrow> ssa_effect list list \<Rightarrow> sccp_flow \<Rightarrow> (sccp_state \<times> bool) option" where
  "run_sccp st cfg block_effects fl =
     (let n = length (blocks cfg)
      in sccp_loop block_effects fl (n * 20) (init_entry_regs st (entry_block cfg)) [entry_block cfg] 0)"

definition find_sccp_dead :: "func_cfg \<Rightarrow> sccp_state \<Rightarrow> arch \<Rightarrow> dead_block list" where
  "find_sccp_dead cfg st arch =
     (let min_size = (if arch = Mips32 \<or> arch = Mips64 then 8 else 2)
      in map (dead_block_of cfg)
           (filter (\<lambda>b. min_size \<le> end_addr b - start_addr b)
             (filter (\<lambda>b. \<not> is_exec st (bb_id b)) (blocks cfg))))"

record sccp_result =
  sr_dead :: "dead_block list"
  sr_skipped :: bool
  sr_instr_count :: nat

definition sccp_dead_blocks ::
  "x86_decoder \<Rightarrow> func_cfg \<Rightarrow> decoded_instr list \<Rightarrow> arch \<Rightarrow> nat \<Rightarrow> bool \<Rightarrow> sccp_result option" where
  "sccp_dead_blocks dec cfg instrs arch max_instrs big_endian =
     (if blocks cfg = [] then Some \<lparr>sr_dead = [], sr_skipped = False, sr_instr_count = 0\<rparr>
      else let func_is = collect_func_instrs cfg instrs; cnt = length func_is in
        if max_instrs < cnt then Some \<lparr>sr_dead = [], sr_skipped = True, sr_instr_count = cnt\<rparr>
        else let effs = build_block_effects dec cfg func_is arch big_endian;
                 fl = \<lparr>flow_succs = map successors (blocks cfg),
                       flow_terms = build_cond_terms cfg func_is arch big_endian\<rparr>;
                 st = mark_edge_exec (new_state (length (blocks cfg))) (entry_block cfg)
             in case run_sccp st cfg effs fl of
                  None \<Rightarrow> None
                | Some (st', converged) \<Rightarrow>
                    if converged
                    then Some \<lparr>sr_dead = find_sccp_dead cfg st' arch, sr_skipped = False, sr_instr_count = cnt\<rparr>
                    else Some \<lparr>sr_dead = [], sr_skipped = True, sr_instr_count = cnt\<rparr>)"

end
