(* ===== verification/Sccp_Sound.thy ===== *)
theory Sccp_Sound
  imports Sccp
begin

text \<open>
  Soundness of the solver of \<open>src/analysis/sccp.rs\<close> on its graph: when the worklist runs empty, every
  block that some run of the blocks on machine values enters has been marked executed, with abstract
  values that cover the machine's. Nothing of the solver panics on effects of tracked registers.
\<close>

section \<open>Effects on machine values\<close>

type_synonym regs = "reg_id \<Rightarrow> i64"

text \<open>\<open>FLAGS\<close> holds the difference (or conjunction) the last compare (or test) formed; a clobbered
  register holds any value.\<close>

fun effect_step :: "ssa_effect \<Rightarrow> regs \<Rightarrow> regs \<Rightarrow> bool" where
  "effect_step (MovConst d c) \<rho> \<rho>' = (\<rho>' = \<rho>(d := c))"
| "effect_step (MovReg d s) \<rho> \<rho>' = (\<rho>' = \<rho>(d := \<rho> s))"
| "effect_step (BinOp d op a b) \<rho> \<rho>' = (\<rho>' = \<rho>(d := binop op (\<rho> a) (\<rho> b)))"
| "effect_step (BinOpImm d op a imm) \<rho> \<rho>' = (\<rho>' = \<rho>(d := binop op (\<rho> a) imm))"
| "effect_step (CmpReg a b) \<rho> \<rho>' = (\<rho>' = \<rho>(flags_reg := \<rho> a - \<rho> b))"
| "effect_step (CmpImm a imm) \<rho> \<rho>' = (\<rho>' = \<rho>(flags_reg := \<rho> a - imm))"
| "effect_step (TestReg a b) \<rho> \<rho>' = (\<rho>' = \<rho>(flags_reg := \<rho> a AND \<rho> b))"
| "effect_step (TestImm a imm) \<rho> \<rho>' = (\<rho>' = \<rho>(flags_reg := \<rho> a AND imm))"
| "effect_step (Clobber d) \<rho> \<rho>' = (\<exists>v. \<rho>' = \<rho>(d := v))"
| "effect_step Nop \<rho> \<rho>' = (\<rho>' = \<rho>)"

fun run_effects :: "ssa_effect list \<Rightarrow> regs \<Rightarrow> regs \<Rightarrow> bool" where
  "run_effects [] \<rho> \<rho>' = (\<rho>' = \<rho>)"
| "run_effects (e # es) \<rho> \<rho>' = (\<exists>\<rho>1. effect_step e \<rho> \<rho>1 \<and> run_effects es \<rho>1 \<rho>')"

lemma run_effects_append: "run_effects (es @ fs) \<rho> \<rho>' \<longleftrightarrow> (\<exists>\<rho>1. run_effects es \<rho> \<rho>1 \<and> run_effects fs \<rho>1 \<rho>')"
  by (induction es arbitrary: \<rho>) auto

definition covers :: "val list \<Rightarrow> regs \<Rightarrow> bool" where
  "covers vals \<rho> \<longleftrightarrow> length vals = reg_count \<and> (\<forall>r < reg_count. \<rho> r \<in> stands_for (vals ! r))"

lemma lift_sound:
  "x \<in> stands_for a \<Longrightarrow> f x \<in> stands_for (lift1 f a)"
  "x \<in> stands_for a \<Longrightarrow> y \<in> stands_for b \<Longrightarrow> g x y \<in> stands_for (lift2 g a b)"
  by (cases a; cases b; auto)+

lemma covers_get: "covers vals \<rho> \<Longrightarrow> r < reg_count \<Longrightarrow> get_reg vals r = Some (vals ! r)"
  by (simp add: covers_def get_reg_def)

lemma covers_set:
  "covers vals \<rho> \<Longrightarrow> r < reg_count \<Longrightarrow> x \<in> stands_for v \<Longrightarrow>
     \<exists>vals'. set_reg vals r v = Some vals' \<and> covers vals' (\<rho>(r := x))"
  by (auto simp: covers_def set_reg_def nth_list_update)

lemma covers_nth: "covers vals \<rho> \<Longrightarrow> r < reg_count \<Longrightarrow> \<rho> r \<in> stands_for (vals ! r)"
  by (simp add: covers_def)

lemmas apply_defs = apply_cmp_reg_def apply_cmp_imm_def apply_test_reg_def apply_test_imm_def

lemma apply_effect_sound:
  assumes c: "covers vals \<rho>" and t: "tracked e" and s: "effect_step e \<rho> \<rho>'"
  shows "\<exists>vals'. apply_effect vals e = Some vals' \<and> covers vals' \<rho>'"
proof (cases e)
  case (Clobber d)
  then obtain x where "\<rho>' = \<rho>(d := x)" using s by auto
  then show ?thesis using Clobber covers_set [OF c, of d x Top] t by simp
qed (use c t s in \<open>auto simp: apply_defs covers_get intro!: covers_set lift_sound eval_binop_sound covers_nth\<close>)

lemma apply_effects_sound:
  assumes "covers vals \<rho>" "well_tracked es" "run_effects es \<rho> \<rho>'"
  shows "\<exists>vals'. apply_effects vals es = Some vals' \<and> covers vals' \<rho>'"
  using assms
proof (induction es arbitrary: vals \<rho>)
  case (Cons e es)
  then obtain \<rho>1 where r: "effect_step e \<rho> \<rho>1" "run_effects es \<rho>1 \<rho>'" by auto
  from apply_effect_sound [OF Cons.prems(1) _ r(1)] Cons.prems(2) obtain vals1 where
    "apply_effect vals e = Some vals1" "covers vals1 \<rho>1" by auto
  with Cons.IH [OF this(2) _ r(2)] Cons.prems(2) show ?case by simp
qed simp

lemma apply_effect_length:
  "length vals = reg_count \<Longrightarrow> tracked e \<Longrightarrow>
     \<exists>vals'. apply_effect vals e = Some vals' \<and> length vals' = reg_count"
  by (cases e) (auto simp: apply_defs get_reg_def set_reg_def)

lemma apply_effects_length:
  "length vals = reg_count \<Longrightarrow> well_tracked es \<Longrightarrow>
     \<exists>vals'. apply_effects vals es = Some vals' \<and> length vals' = reg_count"
proof (induction es arbitrary: vals)
  case (Cons e es)
  from apply_effect_length [OF Cons.prems(1)] Cons.prems(2) obtain vals1 where
    "apply_effect vals e = Some vals1" "length vals1 = reg_count" by auto
  with Cons.IH [OF this(2)] Cons.prems(2) show ?case by simp
qed simp

section \<open>Branches on machine values\<close>

text \<open>A compare or test has one of four operand widths, which the code does not know.\<close>

definition operand_widths :: "nat set" where
  "operand_widths = {8, 16, 32, 64}"

fun test_zero :: "test_src \<Rightarrow> nat \<Rightarrow> regs \<Rightarrow> bool" where
  "test_zero TestFlags w \<rho> = (take_bit w (\<rho> flags_reg) = 0)"
| "test_zero (RegBits r m) w \<rho> = (\<rho> r AND m = 0)"

definition branch_taken :: "branch_test_info \<Rightarrow> nat \<Rightarrow> regs \<Rightarrow> bool \<Rightarrow> bool" where
  "branch_taken t w \<rho> takes \<longleftrightarrow> (bt_cc t = Eq \<longrightarrow> takes = test_zero (bt_src t) w \<rho>)
     \<and> (bt_cc t = Ne \<longrightarrow> takes = (\<not> test_zero (bt_src t) w \<rho>))"

lemma flags_zero_sound:
  assumes "flags_zero a = Some z" "v \<in> stands_for a" "w \<in> operand_widths"
  shows "take_bit w v = 0 \<longleftrightarrow> z"
proof -
  obtain c where c: "a = Const c" "c = v" using assms(1,2) by (cases a) auto
  have "v AND 0xFF = 0" if "take_bit w v = 0"
  proof -
    have "take_bit 8 v = take_bit 8 (take_bit w v)" using assms(3) by (auto simp: operand_widths_def)
    moreover have "v AND 0xFF = take_bit 8 v" using take_bit_eq_mask [of 8 v] by (simp add: mask_eq_exp_minus_1)
    ultimately show ?thesis using that by simp
  qed
  then show ?thesis using assms(1) c by (auto split: if_splits)
qed

definition src_tracked :: "test_src \<Rightarrow> bool" where
  "src_tracked src = (case src of TestFlags \<Rightarrow> True | RegBits r m \<Rightarrow> r < reg_count)"

lemma tested_zero_sound:
  assumes "tested_zero src vals = Some z" "covers vals \<rho>" "w \<in> operand_widths"
  shows "test_zero src w \<rho> \<longleftrightarrow> z"
proof (cases src)
  case TestFlags
  then have "flags_zero (vals ! flags_reg) = Some z"
    using assms(1,2) by (auto simp: tested_zero_def covers_get)
  then show ?thesis using TestFlags flags_zero_sound covers_nth [OF assms(2)] assms(3) by simp
next
  case (RegBits r m)
  then obtain v where r: "r < reg_count" "as_const (vals ! r) = Some v" "z = (v AND m = 0)"
    using assms(1,2) by (auto simp: tested_zero_def covers_def get_reg_def bind_eq_Some_conv split: if_splits)
  then have "\<rho> r = v" using covers_nth [OF assms(2) r(1)] by (cases "vals ! r") auto
  then show ?thesis using RegBits r by simp
qed

lemma only_succ_sound:
  assumes "only_succ (Some t) vals = Some s" "covers vals \<rho>" "w \<in> operand_widths"
    "branch_taken (ct_test t) w \<rho> takes"
  shows "s = (if takes then ct_taken t else ct_fallthrough t)"
proof -
  obtain z where z: "tested_zero (bt_src (ct_test t)) vals = Some z"
    using assms(1) by (cases "tested_zero (bt_src (ct_test t)) vals") (auto simp: only_succ_def resolve_branch_def)
  from tested_zero_sound [OF z assms(2,3)] show ?thesis
    using assms(1,4) z by (auto simp: only_succ_def resolve_branch_def branch_taken_def split: if_splits)
qed

section \<open>Runs of the blocks\<close>

text \<open>A run through the graph: the effects of the block, then a successor; at a decoded conditional
  branch the one its test selects.\<close>

definition leaves_to :: "sccp_flow \<Rightarrow> nat \<Rightarrow> regs \<Rightarrow> nat \<Rightarrow> bool" where
  "leaves_to fl b \<rho> s \<longleftrightarrow> s \<in> set (flow_succs fl ! b)
     \<and> (\<forall>t. flow_terms fl ! b = Some t \<longrightarrow> (\<exists>w \<in> operand_widths. \<exists>takes.
          branch_taken (ct_test t) w \<rho> takes \<and> s = (if takes then ct_taken t else ct_fallthrough t)))"

inductive block_run :: "ssa_effect list list \<Rightarrow> sccp_flow \<Rightarrow> nat \<Rightarrow> nat \<Rightarrow> regs \<Rightarrow> bool"
  for effs fl entry where
  start: "block_run effs fl entry entry \<rho>"
| step: "block_run effs fl entry b \<rho> \<Longrightarrow> run_effects (effs ! b) \<rho> \<rho>' \<Longrightarrow> leaves_to fl b \<rho>' s \<Longrightarrow>
    block_run effs fl entry s \<rho>'"

section \<open>The state only grows\<close>

definition wf_state :: "nat \<Rightarrow> sccp_state \<Rightarrow> bool" where
  "wf_state n st \<longleftrightarrow> length (reg_vals st) = n \<and> length (block_exec st) = n
     \<and> (\<forall>b < n. length (reg_vals st ! b) = reg_count)
     \<and> (\<forall>x y. (x, y) \<in> set (exec_edges st) \<longrightarrow> y < n \<and> is_exec st y)"

definition grows :: "nat \<Rightarrow> sccp_state \<times> nat list \<Rightarrow> sccp_state \<times> nat list \<Rightarrow> bool" where
  "grows n p p' \<longleftrightarrow> set (snd p) \<subseteq> set (snd p') \<and> set (snd p') \<subseteq> set (snd p) \<union> {..<n}
     \<and> (\<forall>c < n. is_exec (fst p) c \<longrightarrow> is_exec (fst p') c)
     \<and> (\<forall>c < n. is_exec (fst p') c \<longrightarrow> is_exec (fst p) c \<or> c \<in> set (snd p'))
     \<and> (\<forall>c < n. \<forall>r < reg_count. reg_vals (fst p) ! c ! r \<le> reg_vals (fst p') ! c ! r)
     \<and> (\<forall>c < n. c \<notin> set (snd p') \<longrightarrow> reg_vals (fst p') ! c = reg_vals (fst p) ! c)"

definition reached :: "nat \<Rightarrow> val list \<Rightarrow> nat \<Rightarrow> sccp_state \<Rightarrow> bool" where
  "reached n vals s st \<longleftrightarrow> (s < n \<longrightarrow> is_exec st s \<and> (\<forall>r < reg_count. vals ! r \<le> reg_vals st ! s ! r))"

lemma grows_refl: "grows n p p"
  by (simp add: grows_def)

lemma growsD:
  assumes "grows n p q"
  shows "set (snd p) \<subseteq> set (snd q)" "set (snd q) \<subseteq> set (snd p) \<union> {..<n}"
    "c < n \<Longrightarrow> is_exec (fst p) c \<Longrightarrow> is_exec (fst q) c"
    "c < n \<Longrightarrow> is_exec (fst q) c \<Longrightarrow> is_exec (fst p) c \<or> c \<in> set (snd q)"
    "c < n \<Longrightarrow> r < reg_count \<Longrightarrow> reg_vals (fst p) ! c ! r \<le> reg_vals (fst q) ! c ! r"
    "c < n \<Longrightarrow> c \<notin> set (snd q) \<Longrightarrow> reg_vals (fst q) ! c = reg_vals (fst p) ! c"
  using assms by (auto simp: grows_def)

lemma grows_trans:
  assumes pq: "grows n p q" and qr: "grows n q r"
  shows "grows n p r"
  unfolding grows_def
proof (intro conjI allI impI)
  note a = growsD [OF pq] and b = growsD [OF qr]
  show "set (snd p) \<subseteq> set (snd r)" "set (snd r) \<subseteq> set (snd p) \<union> {..<n}"
    using a(1,2) b(1,2) by auto
  fix c assume c: "c < n"
  show "is_exec (fst r) c" if "is_exec (fst p) c" using a(3) b(3) c that by blast
  show "is_exec (fst p) c \<or> c \<in> set (snd r)" if "is_exec (fst r) c"
    using a(4) b(4) b(1) c that by blast
  show "reg_vals (fst p) ! c ! x \<le> reg_vals (fst r) ! c ! x" if "x < reg_count" for x
    by (rule order.trans [OF a(5) [OF c that] b(5) [OF c that]])
  show "reg_vals (fst r) ! c = reg_vals (fst p) ! c" if "c \<notin> set (snd r)"
  proof -
    have "c \<notin> set (snd q)" using b(1) that by blast
    then show ?thesis using a(6) b(6) c that by simp
  qed
qed

lemma reached_mono: "reached n vals s (fst p) \<Longrightarrow> grows n p q \<Longrightarrow> reached n vals s (fst q)"
  unfolding reached_def grows_def by (blast intro: order.trans)

lemma nth_merged: "r < reg_count \<Longrightarrow> merged old vals ! r = meet (old ! r) (vals ! r)"
  by (simp add: merged_def)

lemma merge_step:
  assumes wf: "wf_state n st"
  shows "wf_state n (fst (merge_and_enqueue b vals s (st, wl)))
    \<and> grows n (st, wl) (merge_and_enqueue b vals s (st, wl))
    \<and> reached n vals s (fst (merge_and_enqueue b vals s (st, wl)))"
proof (cases "s < n")
  case False
  then have "merge_and_enqueue b vals s (st, wl) = (st, wl)"
    using wf by (simp add: merge_and_enqueue_def wf_state_def)
  then show ?thesis using wf False by (simp add: grows_refl reached_def)
next
  case True
  let ?old = "reg_vals st ! s" and ?new = "merged (reg_vals st ! s) vals"
  have lens: "length (reg_vals st) = n" "length (block_exec st) = n" "length ?old = reg_count"
    using wf True by (auto simp: wf_state_def)
  have le: "?old ! r \<le> ?new ! r" "vals ! r \<le> ?new ! r" if "r < reg_count" for r
    using that by (simp_all add: nth_merged meet_upper)
  show ?thesis
  proof (cases "(b, s) \<notin> set (exec_edges st) \<or> ?new \<noteq> ?old")
    case changed: True
    then have eq: "merge_and_enqueue b vals s (st, wl) =
        (st\<lparr>reg_vals := (reg_vals st)[s := ?new], exec_edges := set_insert (b, s) (exec_edges st),
            block_exec := (block_exec st)[s := True]\<rparr>, wl @ [s])"
      using lens True by (simp add: merge_and_enqueue_def Let_def)
    show ?thesis unfolding eq using wf True lens le
      by (auto simp: wf_state_def grows_def reached_def is_exec_def nth_list_update merged_def)
  next
    case same: False
    then have eq: "merge_and_enqueue b vals s (st, wl) =
        (st\<lparr>reg_vals := (reg_vals st)[s := ?old], exec_edges := set_insert (b, s) (exec_edges st)\<rparr>, wl)"
      using lens True by (simp add: merge_and_enqueue_def Let_def)
    have "is_exec st s" using wf same by (auto simp: wf_state_def)
    then show ?thesis unfolding eq using wf True lens le same
      by (auto simp: wf_state_def grows_def reached_def is_exec_def set_insert_def)
  qed
qed

lemma propagate_step:
  assumes "wf_state n st"
  shows "wf_state n (fst (fold (merge_and_enqueue b vals) ss (st, wl)))
    \<and> grows n (st, wl) (fold (merge_and_enqueue b vals) ss (st, wl))
    \<and> (\<forall>s \<in> set ss. reached n vals s (fst (fold (merge_and_enqueue b vals) ss (st, wl))))"
  using assms
proof (induction ss arbitrary: st wl)
  case (Cons s ss)
  obtain st1 wl1 where p: "merge_and_enqueue b vals s (st, wl) = (st1, wl1)" by fastforce
  note first = merge_step [OF Cons.prems, of b vals s wl, unfolded p]
  from first have "wf_state n st1" by simp
  note rest = Cons.IH [OF this, of wl1]
  let ?p = "fold (merge_and_enqueue b vals) ss (st1, wl1)"
  have "grows n (st, wl) ?p" using first rest by (blast intro: grows_trans)
  moreover have "reached n vals s (fst ?p)" using first rest reached_mono [of n vals s "(st1, wl1)" ?p] by simp
  ultimately show ?case using rest by (simp add: p)
qed (simp add: grows_refl)

section \<open>The loop\<close>

text \<open>A block is stable when what leaves it has reached every successor the solver follows.\<close>

definition stable :: "nat \<Rightarrow> ssa_effect list list \<Rightarrow> sccp_flow \<Rightarrow> sccp_state \<Rightarrow> nat \<Rightarrow> bool" where
  "stable n effs fl st b \<longleftrightarrow> (\<forall>vals. eval_block st b effs = Some vals \<longrightarrow>
     (\<forall>s \<in> set (next_blocks fl b vals). reached n vals s st))"

definition sccp_inv ::
  "nat \<Rightarrow> ssa_effect list list \<Rightarrow> sccp_flow \<Rightarrow> nat \<Rightarrow> sccp_state \<times> nat list \<Rightarrow> bool" where
  "sccp_inv n effs fl entry p \<longleftrightarrow> wf_state n (fst p) \<and> set (snd p) \<subseteq> {..<n}
     \<and> entry < n \<and> is_exec (fst p) entry \<and> (\<forall>r < reg_count. reg_vals (fst p) ! entry ! r = Top)
     \<and> (\<forall>b < n. is_exec (fst p) b \<longrightarrow> b \<notin> set (snd p) \<longrightarrow> stable n effs fl (fst p) b)"

lemma top_le: "Top \<le> v \<Longrightarrow> v = Top"
  by (cases v) (auto simp: less_eq_val_def)

lemma sccp_inv_step:
  assumes inv: "sccp_inv n effs fl entry (st, b # wl)" and ev: "eval_block st b effs = Some vals"
  shows "sccp_inv n effs fl entry (propagate_succs st b vals fl wl)"
proof -
  have wf: "wf_state n st" and b: "b < n" using inv by (auto simp: sccp_inv_def)
  let ?p = "propagate_succs st b vals fl wl"
  from propagate_step [OF wf, of b vals "next_blocks fl b vals" wl]
  have wf': "wf_state n (fst ?p)" and g: "grows n (st, wl) ?p"
    and all: "\<forall>s \<in> set (next_blocks fl b vals). reached n vals s (fst ?p)"
    by (simp_all add: propagate_succs_def)
  note gd = growsD [OF g, simplified]
  have "stable n effs fl (fst ?p) c" if c: "c < n" "is_exec (fst ?p) c" "c \<notin> set (snd ?p)" for c
  proof -
    have same: "reg_vals (fst ?p) ! c = reg_vals st ! c" using gd(6) c by simp
    have "is_exec st c" using gd(4) c by blast
    show ?thesis
    proof (cases "c = b")
      case True
      then show ?thesis using ev all same by (simp add: stable_def eval_block_def)
    next
      case False
      have "c \<notin> set (b # wl)" using False gd(1) c(3) by auto
      then have "stable n effs fl st c" using inv c(1) \<open>is_exec st c\<close> by (simp add: sccp_inv_def)
      then show ?thesis using same reached_mono [of n _ _ "(st, wl)" ?p] g
        by (simp add: stable_def eval_block_def)
    qed
  qed
  moreover have "is_exec (fst ?p) entry" "entry < n"
    using inv gd(3) by (auto simp: sccp_inv_def)
  moreover have "reg_vals (fst ?p) ! entry ! r = Top" if "r < reg_count" for r
  proof -
    have "reg_vals st ! entry ! r = Top" using inv that by (simp add: sccp_inv_def)
    then show ?thesis using gd(5) [of entry r] that inv by (auto simp: sccp_inv_def top_le)
  qed
  moreover have "set (snd ?p) \<subseteq> {..<n}" using inv gd(2) by (auto simp: sccp_inv_def)
  ultimately show ?thesis using wf' by (simp add: sccp_inv_def)
qed

lemma sccp_inv_skip:
  assumes "sccp_inv n effs fl entry (st, b # wl)" "\<not> is_exec st b"
  shows "sccp_inv n effs fl entry (st, wl)"
  using assms by (auto simp: sccp_inv_def)

lemma sccp_loop_inv:
  "sccp_inv n effs fl entry (st, wl) \<Longrightarrow> sccp_loop effs fl mi st wl it = Some (st', True) \<Longrightarrow>
     sccp_inv n effs fl entry (st', [])"
proof (induction effs fl mi st wl it rule: sccp_loop.induct)
  case (2 effs fl mi st b wl it)
  have it: "\<not> mi < it + 1" using 2(4) by auto
  show ?case
  proof (cases "is_exec st b")
    case False
    then show ?thesis using 2(1) [OF it] 2(3,4) sccp_inv_skip it by simp
  next
    case True
    then obtain vals where ev: "eval_block st b effs = Some vals" using 2(4) it by (auto split: option.splits)
    have "sccp_inv n effs fl entry (propagate_succs st b vals fl wl)"
      by (rule sccp_inv_step [OF 2(3) ev])
    then show ?thesis using 2(2) [OF it _ ev refl] 2(4) it True ev by (simp add: Let_def)
  qed
qed simp

lemma sccp_loop_total:
  assumes "\<forall>b < n. well_tracked (effs ! b)"
  shows "sccp_inv n effs fl entry (st, wl) \<Longrightarrow> sccp_loop effs fl mi st wl it \<noteq> None"
  using assms
proof (induction effs fl mi st wl it rule: sccp_loop.induct)
  case (2 effs fl mi st b wl it)
  show ?case
  proof (cases "mi < it + 1 \<or> \<not> is_exec st b")
    case True
    then show ?thesis using 2(1,4) sccp_inv_skip [OF 2(3)] by auto
  next
    case False
    have "b < n" "length (reg_vals st ! b) = reg_count" using 2(3) by (auto simp: sccp_inv_def wf_state_def)
    then obtain vals where ev: "eval_block st b effs = Some vals"
      using apply_effects_length 2(4) by (metis eval_block_def)
    show ?thesis using 2(2) [OF _ _ ev refl] sccp_inv_step [OF 2(3) ev] 2(4) False ev by (simp add: Let_def)
  qed
qed simp

lemma sccp_start_inv:
  assumes "entry < n"
  shows "sccp_inv n effs fl entry (init_entry_regs (mark_edge_exec (new_state n) entry) entry, [entry])"
  using assms
  by (auto simp: sccp_inv_def wf_state_def init_entry_regs_def mark_edge_exec_def new_state_def is_exec_def
      nth_list_update)

section \<open>Soundness on the graph\<close>

lemma block_run_covered:
  assumes inv: "sccp_inv n effs fl entry (st, [])"
    and effs: "\<forall>b < n. well_tracked (effs ! b)" and succs: "\<forall>b < n. \<forall>s \<in> set (flow_succs fl ! b). s < n"
    and run: "block_run effs fl entry b \<rho>"
  shows "b < n \<and> is_exec st b \<and> covers (reg_vals st ! b) \<rho>"
  using run
proof induction
  case (start \<rho>)
  then show ?case using inv by (auto simp: sccp_inv_def wf_state_def covers_def)
next
  case (step b \<rho> \<rho>' s)
  then have b: "b < n" "is_exec st b" "covers (reg_vals st ! b) \<rho>" by auto
  from apply_effects_sound [OF b(3) _ step.hyps(2)] effs b(1) obtain vals where
    ev: "eval_block st b effs = Some vals" "covers vals \<rho>'" by (auto simp: eval_block_def)
  have s: "s \<in> set (flow_succs fl ! b)" "s < n"
    using step.hyps(3) succs b(1) by (auto simp: leaves_to_def)
  have "s \<in> set (next_blocks fl b vals)"
  proof (cases "only_succ (flow_terms fl ! b) vals")
    case (Some u)
    then obtain t where t: "flow_terms fl ! b = Some t"
      by (cases "flow_terms fl ! b") (auto simp: only_succ_def)
    with step.hyps(3) obtain w takes where "w \<in> operand_widths" "branch_taken (ct_test t) w \<rho>' takes"
      "s = (if takes then ct_taken t else ct_fallthrough t)" by (auto simp: leaves_to_def)
    then have "u = s" using only_succ_sound [of t vals u \<rho>'] Some t ev(2) by simp
    then show ?thesis using Some by (simp add: next_blocks_def)
  qed (use s in \<open>simp add: next_blocks_def\<close>)
  then have r: "reached n vals s st" using inv b(1,2) ev(1) by (simp add: sccp_inv_def stable_def)
  then have le: "vals ! r \<le> reg_vals st ! s ! r" if "r < reg_count" for r
    using s(2) that by (simp add: reached_def)
  have "covers (reg_vals st ! s) \<rho>'"
    using ev(2) stands_for_mono [OF le] inv s(2) by (auto simp: covers_def sccp_inv_def wf_state_def)
  then show ?case using r s(2) by (simp add: reached_def)
qed

end
