(* ===== verification/Sccp_Dead.thy ===== *)
theory Sccp_Dead
  imports Sccp_Sound
begin


section \<open>Executions on machine values\<close>










section \<open>The solver's input for a function\<close>







section \<open>Executions run through the blocks\<close>






section \<open>The reported blocks\<close>







section \<open>Example\<close>








end
