(* ===== verification/Results.thy ===== *)
theory Results
  imports Prelude
begin

text \<open>
  Fallible code: a \<open>Result\<close> is a sum whose left side is the error, \<open>?\<close> is \<open>bindE\<close>, the
  iterator adaptors that stop at the first error are \<open>mapE\<close> and \<open>foldE\<close>. The accessors
  \<open>rd\<close> and \<open>wr\<close> read and write little-endian fields of a byte buffer, checked.
\<close>

section \<open>Results\<close>

fun bindE :: "'e + 'a \<Rightarrow> ('a \<Rightarrow> 'e + 'b) \<Rightarrow> 'e + 'b" where
  "bindE (Inl e) f = Inl e"
| "bindE (Inr x) f = f x"

definition ok_or :: "'a option \<Rightarrow> 'e \<Rightarrow> 'e + 'a" where
  "ok_or x e = (case x of None \<Rightarrow> Inl e | Some v \<Rightarrow> Inr v)"

definition ok :: "'e + 'a \<Rightarrow> 'a option" where
  "ok r = (case r of Inl e \<Rightarrow> None | Inr v \<Rightarrow> Some v)"

fun mapE :: "('a \<Rightarrow> 'e + 'b) \<Rightarrow> 'a list \<Rightarrow> 'e + 'b list" where
  "mapE f [] = Inr []"
| "mapE f (x # xs) = bindE (f x) (\<lambda>y. bindE (mapE f xs) (\<lambda>ys. Inr (y # ys)))"

fun foldE :: "('a \<Rightarrow> 's \<Rightarrow> 'e + 's) \<Rightarrow> 'a list \<Rightarrow> 's \<Rightarrow> 'e + 's" where
  "foldE f [] s = Inr s"
| "foldE f (x # xs) s = bindE (f x s) (foldE f xs)"

fun position :: "('a \<Rightarrow> bool) \<Rightarrow> 'a list \<Rightarrow> nat option" where
  "position P [] = None"
| "position P (x # xs) = (if P x then Some 0 else map_option Suc (position P xs))"

fun find_map :: "('a \<Rightarrow> 'b option) \<Rightarrow> 'a list \<Rightarrow> 'b option" where
  "find_map f [] = None"
| "find_map f (x # xs) = (case f x of None \<Rightarrow> find_map f xs | Some y \<Rightarrow> Some y)"

lemma bindE_Inr [simp]: "bindE m f = Inr y \<longleftrightarrow> (\<exists>x. m = Inr x \<and> f x = Inr y)"
  by (cases m) auto

lemma bindE_Inl: "bindE m f = Inl e \<longleftrightarrow> m = Inl e \<or> (\<exists>x. m = Inr x \<and> f x = Inl e)"
  by (cases m) auto

lemma ok_or_Inr [simp]: "ok_or x e = Inr v \<longleftrightarrow> x = Some v"
  by (simp add: ok_or_def split: option.split)

lemma ok_or_simps [simp]: "ok_or None e = Inl e" "ok_or (Some v) e = Inr v"
  by (simp_all add: ok_or_def)

lemma ok_Some [simp]: "ok r = Some v \<longleftrightarrow> r = Inr v"
  by (simp add: ok_def split: sum.split)

lemma mapE_Inr: "mapE f xs = Inr ys \<longleftrightarrow> length ys = length xs \<and> (\<forall>i < length xs. f (xs ! i) = Inr (ys ! i))"
proof (induction xs arbitrary: ys)
  case (Cons x xs)
  show ?case by (cases ys) (auto simp: Cons.IH nth_Cons split: nat.split)
next
  case Nil
  show ?case by (cases ys) auto
qed

text \<open>Induction over a fold that succeeded, from an invariant of the prefixes.\<close>

lemma foldE_inv:
  assumes "foldE f xs s = Inr s'" and "I [] s"
    and "\<And>ys y zs t t'. xs = ys @ y # zs \<Longrightarrow> I ys t \<Longrightarrow> f y t = Inr t' \<Longrightarrow> I (ys @ [y]) t'"
  shows "I xs s'"
proof -
  have "I (ys @ zs) s'" if "foldE f zs t = Inr s'" "I ys t" "xs = ys @ zs" for ys zs t
    using that
  proof (induction zs arbitrary: ys t)
    case (Cons z zs)
    from Cons.prems(1) obtain t' where t': "f z t = Inr t'" "foldE f zs t' = Inr s'" by auto
    then show ?case
      using Cons.IH [OF t'(2), of "ys @ [z]"] Cons.prems assms(3) [of ys z zs t t'] by simp
  qed simp
  from this [of xs s "[]"] assms show ?thesis by simp
qed

lemma upt_split:
  assumes "[0..<n] = ys @ y # zs"
  shows "y = length ys" and "n = length ys + Suc (length zs)"
proof -
  show n: "n = length ys + Suc (length zs)" using arg_cong [OF assms, of length] by simp
  have "y = [0..<n] ! length ys" unfolding assms by simp
  then show "y = length ys" using n by (simp del: upt_Suc)
qed

lemma position_Some:
  "position P xs = Some i \<longleftrightarrow> i < length xs \<and> P (xs ! i) \<and> (\<forall>j < i. \<not> P (xs ! j))"
proof (induction xs arbitrary: i)
  case (Cons x xs)
  show ?case by (cases i) (auto simp: Cons.IH nth_Cons split: nat.splits)
qed simp

lemma position_None: "position P xs = None \<longleftrightarrow> (\<forall>x \<in> set xs. \<not> P x)"
  by (induction xs) auto

section \<open>Checked fields\<close>

text \<open>\<open>Truncated off\<close> and \<open>WriteOutside off\<close> are the errors of \<open>rd\<close> and \<open>wr\<close>; a value \<open>off\<close>
  is a byte offset. The reader folds the bytes from the last one.\<close>

datatype field_error = Truncated usize | WriteOutside usize

definition rd :: "bytes \<Rightarrow> usize \<Rightarrow> nat \<Rightarrow> field_error + u64" where
  "rd d off n =
     bindE (ok_or (checked_add off (of_nat n) \<bind> slice_get d off) (Truncated off)) (\<lambda>b.
     Inr (foldl (\<lambda>v x. push_bit 8 v OR ucast x) 0 (rev b)))"

definition wr :: "bytes \<Rightarrow> usize \<Rightarrow> nat \<Rightarrow> u64 \<Rightarrow> field_error + bytes" where
  "wr d off n v =
     bindE (ok_or (checked_add off (of_nat n) \<bind> slice_get d off) (WriteOutside off)) (\<lambda>b.
     Inr (splice_at d (unat off) (take n (to_le 8 v))))"

text \<open>The field of \<open>n\<close> bytes at \<open>off\<close>.\<close>

definition field :: "bytes \<Rightarrow> nat \<Rightarrow> nat \<Rightarrow> u64" where
  "field d off n = from_le (take n (drop off d))"

lemma foldl_from_le: "foldl (\<lambda>v x. push_bit 8 v OR ucast x) 0 (rev b) = (from_le b :: u64)"
  by (induction b) (simp_all add: or.commute)

lemma checked_slice:
  assumes "vec_ok d" and "n < 2 ^ 63"
  shows "checked_add off (of_nat n) \<bind> slice_get d off =
    (if unat off + n \<le> length d then Some (take n (drop (unat off) d)) else None)"
proof -
  have n: "unat (of_nat n :: 64 word) = n" using assms by (simp add: unat_of_nat)
  show ?thesis
  proof (cases "unat off + n < 2 ^ 64")
    case True
    then have "unat (off + of_nat n) = unat off + n" using n by (simp add: unat_add_le)
    then show ?thesis using True n by (simp add: checked_add_def slice_get_def word_le_nat_alt)
  next
    case False
    then show ?thesis using n assms by (simp add: checked_add_def vec_ok_def)
  qed
qed

lemma rd_eq:
  assumes "vec_ok d" and "n < 2 ^ 63"
  shows "rd d off n = (if unat off + n \<le> length d then Inr (field d (unat off) n) else Inl (Truncated off))"
  using assms by (simp add: rd_def checked_slice ok_or_def foldl_from_le field_def)

lemma take_to_le: "n \<le> k \<Longrightarrow> take n (to_le k v) = to_le n v"
  by (simp add: to_le_def take_map)

lemma wr_eq:
  assumes "vec_ok d" and "n \<le> 8"
  shows "wr d off n v = (if unat off + n \<le> length d then Inr (splice_at d (unat off) (to_le n v))
    else Inl (WriteOutside off))"
  using assms by (simp add: wr_def checked_slice ok_or_def take_to_le)

text \<open>A written field is read back and no other byte changes.\<close>

lemma field_splice_same:
  assumes "off + 8 \<le> length d"
  shows "field (splice_at d off (to_le 8 v)) off 8 = v"
proof -
  have "take 8 (drop off (splice_at d off (to_le 8 v))) = to_le 8 v"
    using take_drop_splice [of off "to_le 8 v" d] assms by simp
  then show ?thesis by (simp add: field_def from_le_to_le)
qed

lemma field_cong:
  assumes "length d' = length d" and "\<And>k. off \<le> k \<Longrightarrow> k < off + n \<Longrightarrow> k < length d \<Longrightarrow> d' ! k = d ! k"
  shows "field d' off n = field d off n"
  using take_drop_cong [OF assms] by (simp add: field_def)

lemma field_splice_other:
  assumes "i + length bs \<le> length d" and "off + n \<le> i \<or> i + length bs \<le> off"
  shows "field (splice_at d i bs) off n = field d off n"
  by (rule field_cong) (use assms in \<open>auto simp: nth_splice\<close>)

section \<open>Frames\<close>

definition only_changes :: "bytes \<Rightarrow> bytes \<Rightarrow> nat set \<Rightarrow> bool" where
  "only_changes d d' S \<longleftrightarrow> length d' = length d \<and> (\<forall>k < length d. k \<notin> S \<longrightarrow> d' ! k = d ! k)"

lemma only_changes_refl [simp]: "only_changes d d S"
  by (simp add: only_changes_def)

lemma only_changes_trans:
  "only_changes d d1 S \<Longrightarrow> only_changes d1 d2 T \<Longrightarrow> S \<union> T \<subseteq> U \<Longrightarrow> only_changes d d2 U"
  unfolding only_changes_def by (metis UnCI subsetD)

lemma only_changes_mono: "only_changes d d' S \<Longrightarrow> S \<subseteq> T \<Longrightarrow> only_changes d d' T"
  by (auto simp: only_changes_def)

lemma only_changes_splice:
  "i + length bs \<le> length d \<Longrightarrow> only_changes d (splice_at d i bs) {i..<i + length bs}"
  by (auto simp: only_changes_def nth_splice)

lemma only_changes_field:
  "only_changes d d' S \<Longrightarrow> S \<inter> {off..<off + n} = {} \<Longrightarrow> field d' off n = field d off n"
  by (rule field_cong) (auto simp: only_changes_def disjoint_iff)

lemma only_changes_vec_ok: "only_changes d d' S \<Longrightarrow> vec_ok d' = vec_ok d"
  by (simp add: only_changes_def vec_ok_def)

lemma only_changes_ok:
  "only_changes d d' S \<Longrightarrow> vec_ok d \<Longrightarrow> vec_ok d' \<and> length d' = length d"
  by (simp add: only_changes_def vec_ok_def)

end
