(* ===== verification/Relr_Elf.thy ===== *)
theory Relr_Elf
  imports Results
begin

text \<open>
  \<open>src/format/elf/relr.rs\<close>, first half: the headers of a 64-bit little-endian ELF file, its
  \<open>.dynamic\<close> array, the version needs and the DT_RELA table. File offsets and addresses are 64-bit
  words with the wrapping arithmetic of the release build; the counts \<open>e_phnum\<close>, \<open>e_shnum\<close> and
  \<open>e_shstrndx\<close>, read from 16 bits, and the number of \<open>.dynamic\<close> slots are naturals. The
  conversion \<open>us\<close> from \<open>u64\<close> to \<open>usize\<close> never fails on a 64-bit target and is left out. An error
  message is a constructor with the values the message shows.
\<close>

section \<open>Constants\<close>

abbreviation (input) EHDR_SIZE :: nat where "EHDR_SIZE \<equiv> 64"
abbreviation (input) PHDR_SIZE :: nat where "PHDR_SIZE \<equiv> 56"
abbreviation (input) SHDR_SIZE :: nat where "SHDR_SIZE \<equiv> 64"
abbreviation (input) DYN_SIZE :: nat where "DYN_SIZE \<equiv> 16"
abbreviation (input) RELA_SIZE :: nat where "RELA_SIZE \<equiv> 24"
abbreviation (input) REL_SIZE :: nat where "REL_SIZE \<equiv> 16"
abbreviation (input) VERNEED_SIZE :: nat where "VERNEED_SIZE \<equiv> 16"
abbreviation (input) MAX_VERSIONS :: nat where "MAX_VERSIONS \<equiv> 4096"
abbreviation (input) MAX_NAME :: nat where "MAX_NAME \<equiv> 4096"

abbreviation (input) ET_DYN :: u64 where "ET_DYN \<equiv> 3"
abbreviation (input) PT_LOAD :: u64 where "PT_LOAD \<equiv> 1"
abbreviation (input) PT_DYNAMIC :: u64 where "PT_DYNAMIC \<equiv> 2"
abbreviation (input) PT_INTERP :: u64 where "PT_INTERP \<equiv> 3"
abbreviation (input) SHT_RELA :: u64 where "SHT_RELA \<equiv> 4"
abbreviation (input) SHT_NOBITS :: u64 where "SHT_NOBITS \<equiv> 8"
abbreviation (input) SHT_RELR :: u64 where "SHT_RELR \<equiv> 19"
abbreviation (input) SHF_ALLOC :: u64 where "SHF_ALLOC \<equiv> 2"
abbreviation (input) SHF_INFO_LINK :: u64 where "SHF_INFO_LINK \<equiv> 0x40"
abbreviation (input) DT_NULL :: u64 where "DT_NULL \<equiv> 0"
abbreviation (input) DT_NEEDED :: u64 where "DT_NEEDED \<equiv> 1"
abbreviation (input) DT_PLTRELSZ :: u64 where "DT_PLTRELSZ \<equiv> 2"
abbreviation (input) DT_STRTAB :: u64 where "DT_STRTAB \<equiv> 5"
abbreviation (input) DT_RELA :: u64 where "DT_RELA \<equiv> 7"
abbreviation (input) DT_RELASZ :: u64 where "DT_RELASZ \<equiv> 8"
abbreviation (input) DT_RELAENT :: u64 where "DT_RELAENT \<equiv> 9"
abbreviation (input) DT_REL :: u64 where "DT_REL \<equiv> 17"
abbreviation (input) DT_PLTREL :: u64 where "DT_PLTREL \<equiv> 20"
abbreviation (input) DT_JMPREL :: u64 where "DT_JMPREL \<equiv> 23"
abbreviation (input) DT_RELRSZ :: u64 where "DT_RELRSZ \<equiv> 35"
abbreviation (input) DT_RELR :: u64 where "DT_RELR \<equiv> 36"
abbreviation (input) DT_RELRENT :: u64 where "DT_RELRENT \<equiv> 37"
abbreviation (input) DT_RELACOUNT :: u64 where "DT_RELACOUNT \<equiv> 0x6ffffff9"
abbreviation (input) DT_FLAGS_1 :: u64 where "DT_FLAGS_1 \<equiv> 0x6ffffffb"
abbreviation (input) DT_VERNEED :: u64 where "DT_VERNEED \<equiv> 0x6ffffffe"
abbreviation (input) DT_VERNEEDNUM :: u64 where "DT_VERNEEDNUM \<equiv> 0x6fffffff"
abbreviation (input) DF_1_PIE :: u64 where "DF_1_PIE \<equiv> 0x08000000"

text \<open>\<open>libc.so.\<close> and \<open>GLIBC_ABI_DT_RELR\<close>\<close>

definition GLIBC_SONAME :: bytes where
  "GLIBC_SONAME = [0x6c, 0x69, 0x62, 0x63, 0x2e, 0x73, 0x6f, 0x2e]"

definition GLIBC_RELR_VERSION :: bytes where
  "GLIBC_RELR_VERSION = [0x47, 0x4c, 0x49, 0x42, 0x43, 0x5f, 0x41, 0x42, 0x49, 0x5f, 0x44, 0x54,
     0x5f, 0x52, 0x45, 0x4c, 0x52]"

section \<open>Headers\<close>

record ehdr =
  e_type :: u64
  e_entry :: u64
  e_phoff :: u64
  e_shoff :: u64
  e_phnum :: nat
  e_shnum :: nat
  e_shstrndx :: nat

record phdr =
  ph_at :: usize
  p_type :: u64
  p_offset :: u64
  p_vaddr :: u64
  p_filesz :: u64
  p_memsz :: u64
  p_align :: u64

record shdr =
  sh_at :: usize
  sh_name :: u64
  sh_type :: u64
  sh_offset :: u64
  sh_size :: u64

record elf =
  eh :: ehdr
  phdrs :: "phdr list"
  shdrs :: "shdr list"

record dynamic =
  dy_off :: usize
  dy_addr :: u64
  dy_slots :: nat
  dy_tags :: "(u64 \<times> u64) list"

record rela_tab =
  t_off :: usize
  t_addr :: u64
  t_size :: usize
  t_seg :: nat
  t_sec :: "nat option"

datatype relr_error =
  Field field_error | RangeOutside u64 u64 | NotElf | UnsupportedMachine u16 | NotElf64Le
  | NotPositionIndependent u64 | BadPhdrSize | BadShdrSize | ExtendedNumbering
  | NoDynamic | VerneedWithoutStrtab | StrtabOutside | LinkedAgainstGlibc bytes
  | NoVerneed | VerneedOutside | VersionOverflow | TooManyVersions
  | HasRelr | HasRel | NoRela | BadRelaEnt | MalformedRela | JmprelInside | RelaOutside
  | RelaUnaligned | NoRelaSection | StaticPie
  | NothingToPack | WordDisagrees | WordPatchedTwice | WordInTables | JmprelOutside
  | NoRoundTrip | DynamicFull nat nat
  | SegmentVanished | FollowedBy bytes | SegmentContinues | ZeroFilledTail | Overlay u64
  | SectionInRange bytes | SegmentInRange nat u64 | PhdrsInRange | ShdrsInRange | NoFreePage u64
  | TablesDoNotFit | TableOutside | SectionVanished | NameOutside | DrainPastEnd
  | CountCannotGrow | ShdrsNotLast | NoNameTable

section \<open>Bytes\<close>

text \<open>\<open>rd\<close> and \<open>wr\<close> with their errors as errors of the pass.\<close>

definition lift_field :: "field_error + 'a \<Rightarrow> relr_error + 'a" where
  "lift_field r = (case r of Inl e \<Rightarrow> Inl (Field e) | Inr v \<Rightarrow> Inr v)"

definition get :: "bytes \<Rightarrow> usize \<Rightarrow> nat \<Rightarrow> relr_error + u64" where
  "get d off n = lift_field (rd d off n)"

definition put :: "bytes \<Rightarrow> usize \<Rightarrow> nat \<Rightarrow> u64 \<Rightarrow> relr_error + bytes" where
  "put d off n v = lift_field (wr d off n v)"

definition span :: "bytes \<Rightarrow> u64 \<Rightarrow> u64 \<Rightarrow> relr_error + bytes" where
  "span d off len = ok_or (checked_add off len \<bind> slice_get d off) (RangeOutside off len)"

text \<open>\<open>d.get(off..)\<close>\<close>

definition tail_get :: "bytes \<Rightarrow> usize \<Rightarrow> bytes option" where
  "tail_get d off = (if unat off \<le> length d then Some (drop (unat off) d) else None)"

section \<open>Parsing\<close>

definition relative_type :: "bytes \<Rightarrow> relr_error + u64" where
  "relative_type d =
     (if length d < EHDR_SIZE \<or> take 4 d \<noteq> [0x7f, 0x45, 0x4c, 0x46] then Inl NotElf
      else let le = (d ! 5 = 1);
               machine = (if le then from_le [d ! 18, d ! 19] else from_be [d ! 18, d ! 19]) :: u16
           in if machine = 62 \<or> machine = 183 then
                (if d ! 4 \<noteq> 2 \<or> \<not> le then Inl NotElf64Le
                 else Inr (if machine = 62 then 8 else 1027))
              else Inl (UnsupportedMachine machine))"

definition check_numbering :: "ehdr \<Rightarrow> relr_error + unit" where
  "check_numbering h =
     (if (e_shnum h = 0 \<and> e_shoff h \<noteq> 0) \<or> e_phnum h = 0xffff \<or> e_shstrndx h = 0xffff
      then Inl ExtendedNumbering else Inr ())"

definition read_phdr :: "bytes \<Rightarrow> usize \<Rightarrow> relr_error + phdr" where
  "read_phdr d at =
     bindE (get d at 4) (\<lambda>pt. bindE (get d (at + 8) 8) (\<lambda>off. bindE (get d (at + 16) 8) (\<lambda>va.
     bindE (get d (at + 32) 8) (\<lambda>fs. bindE (get d (at + 40) 8) (\<lambda>ms. bindE (get d (at + 48) 8) (\<lambda>al.
     Inr \<lparr>ph_at = at, p_type = pt, p_offset = off, p_vaddr = va, p_filesz = fs, p_memsz = ms,
          p_align = al\<rparr>))))))"

definition read_phdrs :: "bytes \<Rightarrow> ehdr \<Rightarrow> relr_error + phdr list" where
  "read_phdrs d h = mapE (\<lambda>i. read_phdr d (e_phoff h + of_nat (i * PHDR_SIZE))) [0..<e_phnum h]"

definition read_shdr :: "bytes \<Rightarrow> usize \<Rightarrow> relr_error + shdr" where
  "read_shdr d at =
     bindE (get d at 4) (\<lambda>nm. bindE (get d (at + 4) 4) (\<lambda>ty. bindE (get d (at + 24) 8) (\<lambda>off.
     bindE (get d (at + 32) 8) (\<lambda>sz.
     Inr \<lparr>sh_at = at, sh_name = nm, sh_type = ty, sh_offset = off, sh_size = sz\<rparr>))))"

definition read_shdrs :: "bytes \<Rightarrow> ehdr \<Rightarrow> relr_error + shdr list" where
  "read_shdrs d h =
     (if e_shnum h = 0 then Inr []
      else mapE (\<lambda>i. read_shdr d (e_shoff h + of_nat (i * SHDR_SIZE))) [0..<e_shnum h])"

definition read_ehdr :: "bytes \<Rightarrow> relr_error + ehdr" where
  "read_ehdr d =
     bindE (get d 16 2) (\<lambda>ty. bindE (get d 24 8) (\<lambda>en. bindE (get d 32 8) (\<lambda>po.
     bindE (get d 40 8) (\<lambda>so. bindE (get d 56 2) (\<lambda>pn. bindE (get d 60 2) (\<lambda>sn.
     bindE (get d 62 2) (\<lambda>si.
     Inr \<lparr>e_type = ty, e_entry = en, e_phoff = po, e_shoff = so, e_phnum = unat pn,
          e_shnum = unat sn, e_shstrndx = unat si\<rparr>)))))))"

definition parse :: "bytes \<Rightarrow> relr_error + elf" where
  "parse d =
     bindE (read_ehdr d) (\<lambda>h.
     bindE (check_numbering h) (\<lambda>_.
     bindE (if 0 < e_phnum h then bindE (get d 54 2) (\<lambda>v.
              if v \<noteq> of_nat PHDR_SIZE then Inl BadPhdrSize else Inr ()) else Inr ()) (\<lambda>_.
     bindE (if 0 < e_shnum h then bindE (get d 58 2) (\<lambda>v.
              if v \<noteq> of_nat SHDR_SIZE then Inl BadShdrSize else Inr ()) else Inr ()) (\<lambda>_.
     bindE (read_phdrs d h) (\<lambda>ps.
     bindE (read_shdrs d h) (\<lambda>ss.
     Inr \<lparr>eh = h, phdrs = ps, shdrs = ss\<rparr>))))))"

text \<open>\<open>xs.get(i)\<close>\<close>

definition nth_opt :: "'a list \<Rightarrow> nat \<Rightarrow> 'a option" where
  "nth_opt xs i = (if i < length xs then Some (xs ! i) else None)"

text \<open>The bytes of the name; the message shows them as text.\<close>

definition sec_name :: "bytes \<Rightarrow> elf \<Rightarrow> nat \<Rightarrow> bytes" where
  "sec_name d e i =
     (case do {
        st \<leftarrow> nth_opt (shdrs e) (e_shstrndx (eh e));
        strs \<leftarrow> ok (span d (sh_offset st) (sh_size st));
        s \<leftarrow> nth_opt (shdrs e) i;
        rest \<leftarrow> tail_get strs (sh_name s);
        n \<leftarrow> position (\<lambda>b. b = 0) rest;
        Some (take n rest)
      } of None \<Rightarrow> [0x3f] | Some n \<Rightarrow> n)"

definition in_load :: "u64 \<Rightarrow> u64 \<Rightarrow> phdr \<Rightarrow> bool" where
  "in_load addr end p \<longleftrightarrow>
     p_type p = PT_LOAD \<and> p_vaddr p \<le> addr \<and> end \<le> sat_add (p_vaddr p) (p_filesz p)"

definition load_range :: "elf \<Rightarrow> u64 \<Rightarrow> u64 \<Rightarrow> (nat \<times> usize) option" where
  "load_range e addr len = do {
     end \<leftarrow> checked_add addr len;
     i \<leftarrow> position (in_load addr end) (phdrs e);
     off \<leftarrow> checked_add (p_offset (phdrs e ! i)) (addr - p_vaddr (phdrs e ! i));
     Some (i, off)
   }"

section \<open>The dynamic array\<close>

text \<open>The loop of \<open>read_dynamic\<close> with \<open>n\<close> slots to go; it stops at the first DT_NULL.\<close>

fun read_tags :: "bytes \<Rightarrow> usize \<Rightarrow> nat \<Rightarrow> relr_error + (u64 \<times> u64) list" where
  "read_tags d at 0 = Inr []"
| "read_tags d at (Suc n) =
     bindE (get d at 8) (\<lambda>tg.
       if tg = DT_NULL then Inr []
       else bindE (get d (at + 8) 8) (\<lambda>v.
            bindE (read_tags d (at + of_nat DYN_SIZE) n) (\<lambda>ts. Inr ((tg, v) # ts))))"

definition read_dynamic :: "bytes \<Rightarrow> elf \<Rightarrow> relr_error + dynamic" where
  "read_dynamic d e =
     bindE (ok_or (find (\<lambda>p. p_type p = PT_DYNAMIC) (phdrs e)) NoDynamic) (\<lambda>ph.
     let slots = unat (p_filesz ph) div DYN_SIZE in
     bindE (read_tags d (p_offset ph) slots) (\<lambda>ts.
     Inr \<lparr>dy_off = p_offset ph, dy_addr = p_vaddr ph, dy_slots = slots, dy_tags = ts\<rparr>))"

definition tag :: "dynamic \<Rightarrow> u64 \<Rightarrow> u64 option" where
  "tag dy t = map_of (dy_tags dy) t"

section \<open>Version needs\<close>

definition cstr :: "bytes \<Rightarrow> usize \<Rightarrow> bytes option" where
  "cstr d off = do {
     rest \<leftarrow> tail_get d off;
     n \<leftarrow> position (\<lambda>b. b = 0) (take MAX_NAME rest);
     Some (take n rest)
   }"

definition cstr_is :: "bytes \<Rightarrow> usize \<Rightarrow> bytes \<Rightarrow> bool" where
  "cstr_is d off s =
     (case do {
        e \<leftarrow> checked_add off (of_nat (length s));
        e' \<leftarrow> checked_add e 1;
        slice_get d off e'
      } of None \<Rightarrow> False
      | Some b \<Rightarrow> take (length s) b = s \<and> b ! length s = 0)"

definition glibc_needed :: "bytes \<Rightarrow> dynamic \<Rightarrow> usize \<Rightarrow> bytes option" where
  "glibc_needed d dy str_off =
     find_map (\<lambda>(k, v). do {
        off \<leftarrow> checked_add str_off v;
        name \<leftarrow> cstr d off;
        if take (length GLIBC_SONAME) name = GLIBC_SONAME then Some name else None
      }) (filter (\<lambda>(k, v). k = DT_NEEDED) (dy_tags dy))"

definition add :: "usize \<Rightarrow> usize \<Rightarrow> relr_error + usize" where
  "add base off = ok_or (checked_add base off) VersionOverflow"

definition spend :: "nat \<Rightarrow> relr_error + nat" where
  "spend budget = (if budget = 0 then Inl TooManyVersions else Inr (budget - 1))"

text \<open>The inner loop of \<open>needs_version\<close> over the Vernaux chain at \<open>aux\<close> with \<open>cnt\<close> entries to go:
  \<open>None\<close> when the version is found, else the budget left.\<close>

fun walk_aux :: "bytes \<Rightarrow> usize \<Rightarrow> bytes \<Rightarrow> nat \<Rightarrow> usize \<Rightarrow> nat \<Rightarrow> relr_error + nat option" where
  "walk_aux d str_off version 0 aux budget = Inr (Some budget)"
| "walk_aux d str_off version (Suc cnt) aux budget =
     bindE (spend budget) (\<lambda>budget.
     bindE (bindE (add aux 8) (\<lambda>o8. get d o8 4)) (\<lambda>name.
     bindE (add str_off name) (\<lambda>so.
     if cstr_is d so version then Inr None
     else bindE (bindE (add aux 12) (\<lambda>o12. get d o12 4)) (\<lambda>nxt.
          if nxt = 0 then Inr (Some budget)
          else bindE (add aux nxt) (\<lambda>aux. walk_aux d str_off version cnt aux budget)))))"

text \<open>The outer loop over the Verneed chain.\<close>

fun walk_need :: "bytes \<Rightarrow> usize \<Rightarrow> bytes \<Rightarrow> nat \<Rightarrow> usize \<Rightarrow> nat \<Rightarrow> relr_error + bool" where
  "walk_need d str_off version 0 at budget = Inr False"
| "walk_need d str_off version (Suc count) at budget =
     bindE (spend budget) (\<lambda>budget.
     bindE (bindE (add at 2) (\<lambda>o2. get d o2 2)) (\<lambda>cnt.
     bindE (bindE (add at 8) (\<lambda>o8. get d o8 4)) (\<lambda>first.
     bindE (add at first) (\<lambda>aux.
     bindE (walk_aux d str_off version (unat cnt) aux budget) (\<lambda>r.
     case r of None \<Rightarrow> Inr True
     | Some budget \<Rightarrow>
         bindE (bindE (add at 12) (\<lambda>o12. get d o12 4)) (\<lambda>nxt.
         if nxt = 0 then Inr False
         else bindE (add at nxt) (\<lambda>at. walk_need d str_off version count at budget)))))))"

definition needs_version :: "bytes \<Rightarrow> elf \<Rightarrow> dynamic \<Rightarrow> usize \<Rightarrow> bytes \<Rightarrow> relr_error + bool" where
  "needs_version d e dy str_off version =
     bindE (ok_or (tag dy DT_VERNEED) NoVerneed) (\<lambda>addr.
     let count = (case tag dy DT_VERNEEDNUM of None \<Rightarrow> 0 | Some n \<Rightarrow> n) in
     bindE (ok_or (load_range e addr (of_nat VERNEED_SIZE)) VerneedOutside) (\<lambda>(_, at).
     walk_need d str_off version (unat count) at MAX_VERSIONS))"

definition check_glibc :: "bytes \<Rightarrow> elf \<Rightarrow> dynamic \<Rightarrow> relr_error + unit" where
  "check_glibc d e dy =
     (if tag dy DT_VERNEED = None then Inr ()
      else bindE (ok_or (tag dy DT_STRTAB) VerneedWithoutStrtab) (\<lambda>strtab.
           bindE (ok_or (load_range e strtab 1) StrtabOutside) (\<lambda>(_, str_off).
           case glibc_needed d dy str_off of
             None \<Rightarrow> Inr ()
           | Some lib \<Rightarrow>
               bindE (needs_version d e dy str_off GLIBC_RELR_VERSION) (\<lambda>found.
               if found then Inr () else Inl (LinkedAgainstGlibc lib)))))"

section \<open>The relocation table\<close>

definition jmprel_overlaps :: "dynamic \<Rightarrow> u64 \<Rightarrow> u64 \<Rightarrow> bool" where
  "jmprel_overlaps dy addr sz =
     (case (tag dy DT_JMPREL, tag dy DT_PLTRELSZ) of
        (Some j, Some n) \<Rightarrow> 0 < n \<and> j < sat_add addr sz \<and> addr < sat_add j n
      | _ \<Rightarrow> False)"

definition rela_section :: "bytes \<Rightarrow> elf \<Rightarrow> u64 \<Rightarrow> usize \<Rightarrow> usize \<Rightarrow> relr_error + nat option" where
  "rela_section d e addr off sz =
     (if shdrs e = [] then Inr None
      else bindE (ok_or (position (\<lambda>s. sh_type s = SHT_RELA \<and> sh_offset s = off \<and> sh_size s = sz
                                    \<and> get d (sh_at s + 16) 8 = Inr addr) (shdrs e)) NoRelaSection)
             (\<lambda>i. Inr (Some i)))"

definition rela_table :: "bytes \<Rightarrow> elf \<Rightarrow> dynamic \<Rightarrow> relr_error + rela_tab" where
  "rela_table d e dy =
     (if tag dy DT_RELR \<noteq> None then Inl HasRelr
      else if tag dy DT_REL \<noteq> None then Inl HasRel
      else bindE (ok_or (tag dy DT_RELA) NoRela) (\<lambda>addr.
        let sz = (case tag dy DT_RELASZ of None \<Rightarrow> 0 | Some s \<Rightarrow> s) in
        if tag dy DT_RELAENT \<noteq> Some (of_nat RELA_SIZE) then Inl BadRelaEnt
        else if sz = 0 \<or> sz mod of_nat RELA_SIZE \<noteq> 0 \<or> addr mod 8 \<noteq> 0 then Inl MalformedRela
        else if jmprel_overlaps dy addr sz then Inl JmprelInside
        else bindE (ok_or (load_range e addr sz) RelaOutside) (\<lambda>(seg, off).
             if off mod 8 \<noteq> 0 then Inl RelaUnaligned
             else bindE (rela_section d e addr off sz) (\<lambda>sec.
                  Inr \<lparr>t_off = off, t_addr = addr, t_size = sz, t_seg = seg, t_sec = sec\<rparr>))))"

end
