(* ===== verification/Relr.thy ===== *)
theory Relr
  imports Relr_Elf Callgraph
begin

text \<open>
  \<open>src/format/elf/relr.rs\<close>, second half: which relocations are packed, the RELR code, the new
  \<open>.dynamic\<close> entries, the drain of the freed pages and the rewriting of the file, up to
  \<open>pack_relative\<close>. A function that mutates the buffer returns the new one.
\<close>

section \<open>Splitting the relocations\<close>

record packed_rel =
  pk_addr :: u64
  pk_addend :: u64
  pk_off :: usize

record split_rels =
  packed :: "packed_rel list"
  keep :: bytes
  lead :: u64

definition packable :: "elf \<Rightarrow> u64 \<Rightarrow> u64 \<Rightarrow> u64 \<Rightarrow> usize option" where
  "packable e r_off info rel =
     (if info AND 0xffffffff \<noteq> rel \<or> drop_bit 32 info \<noteq> 0 \<or> r_off mod 8 \<noteq> 0 then None
      else map_option snd (load_range e r_off 8))"

text \<open>One round of \<open>split_relocs\<close>: the entry \<open>i\<close>, with the flag \<open>leading\<close>.\<close>

definition split_entry ::
  "bytes \<Rightarrow> elf \<Rightarrow> usize \<Rightarrow> u64 \<Rightarrow> nat \<Rightarrow> split_rels \<times> bool \<Rightarrow> relr_error + split_rels \<times> bool" where
  "split_entry d e off rel i = (\<lambda>(sp, leading).
     bindE (span d (off + of_nat (i * RELA_SIZE)) (of_nat RELA_SIZE)) (\<lambda>rw.
     bindE (get rw 0 8) (\<lambda>r_off.
     bindE (get rw 8 8) (\<lambda>info.
     case packable e r_off info rel of
       Some file_off \<Rightarrow>
         bindE (get rw 16 8) (\<lambda>addend.
         Inr (sp\<lparr>packed := packed sp @ [\<lparr>pk_addr = r_off, pk_addend = addend, pk_off = file_off\<rparr>]\<rparr>,
              leading))
     | None \<Rightarrow>
         let leading' = (leading \<and> info AND 0xffffffff = rel) in
         Inr (sp\<lparr>keep := keep sp @ rw, lead := lead sp + (if leading' then 1 else 0)\<rparr>, leading')))))"

definition split_relocs :: "bytes \<Rightarrow> elf \<Rightarrow> rela_tab \<Rightarrow> u64 \<Rightarrow> relr_error + split_rels" where
  "split_relocs d e t rel =
     bindE (foldE (split_entry d e (t_off t) rel) [0..<unat (t_size t) div RELA_SIZE]
              (\<lparr>packed = [], keep = [], lead = 0\<rparr>, True)) (\<lambda>(sp, _).
     if packed sp = [] then Inl NothingToPack else Inr sp)"

text \<open>\<open>dedup_by_key\<close> on the address.\<close>

fun dedup_addr :: "packed_rel list \<Rightarrow> packed_rel list" where
  "dedup_addr [] = []"
| "dedup_addr [p] = [p]"
| "dedup_addr (p # q # ps) =
     (if pk_addr q = pk_addr p then dedup_addr (p # ps) else p # dedup_addr (q # ps))"

text \<open>\<open>packed.windows(2)\<close>\<close>

definition windows2 :: "'a list \<Rightarrow> ('a \<times> 'a) list" where
  "windows2 xs = zip xs (tl xs)"

definition sorted_offsets :: "packed_rel list \<Rightarrow> relr_error + (packed_rel list \<times> u64 list)" where
  "sorted_offsets ps =
     (let ps' = sort_key pk_addr ps in
      if list_ex (\<lambda>(p, q). pk_addr p = pk_addr q \<and> pk_addend p \<noteq> pk_addend q) (windows2 ps')
      then Inl WordDisagrees
      else let u = dedup_addr ps' in Inr (u, map pk_addr u))"

definition overlaps :: "u64 list \<Rightarrow> u64 \<Rightarrow> u64 \<Rightarrow> bool" where
  "overlaps offsets lo len =
     (let i = partition_point (\<lambda>a. sat_add a 8 \<le> lo) offsets
      in i < length offsets \<and> offsets ! i < sat_add lo len)"

text \<open>\<open>raw.chunks(n)\<close>, for a chunk size that is not zero\<close>

function chunks :: "nat \<Rightarrow> 'a list \<Rightarrow> 'a list list" where
  "chunks n xs = (if xs = [] \<or> n = 0 then [] else take n xs # chunks n (drop n xs))"
  by pat_completeness auto
termination by (relation "measure (\<lambda>(n, xs). length xs)") auto

declare chunks.simps [simp del]

definition rela_offsets :: "bytes \<Rightarrow> nat \<Rightarrow> relr_error + u64 list" where
  "rela_offsets rw entsize = mapE (\<lambda>e. get e 0 8) (chunks entsize rw)"

definition jmprel_offsets :: "bytes \<Rightarrow> elf \<Rightarrow> dynamic \<Rightarrow> relr_error + u64 list" where
  "jmprel_offsets d e dy =
     (case (tag dy DT_JMPREL, tag dy DT_PLTRELSZ) of
        (Some addr, Some sz) \<Rightarrow>
          (if 0 < sz then
             let entsize = (if tag dy DT_PLTREL = Some DT_RELA then RELA_SIZE else REL_SIZE) in
             bindE (ok_or (load_range e addr sz) JmprelOutside) (\<lambda>(_, off).
             bindE (span d off sz) (\<lambda>rw. rela_offsets rw entsize))
           else Inr [])
      | _ \<Rightarrow> Inr [])"

definition check_targets ::
  "bytes \<Rightarrow> elf \<Rightarrow> dynamic \<Rightarrow> rela_tab \<Rightarrow> bytes \<Rightarrow> u64 list \<Rightarrow> relr_error + unit" where
  "check_targets d e dy t kept offsets =
     bindE (rela_offsets kept RELA_SIZE) (\<lambda>others.
     bindE (jmprel_offsets d e dy) (\<lambda>plt.
     if list_ex (\<lambda>r. overlaps offsets r 8) (others @ plt) then Inl WordPatchedTwice
     else if overlaps offsets (t_addr t) (t_size t)
             \<or> overlaps offsets (dy_addr dy) (of_nat (dy_slots dy * DYN_SIZE))
          then Inl WordInTables else Inr ()))"

section \<open>The code\<close>

text \<open>The innermost loop of \<open>encode_relr\<close>: the words that fall under the bitmap at \<open>base\<close>.\<close>

fun fill_bitmap :: "u64 \<Rightarrow> u64 list \<Rightarrow> u64 \<Rightarrow> u64 \<times> u64 list" where
  "fill_bitmap base [] bitmap = (bitmap, [])"
| "fill_bitmap base (a # offsets) bitmap =
     (if base \<le> a \<and> a - base < 63 * 8
      then fill_bitmap base offsets (bitmap OR push_bit (unat ((a - base) div 8)) 1)
      else (bitmap, a # offsets))"

lemma fill_bitmap_shrinks:
  "fill_bitmap base offsets bm = (bm', rest) \<Longrightarrow>
     length rest \<le> length offsets \<and> (bm' \<noteq> bm \<longrightarrow> length rest < length offsets)"
  by (induction base offsets bm rule: fill_bitmap.induct) (force split: if_splits)+

text \<open>The bitmap words that follow an address word.\<close>

function bitmap_words :: "u64 \<Rightarrow> u64 list \<Rightarrow> u64 list \<times> u64 list" where
  "bitmap_words base offsets =
     (case fill_bitmap base offsets 0 of (bitmap, rest) \<Rightarrow>
        if bitmap = 0 then ([], rest)
        else case bitmap_words (base + 63 * 8) rest of (ws, rest') \<Rightarrow>
               ((push_bit 1 bitmap OR 1) # ws, rest'))"
  by pat_completeness auto
termination
  by (relation "measure (\<lambda>(base, offsets). length offsets)")
    (auto dest: fill_bitmap_shrinks [OF sym])

declare bitmap_words.simps [simp del]

lemma bitmap_words_shrinks: "length (snd (bitmap_words base offsets)) \<le> length offsets"
proof (induction base offsets rule: bitmap_words.induct)
  case (1 base offsets)
  obtain bm rest where f: "fill_bitmap base offsets 0 = (bm, rest)" by fastforce
  have "length rest \<le> length offsets" using fill_bitmap_shrinks [OF f] by simp
  then show ?case
    using 1 f by (subst bitmap_words.simps) (auto split: prod.split dest: le_trans)
qed

lemma bitmap_words_rest: "(ws, rest) = bitmap_words base offsets \<Longrightarrow> length rest \<le> length offsets"
  using bitmap_words_shrinks [of base offsets] by (auto dest: sym)

function encode_relr :: "u64 list \<Rightarrow> u64 list" where
  "encode_relr [] = []"
| "encode_relr (a # offsets) =
     (case bitmap_words (a + 8) offsets of (ws, rest) \<Rightarrow> a # ws @ encode_relr rest)"
  by pat_completeness auto
termination
  by (relation "measure length") (auto simp: less_Suc_eq_le dest: bitmap_words_rest)

fun decode_from :: "u64 \<Rightarrow> u64 list \<Rightarrow> u64 list" where
  "decode_from nxt [] = []"
| "decode_from nxt (w # ws) =
     (if w AND 1 = 0 then w # decode_from (w + 8) ws
      else map (\<lambda>i. nxt + of_nat i * 8) (filter (\<lambda>i. drop_bit (i + 1) w AND 1 = 1) [0..<63])
           @ decode_from (nxt + 63 * 8) ws)"

definition decode_relr :: "u64 list \<Rightarrow> u64 list" where
  "decode_relr words = decode_from 0 words"

section \<open>Planning\<close>

definition new_tag :: "u64 \<Rightarrow> u64 \<Rightarrow> u64 \<times> u64 \<Rightarrow> (u64 \<times> u64) list" where
  "new_tag kept ld = (\<lambda>(k, v).
     if k \<in> {DT_RELA, DT_RELASZ, DT_RELAENT, DT_RELACOUNT} \<and> kept = 0 then []
     else if k = DT_RELASZ then [(k, kept)]
     else if k = DT_RELACOUNT then [(k, ld)]
     else [(k, v)])"

definition new_tags :: "dynamic \<Rightarrow> rela_tab \<Rightarrow> split_rels \<Rightarrow> nat \<Rightarrow> relr_error + (u64 \<times> u64) list" where
  "new_tags dy t sp words =
     (let kept = of_nat (length (keep sp));
          tags = concat (map (new_tag kept (lead sp)) (dy_tags dy))
                 @ [(DT_RELR, t_addr t + kept), (DT_RELRSZ, of_nat words * 8), (DT_RELRENT, 8)]
      in if dy_slots dy < length tags + 1 then Inl (DynamicFull (length tags) (dy_slots dy))
         else Inr tags)"

text \<open>\<open>.fold(init, u64::max)\<close> and \<open>.fold(init, u64::min)\<close>\<close>

definition fold_max :: "u64 \<Rightarrow> u64 list \<Rightarrow> u64" where
  "fold_max init xs = fold max xs init"

definition fold_min :: "u64 \<Rightarrow> u64 list \<Rightarrow> u64" where
  "fold_min init xs = fold min xs init"

abbreviation phdrs_len :: "elf \<Rightarrow> u64" where
  "phdrs_len e \<equiv> of_nat (e_phnum (eh e) * PHDR_SIZE)"

abbreviation shdrs_len :: "elf \<Rightarrow> u64" where
  "shdrs_len e \<equiv> of_nat (e_shnum (eh e) * SHDR_SIZE)"

definition content_end :: "elf \<Rightarrow> u64" where
  "content_end e =
     fold_max (of_nat EHDR_SIZE)
       (map (\<lambda>s. sat_add (sh_offset s) (sh_size s)) (filter (\<lambda>s. sh_type s \<noteq> SHT_NOBITS) (shdrs e))
        @ map (\<lambda>p. sat_add (p_offset p) (p_filesz p)) (phdrs e)
        @ [sat_add (e_phoff (eh e)) (phdrs_len e), sat_add (e_shoff (eh e)) (shdrs_len e)])"

text \<open>\<open>min_by_key\<close> returns the first of the least elements.\<close>

fun min_by :: "('a \<Rightarrow> u64) \<Rightarrow> 'a list \<Rightarrow> 'a option" where
  "min_by f [] = None"
| "min_by f (x # xs) =
     (case min_by f xs of None \<Rightarrow> Some x | Some y \<Rightarrow> Some (if f x \<le> f y then x else y))"

definition follower :: "bytes \<Rightarrow> elf \<Rightarrow> rela_tab \<Rightarrow> u64 \<Rightarrow> bytes option" where
  "follower d e t old_end = do {
     seg \<leftarrow> nth_opt (phdrs e) (t_seg t);
     let seg_end = sat_add (p_offset seg) (p_filesz seg);
     r \<leftarrow> min_by (\<lambda>(i, s). sh_offset s)
            (filter (\<lambda>(i, s). 0 < sh_size s \<and> old_end \<le> sh_offset s \<and> sh_offset s < seg_end)
              (zip [0..<length (shdrs e)] (shdrs e)));
     Some (sec_name d e (fst r))
   }"

definition next_content :: "elf \<Rightarrow> u64 \<Rightarrow> u64 \<Rightarrow> u64" where
  "next_content e from file_len =
     fold_min file_len (filter (\<lambda>off. from \<le> off)
       (map sh_offset (filter (\<lambda>s. sh_type s \<noteq> SHT_NOBITS \<and> 0 < sh_size s) (shdrs e))
        @ map p_offset (filter (\<lambda>p. 0 < p_filesz p) (phdrs e))
        @ (if 0 < e_shnum (eh e) then [e_shoff (eh e)] else [])
        @ (if 0 < e_phnum (eh e) then [e_phoff (eh e)] else [])))"

definition hit :: "u64 \<Rightarrow> u64 \<Rightarrow> u64 \<Rightarrow> u64 \<Rightarrow> bool" where
  "hit lo hi off len \<longleftrightarrow> 0 < len \<and> off < hi \<and> lo < sat_add off len"

definition straddler :: "bytes \<Rightarrow> elf \<Rightarrow> rela_tab \<Rightarrow> u64 \<Rightarrow> u64 \<Rightarrow> relr_error option" where
  "straddler d e t lo hi =
     (case find (\<lambda>i. Some i \<noteq> t_sec t \<and> sh_type (shdrs e ! i) \<noteq> SHT_NOBITS
                   \<and> hit lo hi (sh_offset (shdrs e ! i)) (sh_size (shdrs e ! i))) [0..<length (shdrs e)] of
        Some i \<Rightarrow> Some (SectionInRange (sec_name d e i))
      | None \<Rightarrow>
     (case find (\<lambda>i. i \<noteq> t_seg t \<and> hit lo hi (p_offset (phdrs e ! i)) (p_filesz (phdrs e ! i)))
             [0..<length (phdrs e)] of
        Some i \<Rightarrow> Some (SegmentInRange i (p_type (phdrs e ! i)))
      | None \<Rightarrow>
          if hit lo hi (e_phoff (eh e)) (phdrs_len e) then Some PhdrsInRange
          else if hit lo hi (e_shoff (eh e)) (shdrs_len e) then Some ShdrsInRange
          else None))"

definition shift_align :: "elf \<Rightarrow> u64 \<Rightarrow> u64" where
  "shift_align e from =
     fold_max 0x1000 (map p_align (filter (\<lambda>p. 0 < p_filesz p \<and> from \<le> p_offset p) (phdrs e)))"

record drain =
  cut :: u64
  dlen :: u64
  dseg :: nat
  new_end :: u64

definition plan_drain :: "bytes \<Rightarrow> elf \<Rightarrow> rela_tab \<Rightarrow> u64 \<Rightarrow> relr_error + drain" where
  "plan_drain d e t end' =
     bindE (ok_or (nth_opt (phdrs e) (t_seg t)) SegmentVanished) (\<lambda>seg.
     let old_end = t_off t + t_size t in
     if sat_add (p_offset seg) (p_filesz seg) \<noteq> old_end then
       Inl (case follower d e t old_end of Some n \<Rightarrow> FollowedBy n | None \<Rightarrow> SegmentContinues)
     else if p_memsz seg \<noteq> p_filesz seg then Inl ZeroFilledTail
     else if content_end e < data_len d then Inl (Overlay (data_len d - content_end e))
     else
       let nxt = next_content e old_end (data_len d) in
       case straddler d e t end' nxt of
         Some why \<Rightarrow> Inl why
       | None \<Rightarrow>
           let al = shift_align e nxt;
               len = (nxt - end') div al * al
           in if len = 0 then Inl (NoFreePage al)
              else Inr \<lparr>cut = nxt - len, dlen = len, dseg = t_seg t, new_end = end'\<rparr>)"

section \<open>Rewriting\<close>

definition write_addend :: "packed_rel \<Rightarrow> bytes \<times> nat \<Rightarrow> relr_error + bytes \<times> nat" where
  "write_addend p = (\<lambda>(out, changed).
     bindE (get out (pk_off p) 8) (\<lambda>v.
     if v \<noteq> pk_addend p
     then bindE (put out (pk_off p) 8 (pk_addend p)) (\<lambda>out'. Inr (out', changed + 1))
     else Inr (out, changed)))"

definition write_addends :: "bytes \<Rightarrow> packed_rel list \<Rightarrow> relr_error + bytes \<times> nat" where
  "write_addends out ps = foldE write_addend ps (out, 0)"

definition write_words :: "usize \<Rightarrow> u64 list \<Rightarrow> bytes \<Rightarrow> relr_error + bytes" where
  "write_words off words out =
     foldE (\<lambda>i out. put out (off + of_nat (i * 8)) 8 (words ! i)) [0..<length words] out"

definition write_tables :: "bytes \<Rightarrow> rela_tab \<Rightarrow> bytes \<Rightarrow> u64 list \<Rightarrow> relr_error + bytes \<times> u64" where
  "write_tables out t kept words =
     (let relr_off = t_off t + of_nat (length kept);
          end' = relr_off + of_nat (length words) * 8;
          old_end = t_off t + t_size t
      in if old_end < end' then Inl TablesDoNotFit
         else bindE (ok_or (slice_get out (t_off t) relr_off) TableOutside) (\<lambda>_.
              bindE (write_words relr_off words (splice_at out (unat (t_off t)) kept)) (\<lambda>out.
              bindE (ok_or (slice_get out end' old_end) TableOutside) (\<lambda>b.
              Inr (splice_at out (unat end') (replicate (length b) 0), end')))))"

definition write_dynamic :: "bytes \<Rightarrow> dynamic \<Rightarrow> (u64 \<times> u64) list \<Rightarrow> relr_error + bytes" where
  "write_dynamic out dy tags =
     foldE (\<lambda>i out.
        let kv = (if i < length tags then tags ! i else (DT_NULL, 0)) in
        bindE (put out (dy_off dy + of_nat (i * DYN_SIZE)) 8 (fst kv)) (\<lambda>out.
        put out (dy_off dy + of_nat (i * DYN_SIZE) + 8) 8 (snd kv)))
       [0..<dy_slots dy] out"

text \<open>The zero-terminated names \<open>.rela.dyn\<close> and \<open>.relr.dyn\<close>\<close>

definition RELA_NAME :: bytes where
  "RELA_NAME = [0x2e, 0x72, 0x65, 0x6c, 0x61, 0x2e, 0x64, 0x79, 0x6e, 0]"

definition RELR_NAME :: bytes where
  "RELR_NAME = [0x2e, 0x72, 0x65, 0x6c, 0x72, 0x2e, 0x64, 0x79, 0x6e, 0]"

fun find_string :: "bytes \<Rightarrow> bytes \<Rightarrow> nat option" where
  "find_string [] needle = None"
| "find_string (b # strs) needle =
     (if take (length needle) (b # strs) = needle then Some 0
      else map_option Suc (find_string strs needle))"

definition name_shared :: "bytes \<Rightarrow> elf \<Rightarrow> nat \<Rightarrow> usize \<Rightarrow> bool" where
  "name_shared strs e sec name =
     (let end = unat name + length RELA_NAME in
      list_ex (\<lambda>j. j \<noteq> sec \<and>
        (let start = sh_name (shdrs e ! j);
             len = (case tail_get strs start of None \<Rightarrow> 0
                    | Some r \<Rightarrow> (case position (\<lambda>b. b = 0) r of None \<Rightarrow> 0 | Some n \<Rightarrow> n))
         in unat start < end \<and> unat name \<le> unat start + len)) [0..<length (shdrs e)])"

definition rename_header :: "bytes \<Rightarrow> elf \<Rightarrow> nat \<Rightarrow> relr_error + bytes \<times> bool" where
  "rename_header out e sec =
     (case nth_opt (shdrs e) (e_shstrndx (eh e)) of
        None \<Rightarrow> Inr (out, False)
      | Some st \<Rightarrow>
          bindE (span out (sh_offset st) (sh_size st)) (\<lambda>strs.
          bindE (ok_or (nth_opt (shdrs e) sec) SectionVanished) (\<lambda>s.
          case find_string strs RELR_NAME of
            Some p \<Rightarrow> bindE (put out (sh_at s) 4 (of_nat p)) (\<lambda>out. Inr (out, True))
          | None \<Rightarrow>
              let name = sh_name s in
              if slice_get strs name (name + of_nat (length RELA_NAME)) \<noteq> Some RELA_NAME
              then Inr (out, False)
              else if name_shared strs e sec name then Inr (out, False)
              else let base = sh_offset st + name in
                   bindE (ok_or (slice_get out base (base + of_nat (length RELR_NAME))) NameOutside) (\<lambda>_.
                   Inr (splice_at out (unat base) RELR_NAME, True)))))"

datatype header_note =
  NoSectionHeaders | Pending | NowRelr | NowRelrNameKept | HeaderAppended | NoRelrHeader relr_error

definition put_fields :: "usize \<Rightarrow> (nat \<times> nat \<times> u64) list \<Rightarrow> bytes \<Rightarrow> relr_error + bytes" where
  "put_fields at fs out = foldE (\<lambda>(off, w, v) out. put out (at + of_nat off) w v) fs out"

definition update_rela_header ::
  "bytes \<Rightarrow> elf \<Rightarrow> rela_tab \<Rightarrow> split_rels \<Rightarrow> u64 \<Rightarrow> relr_error + bytes \<times> header_note" where
  "update_rela_header out e t sp relr_size =
     (case (case t_sec t of None \<Rightarrow> None | Some i \<Rightarrow> map_option (Pair i) (nth_opt (shdrs e) i)) of
        None \<Rightarrow> Inr (out, NoSectionHeaders)
      | Some (i, s) \<Rightarrow>
          if keep sp \<noteq> [] then
            bindE (put out (sh_at s + 32) 8 (of_nat (length (keep sp)))) (\<lambda>out. Inr (out, Pending))
          else
            bindE (get out (sh_at s + 8) 8) (\<lambda>fl.
            bindE (put_fields (sh_at s)
                    [(4, 4, SHT_RELR), (8, 8, (fl AND NOT SHF_INFO_LINK) OR SHF_ALLOC),
                     (32, 8, relr_size), (40, 4, 0), (44, 4, 0), (48, 8, 8), (56, 8, 8)] out) (\<lambda>out.
            bindE (rename_header out e i) (\<lambda>(out, renamed).
            Inr (out, if renamed then NowRelr else NowRelrNameKept)))))"

definition drain_phdr :: "drain \<Rightarrow> nat \<times> phdr \<Rightarrow> bytes \<Rightarrow> relr_error + bytes" where
  "drain_phdr dr = (\<lambda>(i, p) out.
     if i = dseg dr then
       bindE (put out (ph_at p + 32) 8 (new_end dr - p_offset p)) (\<lambda>out.
       put out (ph_at p + 40) 8 (new_end dr - p_offset p))
     else if cut dr + dlen dr \<le> p_offset p then put out (ph_at p + 8) 8 (p_offset p - dlen dr)
     else Inr out)"

definition drain_shdr :: "drain \<Rightarrow> shdr \<Rightarrow> bytes \<Rightarrow> relr_error + bytes" where
  "drain_shdr dr s out =
     (if cut dr + dlen dr \<le> sh_offset s then put out (sh_at s + 24) 8 (sh_offset s - dlen dr)
      else Inr out)"

definition apply_drain :: "bytes \<Rightarrow> elf \<Rightarrow> drain \<Rightarrow> relr_error + bytes" where
  "apply_drain out e dr =
     (let nxt = cut dr + dlen dr in
      bindE (foldE (drain_phdr dr) (zip [0..<length (phdrs e)] (phdrs e)) out) (\<lambda>out.
      bindE (foldE (drain_shdr dr) (shdrs e) out) (\<lambda>out.
      bindE (if 0 < e_shnum (eh e) \<and> nxt \<le> e_shoff (eh e)
             then put out 40 8 (e_shoff (eh e) - dlen dr) else Inr out) (\<lambda>out.
      bindE (if nxt \<le> e_phoff (eh e) then put out 32 8 (e_phoff (eh e) - dlen dr) else Inr out) (\<lambda>out.
      if data_len out < nxt then Inl DrainPastEnd
      else Inr (take (unat (cut dr)) out @ drop (unat nxt) out))))))"

definition place_name :: "bytes \<Rightarrow> shdr \<Rightarrow> bytes \<Rightarrow> bytes \<times> u64 \<times> u64 \<times> u64" where
  "place_name out st strs =
     (case find_string strs RELR_NAME of
        Some p \<Rightarrow> (out, of_nat p, sh_offset st, sh_size st)
      | None \<Rightarrow>
          let end = sh_offset st + of_nat (length strs);
              grown = of_nat (length strs + length RELR_NAME);
              tail_free = (case tail_get out end of None \<Rightarrow> False | Some r \<Rightarrow> list_all (\<lambda>b. b = 0) r)
          in if tail_free
             then (take (unat end) out @ RELR_NAME, of_nat (length strs), sh_offset st, grown)
             else (out @ strs @ RELR_NAME, of_nat (length strs), of_nat (length out), grown))"

text \<open>\<open>out.resize(out.len().next_multiple_of(8), 0)\<close>\<close>

definition pad8 :: "bytes \<Rightarrow> bytes" where
  "pad8 out = out @ replicate ((8 - length out mod 8) mod 8) 0"

definition append_header :: "bytes \<Rightarrow> u64 \<Rightarrow> u64 \<Rightarrow> u64 \<Rightarrow> relr_error + bytes" where
  "append_header out addr off sz =
     bindE (parse out) (\<lambda>e.
     let n = length (shdrs e) in
     if n = 0 \<or> 0xff00 \<le> n + 1 then Inl CountCannotGrow
     else
       bindE (span out (e_shoff (eh e)) (of_nat (n * SHDR_SIZE))) (\<lambda>tab.
       if e_shoff (eh e) + of_nat (length tab) \<noteq> data_len out then Inl ShdrsNotLast
       else
         bindE (ok_or (nth_opt (shdrs e) (e_shstrndx (eh e))) NoNameTable) (\<lambda>st.
         bindE (span out (sh_offset st) (sh_size st)) (\<lambda>strs.
         case place_name (take (unat (e_shoff (eh e))) out) st strs of (out1, name, st_off, st_size) \<Rightarrow>
           let out2 = pad8 out1;
               new_shoff = data_len out2;
               out3 = out2 @ tab @ replicate SHDR_SIZE 0;
               st_at = new_shoff + of_nat (e_shstrndx (eh e) * SHDR_SIZE);
               at = new_shoff + of_nat (n * SHDR_SIZE)
           in bindE (put_fields st_at [(24, 8, st_off), (32, 8, st_size)] out3) (\<lambda>out4.
              bindE (put_fields at
                      [(0, 4, name), (4, 4, SHT_RELR), (8, 8, SHF_ALLOC), (16, 8, addr), (24, 8, off),
                       (32, 8, sz), (48, 8, 8), (56, 8, 8)] out4) (\<lambda>out5.
              bindE (put out5 40 8 new_shoff) (\<lambda>out6.
              put out6 60 2 (of_nat (n + 1)))))))))"

record relr_report =
  rp_packed :: nat
  rp_kept :: nat
  rp_words :: nat
  rp_addends :: nat
  rp_rela_before :: usize
  rp_rela_after :: nat
  rp_freed :: u64
  rp_kept_why :: "relr_error option"
  rp_header :: header_note

text \<open>The in-place part of \<open>rewrite\<close>: addends, tables, \<open>.dynamic\<close> and the header of the old
  table; then the drain; then the new section header. A failed \<open>append_header\<close> has already
  truncated the buffer in the source only after its last check, so the buffer is as it was.\<close>

definition rewrite_in_place ::
  "bytes \<Rightarrow> elf \<Rightarrow> dynamic \<Rightarrow> rela_tab \<Rightarrow> split_rels \<Rightarrow> u64 list \<Rightarrow> (u64 \<times> u64) list \<Rightarrow>
    relr_error + bytes \<times> nat \<times> u64 \<times> header_note" where
  "rewrite_in_place d e dy t sp words tags =
     bindE (write_addends d (packed sp)) (\<lambda>(out, addends).
     bindE (write_tables out t (keep sp) words) (\<lambda>(out, end').
     bindE (write_dynamic out dy tags) (\<lambda>out.
     bindE (update_rela_header out e t sp (of_nat (length words) * 8)) (\<lambda>(out, header).
     Inr (out, addends, end', header)))))"

definition rewrite ::
  "bytes \<Rightarrow> elf \<Rightarrow> dynamic \<Rightarrow> rela_tab \<Rightarrow> split_rels \<Rightarrow> u64 list \<Rightarrow> (u64 \<times> u64) list \<Rightarrow>
    relr_error + bytes \<times> relr_report" where
  "rewrite d e dy t sp words tags =
     bindE (rewrite_in_place d e dy t sp words tags) (\<lambda>(out, addends, end', header).
     bindE (case plan_drain d e t end' of
              Inr dr \<Rightarrow> bindE (apply_drain out e dr) (\<lambda>out. Inr (out, dlen dr, None))
            | Inl why \<Rightarrow> Inr (out, 0, Some why)) (\<lambda>(out, freed, kept_why).
     let at = of_nat (length (keep sp));
         relr_size = of_nat (length words) * 8;
         (out, header) =
           (if t_sec t \<noteq> None \<and> keep sp \<noteq> [] then
              (case append_header out (t_addr t + at) (t_off t + at) relr_size of
                 Inr out' \<Rightarrow> (out', HeaderAppended)
               | Inl why \<Rightarrow> (out, NoRelrHeader why))
            else (out, header))
     in Inr (out, \<lparr>rp_packed = length (packed sp), rp_kept = length (keep sp) div RELA_SIZE,
                   rp_words = length words, rp_addends = addends, rp_rela_before = t_size t,
                   rp_rela_after = length (keep sp), rp_freed = freed, rp_kept_why = kept_why,
                   rp_header = header\<rparr>)))"

definition relocates_itself :: "elf \<Rightarrow> dynamic \<Rightarrow> bool" where
  "relocates_itself e dy \<longleftrightarrow>
     \<not> list_ex (\<lambda>p. p_type p = PT_INTERP) (phdrs e)
     \<and> ((case tag dy DT_FLAGS_1 of None \<Rightarrow> False | Some f \<Rightarrow> f AND DF_1_PIE \<noteq> 0) \<or> e_entry (eh e) \<noteq> 0)"

definition pack_relative :: "bytes \<Rightarrow> bool \<Rightarrow> relr_error + bytes \<times> relr_report" where
  "pack_relative d allow_static =
     bindE (relative_type d) (\<lambda>rel.
     bindE (parse d) (\<lambda>e.
     if e_type (eh e) \<noteq> ET_DYN then Inl (NotPositionIndependent (e_type (eh e)))
     else
       bindE (read_dynamic d e) (\<lambda>dy.
       bindE (check_glibc d e dy) (\<lambda>_.
       bindE (rela_table d e dy) (\<lambda>t.
       if \<not> allow_static \<and> relocates_itself e dy then Inl StaticPie
       else
         bindE (split_relocs d e t rel) (\<lambda>sp.
         bindE (sorted_offsets (packed sp)) (\<lambda>(ps, offsets).
         let sp = sp\<lparr>packed := ps\<rparr> in
         bindE (check_targets d e dy t (keep sp) offsets) (\<lambda>_.
         let words = encode_relr offsets in
         if decode_relr words \<noteq> offsets then Inl NoRoundTrip
         else bindE (new_tags dy t sp (length words)) (\<lambda>tags.
              rewrite d e dy t sp words tags)))))))))"

end
