(* ===== verification/Relr_Code.thy ===== *)
theory Relr_Code
  imports Relr
begin

text \<open>
  The RELR code of \<open>src/format/elf/relr.rs\<close>: decoding inverts encoding on every increasing list of
  word-aligned addresses, up to the end of the address space, and the code has at most one word
  per address.
\<close>

section \<open>Bitmaps\<close>

text \<open>The addresses a bitmap at \<open>base\<close> marks.\<close>

definition covered :: "u64 \<Rightarrow> u64 \<Rightarrow> u64 list" where
  "covered base bm = map (\<lambda>i. base + of_nat i * 8) (filter (bit bm) [0..<63])"

lemma covered_zero [simp]: "covered base 0 = []"
  by (simp add: covered_def)

lemma covered_top:
  assumes "\<And>i. bit bm i \<Longrightarrow> i < k" and "k < 63"
  shows "covered base (bm OR push_bit k 1) = covered base bm @ [base + of_nat k * 8]"
proof -
  have split: "[0..<63] = [0..<k] @ k # [Suc k..<63]"
    using assms(2) upt_add_eq_append [of 0 k "63 - k"] upt_conv_Cons [of k 63] by simp
  have low: "filter (bit (bm OR push_bit k 1)) [0..<k] = filter (bit bm) [0..<k]"
    by (intro filter_cong) (auto simp: bit_simps)
  have high: "filter (bit (bm OR push_bit k 1)) [Suc k..<63] = []" "filter (bit bm) (k # [Suc k..<63]) = []"
    using assms(2) by (auto simp: bit_simps filter_empty_conv dest!: assms(1))
  have "bit (bm OR push_bit k 1) k" using assms(2) by (simp add: bit_simps)
  then show ?thesis unfolding covered_def split filter_append using low high by simp
qed

lemma unat_slot:
  fixes a base :: u64
  assumes "base \<le> a" and "8 dvd unat a - unat base"
  shows "a = base + of_nat (unat ((a - base) div 8)) * 8"
    and "unat a = unat base + 8 * unat ((a - base) div 8)"
proof -
  have d: "unat (a - base) = unat a - unat base" using assms(1) by (simp add: unat_sub)
  have k: "unat ((a - base) div 8) = (unat a - unat base) div 8" by (simp add: unat_div d)
  then show u: "unat a = unat base + 8 * unat ((a - base) div 8)"
    using assms by (simp add: word_le_nat_alt)
  have "word_of_nat (unat a) = (word_of_nat (unat base + 8 * unat ((a - base) div 8)) :: u64)"
    by (simp only: u)
  then show "a = base + of_nat (unat ((a - base) div 8)) * 8" by (simp add: mult.commute)
qed

text \<open>Increasing addresses from \<open>base\<close> on, in steps of a word.\<close>

definition ascending :: "u64 \<Rightarrow> u64 list \<Rightarrow> bool" where
  "ascending base os \<longleftrightarrow> sorted_wrt (<) os \<and> (\<forall>a \<in> set os. unat base \<le> unat a \<and> 8 dvd unat a - unat base)"

lemma fill_bitmap_spec:
  assumes "fill_bitmap base os bm = (bm', rest)" and "ascending base os"
    and "\<And>i. bit bm i \<Longrightarrow> i < 63 \<and> (\<forall>a \<in> set os. unat base + 8 * i < unat a)"
  shows "covered base bm @ os = covered base bm' @ rest \<and> (\<forall>i. bit bm' i \<longrightarrow> i < 63)
    \<and> (\<forall>a \<in> set rest. unat base + 504 \<le> unat a) \<and> (\<exists>pre. os = pre @ rest)"
  using assms
proof (induction base os bm rule: fill_bitmap.induct)
  case (2 base a os bm)
  show ?case
  proof (cases "base \<le> a \<and> a - base < 63 * 8")
    case True
    define k where "k = unat ((a - base) div 8)"
    have asc: "base \<le> a" "8 dvd unat a - unat base" "\<forall>x \<in> set os. a < x"
      using "2.prems"(2) by (auto simp: ascending_def word_le_nat_alt)
    have a: "a = base + of_nat k * 8" "unat a = unat base + 8 * k"
      unfolding k_def using unat_slot [OF asc(1,2)] by blast+
    have k: "k < 63"
      using True a(2) unat_sub [OF asc(1)] by (simp add: word_less_nat_alt)
    have low: "i < k" if "bit bm i" for i
      using "2.prems"(3) [OF that] a(2) by simp
    have f: "fill_bitmap base os (bm OR push_bit k 1) = (bm', rest)"
      using "2.prems"(1) True by (simp add: k_def)
    have bits: "i < 63 \<and> (\<forall>x \<in> set os. unat base + 8 * i < unat x)" if "bit (bm OR push_bit k 1) i" for i
      using that "2.prems"(3) [of i] asc(3) k a(2) by (auto simp: bit_simps word_less_nat_alt)
    have "ascending base os" using "2.prems"(2) by (simp add: ascending_def)
    note IH = "2.IH" [OF True, folded k_def, OF f this bits]
    from IH have "covered base bm @ a # os = covered base bm' @ rest"
      using covered_top [of bm k base] low k a(1) by simp
    with IH show ?thesis by (metis append_Cons)
  next
    case False
    then have r: "bm' = bm" "rest = a # os" using "2.prems"(1) by auto
    have le: "unat base \<le> unat a" "\<forall>x \<in> set os. unat a \<le> unat x"
      using "2.prems"(2) by (auto simp: ascending_def word_less_nat_alt less_imp_le)
    with False have "unat base + 504 \<le> unat a"
      by (simp add: word_le_nat_alt word_less_nat_alt unat_sub)
    then show ?thesis using r "2.prems"(3) le by force
  qed
qed auto

section \<open>Decoding\<close>

declare decode_from.simps(2) [simp del]

lemma decode_address:
  assumes "8 dvd unat a"
  shows "decode_from nxt (a # ws) = a # decode_from (a + 8) ws"
proof -
  have "2 dvd unat a" using assms by (rule dvd_trans [rotated]) simp
  then have "a mod 2 = 0" by (simp add: word_unat_eq_iff unat_mod)
  then show ?thesis by (simp add: decode_from.simps and_one_eq)
qed

lemma decode_bitmap:
  assumes "\<And>i. bit bm i \<Longrightarrow> i < 63"
  shows "decode_from nxt ((push_bit 1 bm OR 1) # ws) = covered nxt bm @ decode_from (nxt + 504) ws"
proof -
  have "drop_bit (i + 1) (push_bit 1 bm OR 1) AND 1 = (1 :: u64) \<longleftrightarrow> bit bm i" if "i < 63" for i
  proof -
    have "bit (push_bit 1 bm OR 1) (i + 1) \<longleftrightarrow> bit bm i"
      using that by (subst bit_or_iff, subst bit_push_bit_iff) (auto simp: bit_1_iff)
    then show ?thesis by (simp only: and_one_eq mod_2_eq_odd bit_iff_odd_drop_bit) simp
  qed
  then have "filter (\<lambda>i. drop_bit (i + 1) (push_bit 1 bm OR 1) AND 1 = (1 :: u64)) [0..<63] = filter (bit bm) [0..<63]"
    by (intro filter_cong) auto
  moreover have "(push_bit 1 bm OR 1) AND 1 \<noteq> (0 :: u64)"
    by (simp add: and_one_eq mod_2_eq_odd even_or_iff)
  ultimately show ?thesis by (simp add: decode_from.simps covered_def)
qed

section \<open>The round trip\<close>

lemma bitmap_words_spec:
  assumes "bitmap_words base os = (ws, rest)" and "ascending base os"
  shows "\<exists>pre. os = pre @ rest \<and> length ws \<le> length pre
    \<and> (\<forall>tl D. (\<forall>n. decode_from n tl = D) \<longrightarrow> decode_from base (ws @ tl) = pre @ D)"
  using assms
proof (induction base os arbitrary: ws rest rule: bitmap_words.induct)
  case (1 base os)
  obtain bm r where f: "fill_bitmap base os 0 = (bm, r)" by fastforce
  note sp = fill_bitmap_spec [OF f "1.prems"(2), simplified]
  obtain pre where pre: "os = pre @ r" using sp by blast
  have cov: "pre = covered base bm" using sp pre by simp
  show ?case
  proof (cases "bm = 0")
    case True
    then have "ws = []" "rest = r"
      using "1.prems"(1) f by (simp_all add: bitmap_words.simps [of base os])
    then show ?thesis using pre cov True by simp
  next
    case False
    obtain ws' rest' where w: "bitmap_words (base + 504) r = (ws', rest')" by fastforce
    have ws: "ws = (push_bit 1 bm OR 1) # ws'" "rest = rest'"
      using "1.prems"(1) f w False by (simp_all add: bitmap_words.simps [of base os] del: push_bit_Suc)
    have "ascending (base + 504) r"
    proof (cases r)
      case (Cons a r')
      then have "unat base + 504 \<le> unat a" using sp by simp
      then have "unat base + 504 < 2 ^ 64" using lt64I [of "unat base + 504" a] by simp
      then have u: "unat (base + 504) = unat base + 504" by (simp add: unat_add_le)
      have "8 dvd unat x - unat (base + 504)" if "x \<in> set r" for x
      proof -
        have "8 dvd unat x - unat base" using that "1.prems"(2) pre by (simp add: ascending_def)
        moreover have "unat x - unat (base + 504) = (unat x - unat base) - 8 * 63" using u by simp
        ultimately show ?thesis by (metis dvd_diff_nat dvd_triv_left)
      qed
      then show ?thesis using "1.prems"(2) pre sp u by (auto simp: ascending_def sorted_wrt_append)
    qed (simp add: ascending_def)
    then have "ascending (base + 63 * 8) r" "bitmap_words (base + 63 * 8) r = (ws', rest')"
      using w by simp_all
    from "1.IH" [OF f [symmetric] False this(2,1)] obtain pre' where
      p': "r = pre' @ rest'" "length ws' \<le> length pre'"
        "\<And>tl D. (\<forall>n. decode_from n tl = D) \<Longrightarrow> decode_from (base + 504) (ws' @ tl) = pre' @ D"
      by auto
    have "pre \<noteq> []"
    proof
      assume "pre = []"
      then have "\<not> bit bm i" for i
        using cov sp by (cases "i < 63") (auto simp: covered_def filter_empty_conv)
      then show False using False by (simp add: bit_eq_iff)
    qed
    then show ?thesis
      using pre p' ws cov sp by (auto simp: decode_bitmap [simplified] Suc_le_eq intro: add_strict_increasing)
  qed
qed

lemma encode_relr_spec:
  assumes "sorted_wrt (<) os" and "\<forall>a \<in> set os. 8 dvd unat a"
  shows "(\<forall>n. decode_from n (encode_relr os) = os) \<and> length (encode_relr os) \<le> length os"
  using assms
proof (induction os rule: encode_relr.induct)
  case (2 a os)
  obtain ws rest where w: "bitmap_words (a + 8) os = (ws, rest)" by fastforce
  have "ascending (a + 8) os"
  proof (cases os)
    case (Cons b os')
    have gap: "unat a + 8 \<le> unat x" if "x \<in> set os" for x
    proof -
      have "unat a < unat x" "8 dvd unat x" "8 dvd unat a"
        using that 2(2,3) by (auto simp: word_less_nat_alt)
      then show ?thesis by presburger
    qed
    then have "unat a + 8 \<le> unat b" using Cons by simp
    then have "unat a + 8 < 2 ^ 64" using lt64I [of "unat a + 8" b] by simp
    then have "unat (a + 8) = unat a + 8" by (simp add: unat_add_le)
    then show ?thesis using 2(2,3) gap by (auto simp: ascending_def intro: dvd_diff_nat)
  qed (simp add: ascending_def)
  from bitmap_words_spec [OF w this] obtain pre where p: "os = pre @ rest" "length ws \<le> length pre"
    "\<And>tl D. (\<forall>n. decode_from n tl = D) \<Longrightarrow> decode_from (a + 8) (ws @ tl) = pre @ D" by auto
  have IH: "\<forall>n. decode_from n (encode_relr rest) = rest" "length (encode_relr rest) \<le> length rest"
    using "2.IH" [OF w [symmetric]] 2(2,3) p(1) by (auto simp: sorted_wrt_append)
  show ?case using w p IH 2(3) by (auto simp: decode_address)
qed simp

lemma aligned_unat: "a mod 8 = 0 \<longleftrightarrow> 8 dvd unat (a :: u64)"
  by (simp add: word_unat_eq_iff unat_mod dvd_eq_mod_eq_0)

text \<open>C8. Decoding inverts encoding, for every increasing list of word-aligned addresses, also next
  to the end of the address space, and the code is never longer than the list: so the check of
  \<open>pack_relative\<close> never refuses a file, and the tables always fit into the room of the relocations.\<close>

theorem relr_round_trip:
  assumes "sorted_wrt (<) offsets" and "\<forall>a \<in> set offsets. a mod 8 = 0"
  shows "decode_relr (encode_relr offsets) = offsets \<and> length (encode_relr offsets) \<le> length offsets"
  using encode_relr_spec [OF assms(1)] assms(2) by (simp add: decode_relr_def aligned_unat)

end
