(* ===== verification/Relr_Table.thy ===== *)
theory Relr_Table
  imports Relr_Code
begin

text \<open>
  What \<open>split_relocs\<close> and \<open>sorted_offsets\<close> of \<open>src/format/elf/relr.rs\<close> compute: the table is the
  list of its entries; the packed ones and the kept ones are its two filters, in order; sorting and
  removing duplicates keeps every relocation and gives increasing word-aligned addresses. Hence
  the tables fit, and the check of the code never refuses.
\<close>

section \<open>Checked accesses\<close>

lemma lift_field_simps [simp]: "lift_field (Inr v) = Inr v" "lift_field (Inl e) = Inl (Field e)"
  by (simp_all add: lift_field_def)

lemma get_Inr:
  assumes "vec_ok d" and "n \<le> 8"
  shows "get d off n = Inr v \<longleftrightarrow> unat off + n \<le> length d \<and> v = field d (unat off) n"
  using assms by (auto simp: get_def rd_eq)

lemma put_Inr:
  assumes "vec_ok d" and "n \<le> 8"
  shows "put d off n v = Inr d' \<longleftrightarrow>
    unat off + n \<le> length d \<and> d' = splice_at d (unat off) (to_le n v)"
  using assms by (auto simp: put_def wr_eq)

lemma span_Inr:
  assumes "vec_ok d"
  shows "span d off len = Inr b \<longleftrightarrow>
    unat off + unat len \<le> length d \<and> b = take (unat len) (drop (unat off) d)"
proof -
  have "checked_add off len \<bind> slice_get d off =
    (if unat off + unat len \<le> length d then Some (take (unat len) (drop (unat off) d)) else None)"
    using assms
    by (auto simp: checked_add_def slice_get_def unat_add_le vec_ok_def word_le_nat_alt)
  then show ?thesis by (auto simp: span_def)
qed

section \<open>Entries\<close>

text \<open>The entry \<open>i\<close> of the table at file offset \<open>off\<close>.\<close>

definition raw_entry :: "bytes \<Rightarrow> nat \<Rightarrow> nat \<Rightarrow> bytes" where
  "raw_entry d off i = take RELA_SIZE (drop (off + RELA_SIZE * i) d)"

definition r_offset :: "bytes \<Rightarrow> u64" where "r_offset rw = field rw 0 8"
definition r_info :: "bytes \<Rightarrow> u64" where "r_info rw = field rw 8 8"
definition r_addend :: "bytes \<Rightarrow> u64" where "r_addend rw = field rw 16 8"

definition rela_entries :: "bytes \<Rightarrow> rela_tab \<Rightarrow> bytes list" where
  "rela_entries d t = map (raw_entry d (unat (t_off t))) [0..<unat (t_size t) div RELA_SIZE]"

definition is_packed :: "elf \<Rightarrow> u64 \<Rightarrow> bytes \<Rightarrow> bool" where
  "is_packed e rel rw \<longleftrightarrow> packable e (r_offset rw) (r_info rw) rel \<noteq> None"

definition packed_of :: "elf \<Rightarrow> u64 \<Rightarrow> bytes \<Rightarrow> packed_rel" where
  "packed_of e rel rw =
     \<lparr>pk_addr = r_offset rw, pk_addend = r_addend rw,
      pk_off = the (packable e (r_offset rw) (r_info rw) rel)\<rparr>"

definition is_relative :: "u64 \<Rightarrow> bytes \<Rightarrow> bool" where
  "is_relative rel rw \<longleftrightarrow> r_info rw AND 0xffffffff = rel"

text \<open>What the table is split into.\<close>

definition split_of :: "elf \<Rightarrow> u64 \<Rightarrow> bytes list \<Rightarrow> split_rels" where
  "split_of e rel es =
     (let kept = filter (\<lambda>rw. \<not> is_packed e rel rw) es
      in \<lparr>packed = map (packed_of e rel) (filter (is_packed e rel) es), keep = concat kept,
          lead = of_nat (length (takeWhile (is_relative rel) kept))\<rparr>)"

lemma split_entry_Inr:
  assumes "vec_ok d" and "off = t_off t" and "i < 2 ^ 59"
    and no_wrap: "unat off + RELA_SIZE * i \<le> length d"
  shows "split_entry d e off rel i (sp, leading) = Inr r \<longleftrightarrow>
    (let rw = raw_entry d (unat off) i; leading' = (leading \<and> is_relative rel rw)
     in unat off + RELA_SIZE * Suc i \<le> length d \<and>
        r = (if is_packed e rel rw then (sp\<lparr>packed := packed sp @ [packed_of e rel rw]\<rparr>, leading)
             else (sp\<lparr>keep := keep sp @ rw, lead := lead sp + (if leading' then 1 else 0)\<rparr>, leading')))"
proof -
  have i: "unat (of_nat (i * RELA_SIZE) :: u64) = RELA_SIZE * i"
    using assms(3) by (subst unsigned_of_nat) (simp add: take_bit_nat_eq_self)
  then have at: "unat (off + of_nat (i * RELA_SIZE)) = unat off + RELA_SIZE * i"
    using no_wrap assms(1) by (subst unat_add_le) (auto simp: vec_ok_def)
  define rw where "rw = raw_entry d (unat off) i"
  have sp: "span d (off + of_nat (i * RELA_SIZE)) (of_nat RELA_SIZE) = Inr x \<longleftrightarrow>
      unat off + RELA_SIZE * Suc i \<le> length d \<and> x = rw" for x
    unfolding span_Inr [OF assms(1)] at by (auto simp: rw_def raw_entry_def)
  show ?thesis
  proof (cases "unat off + RELA_SIZE * Suc i \<le> length d")
    case True
    then have len: "length rw = RELA_SIZE" by (simp add: rw_def raw_entry_def)
    then have ok: "vec_ok rw" by (simp add: vec_ok_def)
    have g: "get rw 0 8 = Inr (r_offset rw)" "get rw 8 8 = Inr (r_info rw)" "get rw 16 8 = Inr (r_addend rw)"
      by (simp_all add: get_Inr [OF ok] len r_offset_def r_info_def r_addend_def)
    have "span d (off + of_nat (i * RELA_SIZE)) (of_nat RELA_SIZE) = Inr rw" using sp True by blast
    then have "split_entry d e off rel i (sp, leading) =
      (let leading' = (leading \<and> is_relative rel rw)
       in Inr (if is_packed e rel rw then (sp\<lparr>packed := packed sp @ [packed_of e rel rw]\<rparr>, leading)
             else (sp\<lparr>keep := keep sp @ rw, lead := lead sp + (if leading' then 1 else 0)\<rparr>, leading')))"
      unfolding split_entry_def case_prod_conv
      by (simp only: bindE.simps g)
        (simp add: is_packed_def packed_of_def is_relative_def split: option.split)
    then show ?thesis using True by (auto simp: Let_def rw_def)
  next
    case False
    then have "span d (off + of_nat (i * RELA_SIZE)) (of_nat RELA_SIZE) \<noteq> Inr x" for x using sp by blast
    then obtain err where "span d (off + of_nat (i * RELA_SIZE)) (of_nat RELA_SIZE) = Inl err"
      by (cases "span d (off + of_nat (i * RELA_SIZE)) (of_nat RELA_SIZE)") auto
    then have "split_entry d e off rel i (sp, leading) = Inl err"
      unfolding split_entry_def case_prod_conv by (simp only: bindE.simps)
    then show ?thesis using False by (simp add: Let_def)
  qed
qed

lemma takeWhile_snoc_length:
  "length (takeWhile P (xs @ [x])) =
     length (takeWhile P xs) + (if (\<forall>y \<in> set xs. P y) \<and> P x then 1 else 0)"
  by (induction xs) auto

lemma split_relocs_spec:
  assumes "split_relocs d e t rel = Inr sp" and "vec_ok d" and "unat (t_off t) \<le> length d"
  shows "sp = split_of e rel (rela_entries d t)"
    and "unat (t_off t) + RELA_SIZE * (unat (t_size t) div RELA_SIZE) \<le> length d"
    and "packed sp \<noteq> []"
proof -
  let ?es = "\<lambda>is. map (raw_entry d (unat (t_off t))) is"
  define I where "I = (\<lambda>is (sp, leading).
    sp = split_of e rel (?es is)
    \<and> (leading \<longleftrightarrow> (\<forall>rw \<in> set (?es is). \<not> is_packed e rel rw \<longrightarrow> is_relative rel rw))
    \<and> unat (t_off t) + RELA_SIZE * length is \<le> length d)"
  obtain l where f: "foldE (split_entry d e (t_off t) rel) [0..<unat (t_size t) div RELA_SIZE]
      (\<lparr>packed = [], keep = [], lead = 0\<rparr>, True) = Inr (sp, l)" and ne: "packed sp \<noteq> []"
    using assms(1) by (auto simp: split_relocs_def split: if_splits)
  have "I [0..<unat (t_size t) div RELA_SIZE] (sp, l)"
  proof (rule foldE_inv [OF f])
    show "I [] (\<lparr>packed = [], keep = [], lead = 0\<rparr>, True)"
      using assms(3) by (simp add: I_def split_of_def)
  next
    fix ys y zs s s'
    assume xs: "[0..<unat (t_size t) div RELA_SIZE] = ys @ y # zs" and I: "I ys s"
      and st: "split_entry d e (t_off t) rel y s = Inr s'"
    obtain sp0 l0 where s: "s = (sp0, l0)" by fastforce
    have y: "y = length ys" using upt_split [OF xs] by simp
    have le: "unat (t_off t) + RELA_SIZE * y \<le> length d" using I by (simp add: I_def s y)
    then have "y < 2 ^ 59" using assms(2) by (simp add: vec_ok_def)
    from st [unfolded s split_entry_Inr [OF assms(2) refl this le]] I
    show "I (ys @ [y]) s'"
      by (auto simp: I_def s y split_of_def Let_def takeWhile_snoc_length)
  qed
  then show "sp = split_of e rel (rela_entries d t)"
    and "unat (t_off t) + RELA_SIZE * (unat (t_size t) div RELA_SIZE) \<le> length d"
    and "packed sp \<noteq> []"
    using ne by (auto simp: I_def rela_entries_def)
qed

section \<open>Sorting\<close>

lemma dedup_addr_spec:
  assumes "sorted (map pk_addr ps)"
    and "list_all (\<lambda>(p, q). pk_addr p = pk_addr q \<longrightarrow> pk_addend p = pk_addend q) (windows2 ps)"
  shows "sorted_wrt (<) (map pk_addr (dedup_addr ps)) \<and> set (dedup_addr ps) \<subseteq> set ps
    \<and> (\<forall>p \<in> set ps. \<exists>q \<in> set (dedup_addr ps). pk_addr q = pk_addr p \<and> pk_addend q = pk_addend p)
    \<and> length (dedup_addr ps) \<le> length ps \<and> (ps \<noteq> [] \<longrightarrow> dedup_addr ps \<noteq> [] \<and> hd (dedup_addr ps) = hd ps)"
  using assms
proof (induction ps rule: dedup_addr.induct)
  case (3 p q ps)
  show ?case
  proof (cases "pk_addr q = pk_addr p")
    case True
    have "list_all (\<lambda>(p, q). pk_addr p = pk_addr q \<longrightarrow> pk_addend p = pk_addend q) (windows2 (p # ps))"
      using 3(4) True by (cases ps) (auto simp: windows2_def)
    moreover have "sorted (map pk_addr (p # ps))" using 3(3) by auto
    moreover have "pk_addend p = pk_addend q" using 3(4) True by (simp add: windows2_def)
    ultimately show ?thesis using 3(1) [OF True] True by fastforce
  next
    case False
    have "list_all (\<lambda>(p, q). pk_addr p = pk_addr q \<longrightarrow> pk_addend p = pk_addend q) (windows2 (q # ps))"
      using 3(4) by (cases ps) (auto simp: windows2_def)
    moreover have "sorted (map pk_addr (q # ps))" "pk_addr p < pk_addr q" using 3(3) False by auto
    ultimately show ?thesis using 3(2) [OF False] 3(3) False by fastforce
  qed
qed auto

lemma sorted_offsets_spec:
  assumes "sorted_offsets ps = Inr (u, os)"
  shows "os = map pk_addr u" and "sorted_wrt (<) os" and "set u \<subseteq> set ps"
    and "\<And>p. p \<in> set ps \<Longrightarrow> \<exists>q \<in> set u. pk_addr q = pk_addr p \<and> pk_addend q = pk_addend p"
    and "length u \<le> length ps"
proof -
  let ?ps = "sort_key pk_addr ps"
  have u: "u = dedup_addr ?ps" "os = map pk_addr u"
    "list_all (\<lambda>(p, q). pk_addr p = pk_addr q \<longrightarrow> pk_addend p = pk_addend q) (windows2 ?ps)"
    using assms by (auto simp: sorted_offsets_def Let_def list_ex_iff list_all_iff split: if_splits)
  note d = dedup_addr_spec [of ?ps, OF _ u(3), simplified]
  show "os = map pk_addr u" by (rule u(2))
  show "sorted_wrt (<) os" "set u \<subseteq> set ps" "length u \<le> length ps" using d u by auto
  show "\<exists>q \<in> set u. pk_addr q = pk_addr p \<and> pk_addend q = pk_addend p" if "p \<in> set ps" for p
    using d that u by auto
qed

section \<open>The plan of the code\<close>

lemma length_concat_same: "(\<And>x. x \<in> set xs \<Longrightarrow> length x = n) \<Longrightarrow> length (concat xs) = n * length xs"
  by (induction xs) auto

lemma length_raw_entry:
  "rw \<in> set (rela_entries d t) \<Longrightarrow> unat (t_off t) + RELA_SIZE * (unat (t_size t) div RELA_SIZE) \<le> length d \<Longrightarrow>
    length rw = RELA_SIZE"
  by (auto simp: rela_entries_def raw_entry_def)

lemma packed_of_aligned: "is_packed e rel rw \<Longrightarrow> pk_addr (packed_of e rel rw) mod 8 = 0"
  by (auto simp: is_packed_def packable_def packed_of_def split: if_splits)

text \<open>The room the new tables need.\<close>

lemma tables_fit:
  assumes "split_relocs d e t rel = Inr sp" and "vec_ok d" and "unat (t_off t) \<le> length d"
    and "sorted_offsets (packed sp) = Inr (u, os)"
  shows "length (keep sp) + 8 * length (encode_relr os) \<le> unat (t_size t)"
    and "decode_relr (encode_relr os) = os"
proof -
  let ?es = "rela_entries d t"
  note sp = split_relocs_spec [OF assms(1-3)] and so = sorted_offsets_spec [OF assms(4)]
  have "\<forall>a \<in> set os. a mod 8 = 0"
    using so(1,3) packed_of_aligned by (fastforce simp: sp(1) split_of_def Let_def)
  with so(2) have "\<forall>a \<in> set os. 8 dvd unat a" "sorted_wrt (<) os"
    by (auto simp: aligned_unat)
  note enc = encode_relr_spec [OF this(2,1)]
  show "decode_relr (encode_relr os) = os" using enc by (simp add: decode_relr_def)
  have "length (keep sp) = RELA_SIZE * length (filter (\<lambda>rw. \<not> is_packed e rel rw) ?es)"
    unfolding sp(1) split_of_def Let_def split_rels.simps
    by (rule length_concat_same) (use length_raw_entry sp(2) in auto)
  moreover have "length os \<le> length (filter (is_packed e rel) ?es)"
    using so(1,5) by (simp add: sp(1) split_of_def Let_def)
  moreover have "length (filter (is_packed e rel) ?es) + length (filter (\<lambda>rw. \<not> is_packed e rel rw) ?es)
      = unat (t_size t) div RELA_SIZE"
    by (simp add: sum_length_filter_compl) (simp add: rela_entries_def)
  ultimately show "length (keep sp) + 8 * length (encode_relr os) \<le> unat (t_size t)"
    using enc by linarith
qed

end
