(* ===== verification/Relr_Writes.thy ===== *)
theory Relr_Writes
  imports Relr_Table
begin

text \<open>
  What the writes of \<open>src/format/elf/relr.rs\<close> leave in the file: the addends in the packed words,
  the kept relocations followed by the RELR words and zeros in the old table, the new entries in
  \<open>.dynamic\<close>; and that no other byte changes.
\<close>

section \<open>Fields\<close>

lemma put_spec:
  assumes "put d off n v = Inr d'" and "vec_ok d" and "n \<le> 8"
  shows "unat off + n \<le> length d" and "only_changes d d' {unat off..<unat off + n}"
    and "n = 8 \<Longrightarrow> field d' (unat off) 8 = v"
proof -
  from assms have le: "unat off + n \<le> length d" and d': "d' = splice_at d (unat off) (to_le n v)"
    by (auto simp: put_Inr)
  show "unat off + n \<le> length d" by (rule le)
  show "only_changes d d' {unat off..<unat off + n}"
    using only_changes_splice [of "unat off" "to_le n v" d] le d' by simp
  show "field d' (unat off) 8 = v" if "n = 8"
    using le d' that by (simp add: field_splice_same)
qed

lemma put_within:
  "put d off n v = Inr d' \<Longrightarrow> vec_ok d \<Longrightarrow> n \<le> 8 \<Longrightarrow> {unat off..<unat off + n} \<subseteq> S \<Longrightarrow> only_changes d d' S"
  using put_spec(2) only_changes_mono by blast

text \<open>Two adjacent writes are one.\<close>

lemma splice_adjacent:
  assumes "a + length xs + length ys \<le> length d"
  shows "splice_at (splice_at d a xs) (a + length xs) ys = splice_at d a (xs @ ys)"
proof (rule nth_equalityI)
  show "length (splice_at (splice_at d a xs) (a + length xs) ys) = length (splice_at d a (xs @ ys))"
    using assms by simp
next
  fix k assume "k < length (splice_at (splice_at d a xs) (a + length xs) ys)"
  then have k: "k < length d" using assms by simp
  then show "splice_at (splice_at d a xs) (a + length xs) ys ! k = splice_at d a (xs @ ys) ! k"
    using assms by (auto simp: nth_splice nth_append)
qed

lemma splice_Nil [simp]: "a \<le> length d \<Longrightarrow> splice_at d a [] = d"
  by (simp add: splice_at_def)

section \<open>Addends\<close>

definition word_span :: "packed_rel \<Rightarrow> nat set" where
  "word_span p = {unat (pk_off p)..<unat (pk_off p) + 8}"

lemma write_addends_spec:
  assumes "write_addends d ps = Inr (out, n)" and "vec_ok d"
    and disj: "\<And>i j. i < j \<Longrightarrow> j < length ps \<Longrightarrow> word_span (ps ! i) \<inter> word_span (ps ! j) = {}"
  shows "only_changes d out (\<Union>(word_span ` set ps))"
    and "\<And>p. p \<in> set ps \<Longrightarrow> unat (pk_off p) + 8 \<le> length d \<and> field out (unat (pk_off p)) 8 = pk_addend p"
    and "n = length (filter (\<lambda>p. field d (unat (pk_off p)) 8 \<noteq> pk_addend p) ps)"
proof -
  define I where "I = (\<lambda>ys (out, n). only_changes d out (\<Union>(word_span ` set ys))
    \<and> (\<forall>p \<in> set ys. unat (pk_off p) + 8 \<le> length d \<and> field out (unat (pk_off p)) 8 = pk_addend p)
    \<and> n = length (filter (\<lambda>p. field d (unat (pk_off p)) 8 \<noteq> pk_addend p) ys))"
  have "I ps (out, n)"
  proof (rule foldE_inv [of write_addend])
    show "foldE write_addend ps (d, 0) = Inr (out, n)" using assms(1) by (simp add: write_addends_def)
    show "I [] (d, 0)" by (simp add: I_def)
  next
    fix ys p zs s s'
    assume ps: "ps = ys @ p # zs" and I: "I ys s" and st: "write_addend p s = Inr s'"
    obtain o1 n1 where s: "s = (o1, n1)" by fastforce
    have fr: "only_changes d o1 (\<Union>(word_span ` set ys))" using I by (simp add: I_def s)
    then have ok: "vec_ok o1" and len: "length o1 = length d"
      using assms(2) only_changes_vec_ok by (auto simp: only_changes_def)
    have dj: "word_span q \<inter> word_span p = {}" if "q \<in> set ys" for q
    proof -
      from that obtain i where "i < length ys" "q = ys ! i" by (auto simp: in_set_conv_nth)
      then show ?thesis using disj [of i "length ys"] ps by (simp add: nth_append)
    qed
    then have "\<Union>(word_span ` set ys) \<inter> {unat (pk_off p)..<unat (pk_off p) + 8} = {}"
      unfolding word_span_def [of p, symmetric] by blast
    note old = only_changes_field [OF fr this]
    show "I (ys @ [p]) s'"
    proof (cases "field d (unat (pk_off p)) 8 = pk_addend p")
      case True
      then show ?thesis
        using st I old len by (auto simp: write_addend_def s get_Inr [OF ok] I_def elim: only_changes_mono)
    next
      case False
      then obtain o2 where p2: "put o1 (pk_off p) 8 (pk_addend p) = Inr o2" and s': "s' = (o2, n1 + 1)"
        using st old by (auto simp: write_addend_def s get_Inr [OF ok])
      note ps2 = put_spec [OF p2 ok order_refl]
      have keep: "field o2 (unat (pk_off q)) 8 = pk_addend q" if "q \<in> set ys" for q
        using only_changes_field [OF ps2(2), of "unat (pk_off q)" 8] dj [OF that] I that
        by (auto simp: I_def s word_span_def)
      have "only_changes d o2 (\<Union>(word_span ` set (ys @ [p])))"
        by (rule only_changes_trans [OF fr ps2(2)]) (auto simp: word_span_def)
      then show ?thesis using I ps2(1,3) len keep False by (simp add: I_def s s')
    qed
  qed
  then show "only_changes d out (\<Union>(word_span ` set ps))"
    and "\<And>p. p \<in> set ps \<Longrightarrow> unat (pk_off p) + 8 \<le> length d \<and> field out (unat (pk_off p)) 8 = pk_addend p"
    and "n = length (filter (\<lambda>p. field d (unat (pk_off p)) 8 \<noteq> pk_addend p) ps)"
    by (auto simp: I_def)
qed

section \<open>Tables\<close>

definition words_bytes :: "u64 list \<Rightarrow> bytes" where
  "words_bytes ws = concat (map (to_le 8) ws)"

lemma length_words_bytes [simp]: "length (words_bytes ws) = 8 * length ws"
  by (induction ws) (simp_all add: words_bytes_def)

lemma words_bytes_snoc: "words_bytes (ws @ [w]) = words_bytes ws @ to_le 8 w"
  by (simp add: words_bytes_def)

lemma write_words_spec:
  assumes "write_words off ws d = Inr out" and "vec_ok d" and "unat off + 8 * length ws \<le> length d"
  shows "out = splice_at d (unat off) (words_bytes ws)"
proof -
  define I where "I = (\<lambda>is o'. o' = splice_at d (unat off) (words_bytes (take (length (is :: nat list)) ws)))"
  have "I [0..<length ws] out"
  proof (rule foldE_inv [OF assms(1) [unfolded write_words_def]])
    show "I [] d" using assms(3) by (simp add: I_def words_bytes_def)
  next
    fix ys y zs s s'
    assume xs: "[0..<length ws] = ys @ y # zs" and I: "I ys s"
      and st: "put s (off + of_nat (y * 8)) 8 (ws ! y) = Inr s'"
    have y: "y = length ys" "y < length ws" using upt_split [OF xs] by simp_all
    have s: "s = splice_at d (unat off) (words_bytes (take y ws))" using I by (simp add: I_def y(1))
    have len: "length s = length d" and ok: "vec_ok s" using s assms(2,3) y(2) by (simp_all add: vec_ok_def)
    have "unat (of_nat (y * 8) :: u64) = y * 8"
      using assms(2,3) y(2) by (subst unsigned_of_nat) (simp add: take_bit_nat_eq_self vec_ok_def)
    then have at: "unat (off + of_nat (y * 8)) = unat off + 8 * y"
      using assms(2,3) y(2) by (subst unat_add_le) (auto simp: vec_ok_def)
    have "s' = splice_at s (unat off + length (words_bytes (take y ws))) (to_le 8 (ws ! y))"
      using st y(2) by (simp add: put_Inr [OF ok] at [simplified])
    also have "\<dots> = splice_at d (unat off) (words_bytes (take (Suc y) ws))"
      unfolding s using assms(3) y(2)
      by (subst splice_adjacent) (simp_all add: words_bytes_snoc [symmetric] take_Suc_conv_app_nth)
    finally show "I (ys @ [y]) s'" by (simp add: I_def y(1))
  qed
  then show ?thesis by (simp add: I_def)
qed

text \<open>The bytes of the old table after the rewrite.\<close>

definition new_table :: "bytes \<Rightarrow> u64 list \<Rightarrow> nat \<Rightarrow> bytes" where
  "new_table kept ws sz =
     kept @ words_bytes ws @ replicate (sz - (length kept + 8 * length ws)) 0"

lemma length_new_table: "length kept + 8 * length ws \<le> sz \<Longrightarrow> length (new_table kept ws sz) = sz"
  by (simp add: new_table_def)

lemma write_tables_spec:
  assumes "write_tables d t kept ws = Inr (out, e)" and "vec_ok d"
    and room: "unat (t_off t) + unat (t_size t) \<le> length d"
    and fit: "length kept + 8 * length ws \<le> unat (t_size t)"
  shows "out = splice_at d (unat (t_off t)) (new_table kept ws (unat (t_size t)))"
    and "unat e = unat (t_off t) + length kept + 8 * length ws"
proof -
  have small: "unat (of_nat n :: u64) = n" if "n \<le> length d" for n
    using that assms(2) by (subst unsigned_of_nat) (simp add: take_bit_nat_eq_self vec_ok_def)
  have ro: "unat (t_off t + of_nat (length kept)) = unat (t_off t) + length kept"
    using room fit small [of "length kept"] assms(2) by (subst unat_add_le) (auto simp: vec_ok_def)
  have "unat (of_nat (length ws) * 8 :: u64) = 8 * length ws"
    using small [of "length ws * 8"] room fit by (simp add: mult.commute)
  then have en: "unat (t_off t + of_nat (length kept) + of_nat (length ws) * 8)
      = unat (t_off t) + length kept + 8 * length ws"
    using ro room fit assms(2) by (subst unat_add_le) (auto simp: vec_ok_def)
  have oe: "unat (t_off t + t_size t) = unat (t_off t) + unat (t_size t)"
    using room assms(2) by (subst unat_add_le) (auto simp: vec_ok_def)
  obtain o2 where w: "write_words (t_off t + of_nat (length kept)) ws (splice_at d (unat (t_off t)) kept) = Inr o2"
    and out: "out = splice_at o2 (unat e) (replicate (unat (t_off t + t_size t) - unat e) 0)"
    and e: "e = t_off t + of_nat (length kept) + of_nat (length ws) * 8"
    using assms(1) by (auto simp: write_tables_def Let_def dest!: slice_get_length split: if_splits)
  show "unat e = unat (t_off t) + length kept + 8 * length ws" unfolding e by (rule en)
  have "o2 = splice_at (splice_at d (unat (t_off t)) kept) (unat (t_off t) + length kept) (words_bytes ws)"
    using write_words_spec [OF w] assms(2) room fit by (simp add: ro vec_ok_def)
  also have "\<dots> = splice_at d (unat (t_off t)) (kept @ words_bytes ws)"
    using room fit by (subst splice_adjacent) simp_all
  finally have o2: "o2 = splice_at d (unat (t_off t)) (kept @ words_bytes ws)" .
  have "out = splice_at o2 (unat (t_off t) + length (kept @ words_bytes ws))
      (replicate (unat (t_size t) - (length kept + 8 * length ws)) 0)"
    unfolding out e en oe using fit by (simp add: add.assoc)
  then show "out = splice_at d (unat (t_off t)) (new_table kept ws (unat (t_size t)))"
    unfolding o2 using room fit by (subst (asm) splice_adjacent) (simp_all add: new_table_def)
qed

section \<open>The dynamic array\<close>

definition dyn_bytes :: "(u64 \<times> u64) list \<Rightarrow> nat \<Rightarrow> bytes" where
  "dyn_bytes tags n =
     words_bytes (concat (map (\<lambda>i. if i < length tags then [fst (tags ! i), snd (tags ! i)] else [0, 0]) [0..<n]))"

lemma length_dyn_bytes [simp]: "length (dyn_bytes tags n) = DYN_SIZE * n"
  by (induction n) (auto simp: dyn_bytes_def)

lemma dyn_bytes_Suc:
  "dyn_bytes tags (Suc n) = dyn_bytes tags n
     @ to_le 8 (fst (if n < length tags then tags ! n else (0, 0)))
     @ to_le 8 (snd (if n < length tags then tags ! n else (0, 0)))"
  by (simp add: dyn_bytes_def words_bytes_def)

lemma write_dynamic_spec:
  assumes "write_dynamic d dy tags = Inr out" and "vec_ok d"
    and room: "unat (dy_off dy) + DYN_SIZE * dy_slots dy \<le> length d"
  shows "out = splice_at d (unat (dy_off dy)) (dyn_bytes tags (dy_slots dy))"
proof -
  define I where "I = (\<lambda>is o'. o' = splice_at d (unat (dy_off dy)) (dyn_bytes tags (length (is :: nat list))))"
  have "I [0..<dy_slots dy] out"
  proof (rule foldE_inv [OF assms(1) [unfolded write_dynamic_def Let_def]])
    show "I [] d" using room by (simp add: I_def dyn_bytes_def words_bytes_def)
  next
    fix ys y zs s s'
    let ?kv = "if y < length tags then tags ! y else (0, 0)"
    assume xs: "[0..<dy_slots dy] = ys @ y # zs" and I: "I ys s"
      and st: "bindE (put s (dy_off dy + of_nat (y * DYN_SIZE)) 8 (fst ?kv)) (\<lambda>o'.
          put o' (dy_off dy + of_nat (y * DYN_SIZE) + 8) 8 (snd ?kv)) = Inr s'"
    have y: "y = length ys" "y < dy_slots dy" using upt_split [OF xs] by simp_all
    have s: "s = splice_at d (unat (dy_off dy)) (dyn_bytes tags y)" using I by (simp add: I_def y(1))
    have len: "length s = length d" and ok: "vec_ok s" using s assms(2) room y(2) by (simp_all add: vec_ok_def)
    have "unat (of_nat (y * DYN_SIZE) :: u64) = y * DYN_SIZE"
      using assms(2) room y(2) by (subst unsigned_of_nat) (simp add: take_bit_nat_eq_self vec_ok_def)
    then have at: "unat (dy_off dy + of_nat (y * DYN_SIZE)) = unat (dy_off dy) + DYN_SIZE * y"
      using assms(2) room y(2) by (subst unat_add_le) (auto simp: vec_ok_def)
    then have at8: "unat (dy_off dy + of_nat (y * DYN_SIZE) + 8) = unat (dy_off dy) + DYN_SIZE * y + 8"
      using assms(2) room y(2) by (subst unat_add_le) (auto simp: vec_ok_def)
    let ?s1 = "splice_at s (unat (dy_off dy) + DYN_SIZE * y) (to_le 8 (fst ?kv))"
    have ok1: "vec_ok ?s1" using ok len room y(2) by (simp add: vec_ok_def)
    have "s' = splice_at ?s1 (unat (dy_off dy) + DYN_SIZE * y + length (to_le 8 (fst ?kv))) (to_le 8 (snd ?kv))"
      using st put_Inr [OF ok1] by (auto simp: put_Inr [OF ok] at [simplified] at8 [simplified])
    also have "\<dots> = splice_at s (unat (dy_off dy) + length (dyn_bytes tags y))
        (to_le 8 (fst ?kv) @ to_le 8 (snd ?kv))"
      using len room y(2) by (subst splice_adjacent) simp_all
    also have "\<dots> = splice_at d (unat (dy_off dy)) (dyn_bytes tags (Suc y))"
      unfolding s dyn_bytes_Suc using room y(2) by (subst splice_adjacent) simp_all
    finally show "I (ys @ [y]) s'" by (simp add: I_def y(1))
  qed
  then show ?thesis by (simp add: I_def)
qed

text \<open>Every slot is written, so all of them are in the file.\<close>

lemma write_dynamic_room:
  assumes "write_dynamic d dy tags = Inr out" and "vec_ok d" and "0 < dy_slots dy"
    and nw: "unat (dy_off dy) + DYN_SIZE * dy_slots dy < 2 ^ 64"
  shows "unat (dy_off dy) + DYN_SIZE * dy_slots dy \<le> length d"
proof -
  define I where "I = (\<lambda>(is :: nat list) (o' :: bytes). length o' = length d
    \<and> (is \<noteq> [] \<longrightarrow> unat (dy_off dy) + DYN_SIZE * length is \<le> length d))"
  have "I [0..<dy_slots dy] out"
  proof (rule foldE_inv [OF assms(1) [unfolded write_dynamic_def Let_def]])
    show "I [] d" by (simp add: I_def)
  next
    fix ys y zs s s'
    let ?kv = "if y < length tags then tags ! y else (0, 0)"
    assume xs: "[0..<dy_slots dy] = ys @ y # zs" and I: "I ys s"
      and st: "bindE (put s (dy_off dy + of_nat (y * DYN_SIZE)) 8 (fst ?kv)) (\<lambda>o'.
          put o' (dy_off dy + of_nat (y * DYN_SIZE) + 8) 8 (snd ?kv)) = Inr s'"
    have y: "y = length ys" "y < dy_slots dy" using upt_split [OF xs] by simp_all
    have ok: "vec_ok s" "length s = length d" using I assms(2) by (simp_all add: I_def vec_ok_def)
    obtain o' where o': "put s (dy_off dy + of_nat (y * DYN_SIZE)) 8 (fst ?kv) = Inr o'"
      "put o' (dy_off dy + of_nat (y * DYN_SIZE) + 8) 8 (snd ?kv) = Inr s'" using st by auto
    have fr: "vec_ok o'" "length o' = length d"
      using only_changes_ok [OF put_spec(2) [OF o'(1) ok(1)] ok(1)] ok(2) by simp_all
    then have l: "length s' = length d"
      using only_changes_ok [OF put_spec(2) [OF o'(2) fr(1)] fr(1)] by simp
    have "unat (of_nat (y * DYN_SIZE) :: u64) = y * DYN_SIZE"
      using nw y(2) by (subst unsigned_of_nat) (simp add: take_bit_nat_eq_self)
    then have "unat (dy_off dy + of_nat (y * DYN_SIZE)) = unat (dy_off dy) + DYN_SIZE * y"
      using nw y(2) by (subst unat_add_le) auto
    then have "unat (dy_off dy + of_nat (y * DYN_SIZE) + 8) = unat (dy_off dy) + DYN_SIZE * y + 8"
      using nw y(2) by (subst unat_add_le) auto
    then show "I (ys @ [y]) s'"
      using put_spec(1) [OF o'(2) fr(1)] fr(2) l by (simp add: I_def y(1))
  qed
  then show ?thesis using assms(3) by (simp add: I_def)
qed

end
