(* ===== verification/Relr_Image.thy ===== *)
theory Relr_Image
  imports Relr_Writes
begin

text \<open>
  The contract of \<open>--relr\<close>: after the in-place part of the rewrite a loader that applies DT_RELR
  computes the words that DT_RELA gave before, at every load address, finds the kept relocations
  and the new table through \<open>.dynamic\<close>, and sees no other byte changed.
\<close>

section \<open>Addresses and file positions\<close>

definition is_load :: "phdr \<Rightarrow> bool" where
  "is_load p \<longleftrightarrow> p_type p = PT_LOAD"

definition seg_addrs :: "phdr \<Rightarrow> nat set" where
  "seg_addrs p = {unat (p_vaddr p)..<unat (p_vaddr p) + unat (p_filesz p)}"

definition seg_bytes :: "phdr \<Rightarrow> nat set" where
  "seg_bytes p = {unat (p_offset p)..<unat (p_offset p) + unat (p_filesz p)}"

text \<open>Loadable segments that do not wrap around and share neither addresses nor file bytes.\<close>

definition wf_loads :: "elf \<Rightarrow> bool" where
  "wf_loads e \<longleftrightarrow>
     (\<forall>p \<in> set (phdrs e). is_load p \<longrightarrow>
        unat (p_vaddr p) + unat (p_filesz p) < 2 ^ 64 \<and> unat (p_offset p) + unat (p_filesz p) < 2 ^ 64)
     \<and> (\<forall>i j. i < j \<longrightarrow> j < length (phdrs e) \<longrightarrow> is_load (phdrs e ! i) \<longrightarrow> is_load (phdrs e ! j) \<longrightarrow>
          seg_addrs (phdrs e ! i) \<inter> seg_addrs (phdrs e ! j) = {}
          \<and> seg_bytes (phdrs e ! i) \<inter> seg_bytes (phdrs e ! j) = {})"

text \<open>The file position of the byte a loader maps at the address \<open>v\<close>.\<close>

definition file_pos :: "elf \<Rightarrow> nat \<Rightarrow> nat option" where
  "file_pos e v =
     map_option (\<lambda>p. unat (p_offset p) + (v - unat (p_vaddr p)))
       (find (\<lambda>p. is_load p \<and> v \<in> seg_addrs p) (phdrs e))"

lemma wf_loads_same:
  assumes "wf_loads e" and "p \<in> set (phdrs e)" and "q \<in> set (phdrs e)" and "is_load p" and "is_load q"
    and "v \<in> seg_addrs p \<and> v \<in> seg_addrs q \<or> v \<in> seg_bytes p \<and> v \<in> seg_bytes q"
  shows "p = q"
proof -
  obtain i j where ij: "i < length (phdrs e)" "p = phdrs e ! i" "j < length (phdrs e)" "q = phdrs e ! j"
    using assms(2,3) by (auto simp: in_set_conv_nth)
  have "seg_addrs p \<inter> seg_addrs q = {} \<and> seg_bytes p \<inter> seg_bytes q = {}" if "i \<noteq> j"
    using that assms(1,4,5) ij unfolding wf_loads_def by (metis Int_commute linorder_neqE_nat)
  with assms(6) ij show ?thesis by blast
qed

lemma file_pos_Some:
  assumes "wf_loads e"
  shows "file_pos e v = Some f \<longleftrightarrow>
    (\<exists>p \<in> set (phdrs e). is_load p \<and> v \<in> seg_addrs p \<and> f = unat (p_offset p) + (v - unat (p_vaddr p)))"
proof
  assume "file_pos e v = Some f"
  then obtain p where f: "find (\<lambda>p. is_load p \<and> v \<in> seg_addrs p) (phdrs e) = Some p"
    and p: "f = unat (p_offset p) + (v - unat (p_vaddr p))"
    by (auto simp: file_pos_def)
  from f have "p \<in> set (phdrs e) \<and> is_load p \<and> v \<in> seg_addrs p"
    by (auto simp: find_Some_iff in_set_conv_nth)
  with p show "\<exists>p \<in> set (phdrs e). is_load p \<and> v \<in> seg_addrs p \<and> f = unat (p_offset p) + (v - unat (p_vaddr p))"
    by blast
next
  assume "\<exists>p \<in> set (phdrs e). is_load p \<and> v \<in> seg_addrs p \<and> f = unat (p_offset p) + (v - unat (p_vaddr p))"
  then obtain p where p: "p \<in> set (phdrs e)" "is_load p" "v \<in> seg_addrs p"
    and f: "f = unat (p_offset p) + (v - unat (p_vaddr p))" by blast
  then obtain q where q: "find (\<lambda>p. is_load p \<and> v \<in> seg_addrs p) (phdrs e) = Some q"
    by (cases "find (\<lambda>p. is_load p \<and> v \<in> seg_addrs p) (phdrs e)") (auto simp: find_None_iff)
  then have "q \<in> set (phdrs e) \<and> is_load q \<and> v \<in> seg_addrs q"
    by (auto simp: find_Some_iff in_set_conv_nth)
  then have "q = p" using wf_loads_same [OF assms, of q p v] p by blast
  then show "file_pos e v = Some f" using q f by (simp add: file_pos_def)
qed

lemma file_pos_inj:
  assumes "wf_loads e" and "file_pos e v = Some f" and "file_pos e w = Some f"
  shows "v = w"
proof -
  obtain p q where p: "p \<in> set (phdrs e)" "is_load p" "v \<in> seg_addrs p" "f = unat (p_offset p) + (v - unat (p_vaddr p))"
    and q: "q \<in> set (phdrs e)" "is_load q" "w \<in> seg_addrs q" "f = unat (p_offset q) + (w - unat (p_vaddr q))"
    using assms by (auto simp: file_pos_Some)
  then have "f \<in> seg_bytes p \<and> f \<in> seg_bytes q" by (auto simp: seg_bytes_def seg_addrs_def)
  then have "p = q" using wf_loads_same [OF assms(1)] p q by blast
  then show ?thesis using p q by (auto simp: seg_addrs_def)
qed

lemma load_range_Some:
  assumes "load_range e a len = Some (i, off)" and "wf_loads e"
  shows "unat a + unat len < 2 ^ 64" and "i < length (phdrs e)"
    and "unat (p_vaddr (phdrs e ! i)) \<le> unat a"
    and "unat off = unat (p_offset (phdrs e ! i)) + (unat a - unat (p_vaddr (phdrs e ! i)))"
    and "unat a + unat len \<le> unat (p_vaddr (phdrs e ! i)) + unat (p_filesz (phdrs e ! i))"
    and "\<And>k. k < unat len \<Longrightarrow> file_pos e (unat a + k) = Some (unat off + k)"
proof -
  obtain en where en: "checked_add a len = Some en" "position (in_load a en) (phdrs e) = Some i"
    "checked_add (p_offset (phdrs e ! i)) (a - p_vaddr (phdrs e ! i)) = Some off"
    using assms(1) by (auto simp: load_range_def bind_eq_Some_conv)
  let ?p = "phdrs e ! i"
  have un: "unat en = unat a + unat len" using en(1) by (simp add: checked_add_Some)
  show lt: "unat a + unat len < 2 ^ 64" by (simp flip: un)
  have i: "i < length (phdrs e)" and il: "in_load a en ?p" using en(2) by (auto simp: position_Some)
  show "i < length (phdrs e)" by (rule i)
  then have mem: "?p \<in> set (phdrs e)" by simp
  have ld: "is_load ?p" and lo: "p_vaddr ?p \<le> a" and hi: "en \<le> sat_add (p_vaddr ?p) (p_filesz ?p)"
    using il by (auto simp: in_load_def is_load_def)
  have nw: "unat (p_vaddr ?p) + unat (p_filesz ?p) < 2 ^ 64"
    using assms(2) mem ld by (simp add: wf_loads_def)
  show lo': "unat (p_vaddr ?p) \<le> unat a" using lo by (simp add: word_le_nat_alt)
  show off: "unat off = unat (p_offset ?p) + (unat a - unat (p_vaddr ?p))"
    using en(3) lo by (simp add: checked_add_Some unat_sub)
  show hi': "unat a + unat len \<le> unat (p_vaddr ?p) + unat (p_filesz ?p)"
    using hi nw un by (simp add: word_le_nat_alt unat_sat_add)
  show "file_pos e (unat a + k) = Some (unat off + k)" if "k < unat len" for k
    unfolding file_pos_Some [OF assms(2)]
    using that mem ld lo' hi' off by (intro bexI [of _ ?p]) (auto simp: seg_addrs_def)
qed

lemma load_range_load: "load_range e a len = Some (i, off) \<Longrightarrow> wf_loads e \<Longrightarrow> is_load (phdrs e ! i)"
  by (auto simp: load_range_def bind_eq_Some_conv position_Some in_load_def is_load_def)

lemma ranges_apart:
  assumes "wf_loads e" and "load_range e a la = Some (i, oa)" and "load_range e b lb = Some (j, ob)"
    and "{unat a..<unat a + unat la} \<inter> {unat b..<unat b + unat lb} = {}"
  shows "{unat oa..<unat oa + unat la} \<inter> {unat ob..<unat ob + unat lb} = {}"
proof (rule ccontr)
  assume "\<not> ?thesis"
  then obtain x where "x \<in> {unat oa..<unat oa + unat la}" "x \<in> {unat ob..<unat ob + unat lb}" by blast
  then have x: "unat oa \<le> x" "x < unat oa + unat la" "unat ob \<le> x" "x < unat ob + unat lb" by auto
  then have "file_pos e (unat a + (x - unat oa)) = Some x" "file_pos e (unat b + (x - unat ob)) = Some x"
    using load_range_Some(6) [OF assms(2,1), of "x - unat oa"]
      load_range_Some(6) [OF assms(3,1), of "x - unat ob"] by simp_all
  then have "unat a + (x - unat oa) = unat b + (x - unat ob)" by (rule file_pos_inj [OF assms(1)])
  moreover have "unat a + (x - unat oa) \<in> {unat a..<unat a + unat la}" unfolding atLeastLessThan_iff using x by linarith
  moreover have "unat b + (x - unat ob) \<in> {unat b..<unat b + unat lb}" unfolding atLeastLessThan_iff using x by linarith
  ultimately show False using assms(4) by auto
qed

section \<open>The overlap test\<close>

lemma overlaps_apart:
  assumes "\<not> overlaps os lo len" and "sorted_wrt (<) os" and "a \<in> set os"
    and "unat a + 8 < 2 ^ 64" and "unat lo + unat len < 2 ^ 64"
  shows "{unat a..<unat a + 8} \<inter> {unat lo..<unat lo + unat len} = {}"
proof -
  let ?P = "\<lambda>a. sat_add a 8 \<le> lo"
  have mono: "\<forall>i j. i < j \<longrightarrow> j < length os \<longrightarrow> ?P (os ! j) \<longrightarrow> ?P (os ! i)"
  proof (intro allI impI)
    fix i j assume "i < j" "j < length os" "?P (os ! j)"
    then have "os ! i < os ! j" using assms(2) by (simp add: sorted_wrt_iff_nth_less)
    then have "sat_add (os ! i) 8 \<le> sat_add (os ! j) 8" by (simp add: word_le_nat_alt word_less_nat_alt unat_sat_add)
    with \<open>?P (os ! j)\<close> show "?P (os ! i)" by simp
  qed
  note pp = partition_point_spec [OF mono]
  obtain i where i: "i < length os" "a = os ! i" using assms(3) by (auto simp: in_set_conv_nth)
  show ?thesis
  proof (cases "i < partition_point ?P os")
    case True
    then have "?P a" using pp i by simp
    then show ?thesis using assms(4) by (auto simp: word_le_nat_alt unat_sat_add)
  next
    case False
    then have "partition_point ?P os < length os" using i by simp
    then have "sat_add lo len \<le> os ! partition_point ?P os"
      using assms(1) by (auto simp: overlaps_def Let_def not_less)
    moreover have "os ! partition_point ?P os \<le> a"
      using False i assms(2) by (cases "partition_point ?P os = i") (auto simp: sorted_wrt_iff_nth_less less_imp_le)
    ultimately have "unat lo + unat len \<le> unat a"
      using assms(5) by (simp add: word_le_nat_alt unat_sat_add)
    then show ?thesis by auto
  qed
qed

section \<open>Loading\<close>

text \<open>The word at the address \<open>a\<close> of the loaded image, before relocation.\<close>

definition image_word :: "bytes \<Rightarrow> elf \<Rightarrow> u64 \<Rightarrow> u64" where
  "image_word d e a = field d (the (file_pos e (unat a))) 8"

text \<open>What a loader stores at load address \<open>b\<close>: RELA carries the addend, RELR takes it from the
  relocated word.\<close>

fun apply_rela :: "u64 \<Rightarrow> (u64 \<times> u64) list \<Rightarrow> (u64 \<Rightarrow> u64) \<Rightarrow> u64 \<Rightarrow> u64" where
  "apply_rela b [] m = m"
| "apply_rela b ((a, addend) # rs) m = apply_rela b rs (m(a := b + addend))"

fun apply_relr :: "u64 \<Rightarrow> u64 list \<Rightarrow> (u64 \<Rightarrow> u64) \<Rightarrow> u64 \<Rightarrow> u64" where
  "apply_relr b [] m = m"
| "apply_relr b (a # as) m = apply_relr b as (m(a := m a + b))"

lemma apply_rela_other: "a \<notin> fst ` set rs \<Longrightarrow> apply_rela b rs m a = m a"
  by (induction b rs m rule: apply_rela.induct) auto

lemma apply_rela_value:
  assumes "\<forall>r \<in> set rs. fst r = a \<longrightarrow> snd r = ad" and "a \<in> fst ` set rs"
  shows "apply_rela b rs m a = b + ad"
  using assms
proof (induction b rs m rule: apply_rela.induct)
  case (2 b x y rs m)
  then show ?case by (cases "a \<in> fst ` set rs") (auto simp: apply_rela_other fun_upd_def)
qed simp

lemma apply_relr_value:
  "distinct as \<Longrightarrow> apply_relr b as m a = (if a \<in> set as then m a + b else m a)"
  by (induction b as m rule: apply_relr.induct) auto

text \<open>The relocations of the table that are packed, as pairs of address and addend.\<close>

definition relative_relocs :: "packed_rel list \<Rightarrow> (u64 \<times> u64) list" where
  "relative_relocs ps = map (\<lambda>p. (pk_addr p, pk_addend p)) ps"

lemma relocated_alike:
  assumes "sorted_offsets ps = Inr (u, os)" and "decode_relr ws = os"
    and "\<And>p. p \<in> set u \<Longrightarrow> m' (pk_addr p) = pk_addend p"
    and "a \<notin> set os \<Longrightarrow> m' a = m a"
  shows "apply_relr b (decode_relr ws) m' a = apply_rela b (relative_relocs ps) m a"
proof (cases "a \<in> set os")
  case True
  note so = sorted_offsets_spec [OF assms(1)]
  have dist: "distinct os" using so(2) by (simp add: strict_sorted_iff)
  obtain p where p: "p \<in> set u" "a = pk_addr p" using True so(1) by auto
  have "snd r = pk_addend p" if r: "r \<in> set (relative_relocs ps)" "fst r = a" for r
  proof -
    obtain q where q: "q \<in> set ps" "r = (pk_addr q, pk_addend q)" using r by (auto simp: relative_relocs_def)
    then obtain q' where q': "q' \<in> set u" "pk_addr q' = pk_addr p" "pk_addend q' = pk_addend q"
      using so(4) [of q] r p(2) by auto
    have "q' = p"
      using q' p dist so(1) by (auto simp: distinct_map inj_on_def)
    then show ?thesis using q q' by simp
  qed
  moreover have "a \<in> fst ` set (relative_relocs ps)"
    using p so(3) by (auto simp: relative_relocs_def image_image)
  ultimately have "apply_rela b (relative_relocs ps) m a = b + pk_addend p"
    by (intro apply_rela_value) auto
  moreover have "apply_relr b (decode_relr ws) m' a = pk_addend p + b"
    using True dist assms(2,3) p by (simp add: apply_relr_value)
  ultimately show ?thesis by (simp add: add.commute)
next
  case False
  note so = sorted_offsets_spec [OF assms(1)]
  have "a \<notin> fst ` set (relative_relocs ps)"
    using False so(1) by (auto simp: relative_relocs_def image_iff dest!: so(4))
  moreover have "distinct os" using so(2) by (simp add: strict_sorted_iff)
  ultimately show ?thesis using False assms(2,4) by (simp add: apply_relr_value apply_rela_other)
qed

end
