(* ===== verification/Relr_Pack.thy ===== *)
theory Relr_Pack
  imports Relr_Image
begin

text \<open>
  \<open>pack_relative\<close> as a whole: what it has checked when it rewrites the file, and what a loader
  finds in the file it writes.
\<close>

section \<open>The plan\<close>

text \<open>The intermediate results of \<open>pack_relative\<close> that \<open>rewrite\<close> gets; \<open>ps\<close> are the packed
  relocations in the order of the table.\<close>

record relr_plan =
  pl_elf :: elf
  pl_dyn :: dynamic
  pl_tab :: rela_tab
  pl_rels :: "packed_rel list"
  pl_split :: split_rels
  pl_offsets :: "u64 list"
  pl_tags :: "(u64 \<times> u64) list"

abbreviation pl_words :: "relr_plan \<Rightarrow> u64 list" where
  "pl_words pl \<equiv> encode_relr (pl_offsets pl)"

definition planned :: "bytes \<Rightarrow> relr_plan \<Rightarrow> bool" where
  "planned d pl \<longleftrightarrow>
     (\<exists>rel sp u. relative_type d = Inr rel \<and> parse d = Inr (pl_elf pl)
        \<and> read_dynamic d (pl_elf pl) = Inr (pl_dyn pl)
        \<and> rela_table d (pl_elf pl) (pl_dyn pl) = Inr (pl_tab pl)
        \<and> split_relocs d (pl_elf pl) (pl_tab pl) rel = Inr sp
        \<and> pl_rels pl = packed sp
        \<and> sorted_offsets (packed sp) = Inr (u, pl_offsets pl)
        \<and> pl_split pl = sp\<lparr>packed := u\<rparr>
        \<and> check_targets d (pl_elf pl) (pl_dyn pl) (pl_tab pl) (keep sp) (pl_offsets pl) = Inr ()
        \<and> new_tags (pl_dyn pl) (pl_tab pl) (pl_split pl) (length (pl_words pl)) = Inr (pl_tags pl))"

lemma pack_relative_planned:
  assumes "pack_relative d allow = Inr (out, rep)"
  shows "\<exists>pl. planned d pl \<and>
    rewrite d (pl_elf pl) (pl_dyn pl) (pl_tab pl) (pl_split pl) (pl_words pl) (pl_tags pl) = Inr (out, rep)"
proof -
  obtain rel e dy t sp u os tags where
    "relative_type d = Inr rel" "parse d = Inr e" "read_dynamic d e = Inr dy" "rela_table d e dy = Inr t"
    "split_relocs d e t rel = Inr sp" "sorted_offsets (packed sp) = Inr (u, os)"
    "check_targets d e dy t (keep sp) os = Inr ()"
    "new_tags dy t (sp\<lparr>packed := u\<rparr>) (length (encode_relr os)) = Inr tags"
    "rewrite d e dy t (sp\<lparr>packed := u\<rparr>) (encode_relr os) tags = Inr (out, rep)"
    using assms by (auto simp: pack_relative_def Let_def split: if_splits)
  then show ?thesis
    by (intro exI [of _ "\<lparr>pl_elf = e, pl_dyn = dy, pl_tab = t, pl_rels = packed sp,
          pl_split = sp\<lparr>packed := u\<rparr>, pl_offsets = os, pl_tags = tags\<rparr>"])
      (auto simp: planned_def)
qed

text \<open>The address ranges of the old table and of \<open>.dynamic\<close>.\<close>

definition table_addrs :: "relr_plan \<Rightarrow> nat set" where
  "table_addrs pl = {unat (t_addr (pl_tab pl))..<unat (t_addr (pl_tab pl)) + unat (t_size (pl_tab pl))}"

definition dyn_addrs :: "relr_plan \<Rightarrow> nat set" where
  "dyn_addrs pl = {unat (dy_addr (pl_dyn pl))..<unat (dy_addr (pl_dyn pl)) + DYN_SIZE * dy_slots (pl_dyn pl)}"

text \<open>The file bytes of the section headers and of the section name table.\<close>

definition header_bytes :: "elf \<Rightarrow> nat set" where
  "header_bytes e =
     (\<Union>s \<in> set (shdrs e). {unat (sh_at s)..<unat (sh_at s) + SHDR_SIZE})
     \<union> (case nth_opt (shdrs e) (e_shstrndx (eh e)) of None \<Rightarrow> {}
        | Some st \<Rightarrow> {unat (sh_offset st)..<unat (sh_offset st) + unat (sh_size st)})"

text \<open>What the code does not check: the loadable segments are apart, \<open>.dynamic\<close> lies where its
  address says and not in the table, and section headers and section names are not loaded.\<close>

definition usual_layout :: "relr_plan \<Rightarrow> bool" where
  "usual_layout pl \<longleftrightarrow>
     wf_loads (pl_elf pl)
     \<and> (\<exists>j. load_range (pl_elf pl) (dy_addr (pl_dyn pl)) (of_nat (DYN_SIZE * dy_slots (pl_dyn pl)))
              = Some (j, dy_off (pl_dyn pl)))
     \<and> table_addrs pl \<inter> dyn_addrs pl = {}
     \<and> (\<forall>v f. file_pos (pl_elf pl) v = Some f \<longrightarrow> f \<notin> header_bytes (pl_elf pl))"

section \<open>Where the parsed headers lie\<close>

lemma get_le: "get d off n = Inr v \<Longrightarrow> vec_ok d \<Longrightarrow> n \<le> 8 \<Longrightarrow> unat off + n \<le> length d"
  by (simp add: get_Inr)

lemma unat_small_add:
  assumes "unat (a :: u64) < 2 ^ 63" and "n < 2 ^ 63"
  shows "unat (a + of_nat n) = unat a + n"
proof -
  have "unat (of_nat n :: u64) = n" using assms by (simp add: unat_of_nat)
  then show ?thesis using assms by (subst unat_add_le) auto
qed

lemma read_shdr_in_file:
  assumes "read_shdr d at = Inr s" and "vec_ok d"
  shows "sh_at s = at \<and> unat at < 2 ^ 63"
  using assms by (auto simp: read_shdr_def vec_ok_def dest!: get_le [OF _ assms(2)])

lemma parse_shdrs:
  assumes "parse d = Inr e" and "vec_ok d" and "s \<in> set (shdrs e)"
  shows "unat (sh_at s) < 2 ^ 63"
proof -
  obtain h where "read_shdrs d h = Inr (shdrs e)"
    using assms(1) by (auto simp: parse_def split: if_splits)
  then have "\<exists>i. read_shdr d (e_shoff h + of_nat (i * SHDR_SIZE)) = Inr s"
    using assms(3) by (auto simp: read_shdrs_def mapE_Inr in_set_conv_nth split: if_splits)
  then show ?thesis using read_shdr_in_file [OF _ assms(2)] by metis
qed

section \<open>The section header\<close>

lemma put_fields_frame:
  assumes "put_fields at fs d = Inr d'" and "vec_ok d" and "unat at < 2 ^ 63"
    and "\<forall>(off, w, v) \<in> set fs. off + w \<le> 64 \<and> w \<le> 8"
  shows "only_changes d d' {unat at..<unat at + 64}"
proof (rule foldE_inv [OF assms(1) [unfolded put_fields_def]])
  show "only_changes d d {unat at..<unat at + 64}" by simp
next
  fix ys y zs s s'
  assume fs: "fs = ys @ y # zs" and I: "only_changes d s {unat at..<unat at + 64}"
    and st: "(case y of (off, w, v) \<Rightarrow> \<lambda>out. put out (at + of_nat off) w v) s = Inr s'"
  obtain off w v where y: "y = (off, w, v)" using prod_cases3 by blast
  have b: "off + w \<le> 64" "w \<le> 8" using assms(4) fs y by auto
  have u: "unat (at + of_nat off) = unat at + off" using unat_small_add [OF assms(3)] b by simp
  have "only_changes s s' {unat at + off..<unat at + off + w}"
    using put_spec(2) [of s "at + of_nat off" w v s'] st y b only_changes_vec_ok [OF I] assms(2) u by simp
  then show "only_changes d s' {unat at..<unat at + 64}"
    by (rule only_changes_trans [OF I]) (use b in auto)
qed

lemma rename_header_frame:
  assumes "rename_header d e sec = Inr (d', r)" and "vec_ok d"
    and at: "\<And>s. s \<in> set (shdrs e) \<Longrightarrow> unat (sh_at s) < 2 ^ 63"
  shows "only_changes d d' (header_bytes e)"
proof (cases "nth_opt (shdrs e) (e_shstrndx (eh e))")
  case None
  then show ?thesis using assms(1) by (simp add: rename_header_def)
next
  case (Some st)
  obtain strs s where st: "span d (sh_offset st) (sh_size st) = Inr strs"
    and s: "nth_opt (shdrs e) sec = Some s"
    using assms(1) Some by (auto simp: rename_header_def)
  have smem: "s \<in> set (shdrs e)" using s by (auto simp: nth_opt_def split: if_splits)
  have strs: "unat (sh_offset st) + unat (sh_size st) \<le> length d" "length strs = unat (sh_size st)"
    using st by (auto simp: span_Inr [OF assms(2)])
  show ?thesis
  proof (cases "find_string strs RELR_NAME")
    case (Some p)
    then have "put d (sh_at s) 4 (of_nat p) = Inr d'"
      using assms(1) \<open>nth_opt (shdrs e) (e_shstrndx (eh e)) = _\<close> st s by (auto simp: rename_header_def)
    from put_spec(2) [OF this assms(2)] show ?thesis
      by (rule only_changes_mono) (use smem in \<open>auto simp: header_bytes_def intro!: bexI [of _ s]\<close>)
  next
    case None
    let ?base = "sh_offset st + sh_name s"
    show ?thesis
    proof (cases "d' = d")
      case False
      then have n: "slice_get strs (sh_name s) (sh_name s + of_nat (length RELA_NAME)) = Some RELA_NAME"
        and d': "d' = splice_at d (unat ?base) RELR_NAME"
        using assms(1) \<open>nth_opt (shdrs e) (e_shstrndx (eh e)) = _\<close> st s None
        by (auto simp: rename_header_def Let_def split: if_splits)
      have "unat (sh_name s + 10) \<le> unat (sh_size st)" "unat (sh_name s + 10) - unat (sh_name s) = 10"
        using n strs(2) slice_get_length [OF n] by (auto simp: slice_get_def RELA_NAME_def split: if_splits)
      then have nm: "unat (sh_name s) + 10 \<le> unat (sh_size st)" by linarith
      then have b: "unat ?base = unat (sh_offset st) + unat (sh_name s)"
        using strs(1) assms(2) by (subst unat_add_le) (auto simp: vec_ok_def)
      have "only_changes d d' {unat ?base..<unat ?base + 10}"
      proof -
        have "length RELR_NAME = 10" by (simp add: RELR_NAME_def)
        then show ?thesis
          unfolding d' using only_changes_splice [of "unat ?base" RELR_NAME d] nm b strs(1) by simp
      qed
      then show ?thesis
        by (rule only_changes_mono) (use Some nm b in \<open>auto simp: header_bytes_def\<close>)
    qed simp
  qed
qed

lemma update_rela_header_frame:
  assumes "update_rela_header d e t sp sz = Inr (d', note)" and "vec_ok d"
    and at: "\<And>s. s \<in> set (shdrs e) \<Longrightarrow> unat (sh_at s) < 2 ^ 63"
  shows "only_changes d d' (header_bytes e)"
proof (cases "case t_sec t of None \<Rightarrow> None | Some i \<Rightarrow> map_option (Pair i) (nth_opt (shdrs e) i)")
  case None
  then show ?thesis using assms(1) by (simp add: update_rela_header_def)
next
  case (Some r)
  then obtain i s where i: "r = (i, s)" "s \<in> set (shdrs e)"
    by (auto simp: nth_opt_def split: option.splits if_splits)
  have sub: "{unat (sh_at s)..<unat (sh_at s) + 64} \<subseteq> header_bytes e"
    using i(2) by (auto simp: header_bytes_def intro!: bexI [of _ s])
  show ?thesis
  proof (cases "keep sp = []")
    case False
    then have "put d (sh_at s + of_nat 32) 8 (of_nat (length (keep sp))) = Inr d'"
      using assms(1) Some i(1) by (simp add: update_rela_header_def)
    from put_spec(2) [OF this assms(2)] unat_small_add [OF at [OF i(2)], of 32]
    have "only_changes d d' {unat (sh_at s) + 32..<unat (sh_at s) + 40}" by (simp add: ac_simps)
    then show ?thesis by (rule only_changes_mono) (use sub in force)
  next
    case True
    then obtain fs d1 q where "put_fields (sh_at s) fs d = Inr d1" "rename_header d1 e i = Inr (d', q)"
      "\<forall>(off, w, v) \<in> set fs. off + w \<le> 64 \<and> w \<le> 8"
      using assms(1) Some i(1) by (fastforce simp: update_rela_header_def)
    note f = put_fields_frame [OF this(1) assms(2) at [OF i(2)] this(3)]
      and r = rename_header_frame [OF this(2) _ at]
    show ?thesis
      using only_changes_trans [OF f r] only_changes_vec_ok [OF f] assms(2) sub by simp
  qed
qed

section \<open>The rewritten file\<close>

text \<open>The facts of a plan that the checks of the code establish.\<close>

lemma read_tags_spec:
  assumes "read_tags d at n = Inr ts"
  shows "length ts \<le> n" and "\<forall>(k, v) \<in> set ts. k \<noteq> DT_NULL"
  using assms by (induction d at n arbitrary: ts rule: read_tags.induct) (force split: if_splits)+

lemma rela_table_facts:
  assumes "rela_table d e dy = Inr t"
  shows "load_range e (t_addr t) (t_size t) = Some (t_seg t, t_off t)" and "t_size t mod 24 = 0"
    and "tag dy DT_RELR = None" and "tag dy DT_RELA = Some (t_addr t)"
    and "tag dy DT_RELASZ = Some (t_size t)" and "tag dy DT_RELAENT = Some (of_nat RELA_SIZE)"
  using assms by (auto simp: rela_table_def Let_def del: mod_0_imp_dvd split: if_splits option.splits)

lemma planned_offsets:
  assumes "planned d pl" and "vec_ok d" and "wf_loads (pl_elf pl)"
  shows "sorted_wrt (<) (pl_offsets pl)" and "\<And>a. a \<in> set (pl_offsets pl) \<Longrightarrow> a mod 8 = 0"
    and "pl_offsets pl = map pk_addr (packed (pl_split pl))"
    and "\<And>p. p \<in> set (packed (pl_split pl)) \<Longrightarrow>
      \<exists>i. load_range (pl_elf pl) (pk_addr p) 8 = Some (i, pk_off p)"
    and "decode_relr (pl_words pl) = pl_offsets pl"
    and "\<exists>j. load_range (pl_elf pl) (t_addr (pl_tab pl)) (t_size (pl_tab pl)) = Some (j, t_off (pl_tab pl))"
    and "unat (t_off (pl_tab pl)) + unat (t_size (pl_tab pl)) \<le> length d"
    and "length (keep (pl_split pl)) + 8 * length (pl_words pl) \<le> unat (t_size (pl_tab pl))"
    and "\<exists>u. sorted_offsets (pl_rels pl) = Inr (u, pl_offsets pl) \<and> u = packed (pl_split pl)"
proof -
  let ?t = "pl_tab pl" and ?e = "pl_elf pl"
  obtain rel sp u where rt: "rela_table d ?e (pl_dyn pl) = Inr ?t"
    and sp: "split_relocs d ?e ?t rel = Inr sp" and rels: "pl_rels pl = packed sp"
    and so: "sorted_offsets (packed sp) = Inr (u, pl_offsets pl)" and ps: "pl_split pl = sp\<lparr>packed := u\<rparr>"
    using assms(1) by (auto simp: planned_def)
  show "\<exists>j. load_range ?e (t_addr ?t) (t_size ?t) = Some (j, t_off ?t)" using rela_table_facts(1) [OF rt] by blast
  have dv: "24 dvd unat (t_size ?t)"
    using rela_table_facts(2) [OF rt] by (simp only: word_unat_eq_iff unat_mod dvd_eq_mod_eq_0) simp
  have "0 < unat (t_size ?t) div 24"
  proof (rule ccontr)
    assume "\<not> ?thesis"
    then show False using sp by (auto simp: split_relocs_def split: if_splits)
  qed
  have "unat (t_off ?t) \<le> length d"
  proof (rule ccontr)
    assume far: "\<not> ?thesis"
    obtain n where "unat (t_size ?t) div 24 = Suc n" using \<open>0 < unat (t_size ?t) div 24\<close> gr0_conv_Suc by blast
    then obtain r where "span d (t_off ?t) 24 = Inr r"
      using sp by (auto simp: split_relocs_def split_entry_def upt_conv_Cons simp del: upt_Suc)
    then show False using far by (simp add: span_Inr [OF assms(2)])
  qed
  note spec = split_relocs_spec [OF sp assms(2) this] and fit = tables_fit [OF sp assms(2) this so]
  note sof = sorted_offsets_spec [OF so]
  show "unat (t_off ?t) + unat (t_size ?t) \<le> length d" using spec(2) dv by simp
  show "length (keep (pl_split pl)) + 8 * length (pl_words pl) \<le> unat (t_size ?t)"
    and "decode_relr (pl_words pl) = pl_offsets pl"
    using fit by (simp_all add: ps)
  show "sorted_wrt (<) (pl_offsets pl)" "pl_offsets pl = map pk_addr (packed (pl_split pl))"
    using sof by (simp_all add: ps)
  show "\<exists>u. sorted_offsets (pl_rels pl) = Inr (u, pl_offsets pl) \<and> u = packed (pl_split pl)"
    using so rels ps by simp
  have pk: "pk_addr p mod 8 = 0 \<and> (\<exists>i. load_range ?e (pk_addr p) 8 = Some (i, pk_off p))"
    if "p \<in> set (packed (pl_split pl))" for p
  proof -
    have "p \<in> set (packed sp)" using that sof(3) ps by auto
    then obtain rw where "is_packed ?e rel rw" "p = packed_of ?e rel rw"
      by (auto simp: spec(1) split_of_def Let_def)
    then show ?thesis by (auto simp: is_packed_def packed_of_def packable_def split: if_splits)
  qed
  then show "\<And>p. p \<in> set (packed (pl_split pl)) \<Longrightarrow> \<exists>i. load_range ?e (pk_addr p) 8 = Some (i, pk_off p)"
    by blast
  show "a mod 8 = 0" if "a \<in> set (pl_offsets pl)" for a
    using that pk sof(1) ps by auto
qed

end
