(* ===== verification/Relr_Loader.thy ===== *)
theory Relr_Loader
  imports Relr_Pack
begin

text \<open>
  What a loader finds in the file that the in-place part of \<open>rewrite\<close> leaves: the relocated words,
  the other bytes, the two relocation tables and the entries of \<open>.dynamic\<close>.
\<close>

section \<open>The ranges that are written\<close>

definition words_range :: "relr_plan \<Rightarrow> nat set" where
  "words_range pl = \<Union>(word_span ` set (packed (pl_split pl)))"

definition table_range :: "relr_plan \<Rightarrow> nat set" where
  "table_range pl = {unat (t_off (pl_tab pl))..<unat (t_off (pl_tab pl)) + unat (t_size (pl_tab pl))}"

definition dyn_range :: "relr_plan \<Rightarrow> nat set" where
  "dyn_range pl = {unat (dy_off (pl_dyn pl))..<unat (dy_off (pl_dyn pl)) + DYN_SIZE * dy_slots (pl_dyn pl)}"

lemma dyn_size:
  assumes "read_dynamic d e = Inr dy"
  shows "unat (of_nat (DYN_SIZE * dy_slots dy) :: u64) = DYN_SIZE * dy_slots dy"
proof -
  obtain ph where "dy_slots dy = unat (p_filesz (ph :: phdr)) div DYN_SIZE"
    using assms by (fastforce simp: read_dynamic_def Let_def)
  then have "DYN_SIZE * dy_slots dy \<le> unat (p_filesz ph)" by simp
  then have "DYN_SIZE * dy_slots dy < 2 ^ 64" using lt64I [of _ "p_filesz ph"] by fastforce
  then show ?thesis by (subst unsigned_of_nat) (simp add: take_bit_nat_eq_self)
qed

lemma check_targets_apart:
  assumes "check_targets d e dy t kept os = Inr ()"
  shows "\<not> overlaps os (t_addr t) (t_size t)"
    and "\<not> overlaps os (dy_addr dy) (of_nat (dy_slots dy * DYN_SIZE))"
  using assms by (auto simp: check_targets_def split: if_splits)

text \<open>A range of addresses that starts in the image lies in the file, at file positions.\<close>

lemma range_positions:
  assumes "load_range e a len = Some (i, off)" and "wf_loads e" and "x \<in> {unat off..<unat off + unat len}"
  shows "file_pos e (unat a + (x - unat off)) = Some x"
  using load_range_Some(6) [OF assms(1,2), of "x - unat off"] assms(3) by auto

lemma range_not_in:
  assumes "load_range e a len = Some (i, off)" and "wf_loads e"
    and "\<forall>v f. file_pos e v = Some f \<longrightarrow> f \<notin> H"
  shows "{unat off..<unat off + unat len} \<inter> H = {}"
  using range_positions [OF assms(1,2)] assms(3) by blast

lemma aligned_words_apart:
  assumes "a mod 8 = 0" and "b mod 8 = 0" and "a \<noteq> (b :: u64)"
  shows "{unat a..<unat a + 8} \<inter> {unat b..<unat b + 8} = {}"
proof -
  have "8 dvd unat a" "8 dvd unat b" "unat a \<noteq> unat b"
    using assms by (auto simp: aligned_unat dest: word_unat_eq_iff [THEN iffD2])
  then have "unat a + 8 \<le> unat b \<or> unat b + 8 \<le> unat a" by presburger
  then show ?thesis by auto
qed

text \<open>The situation in which \<open>rewrite\<close> runs on a usual file.\<close>

definition ready :: "bytes \<Rightarrow> relr_plan \<Rightarrow> bool" where
  "ready d pl \<longleftrightarrow> vec_ok d \<and> planned d pl \<and> usual_layout pl"

lemma readyD:
  assumes "ready d pl"
  shows "vec_ok d" and "planned d pl" and "usual_layout pl" and "wf_loads (pl_elf pl)"
    and "\<exists>j. load_range (pl_elf pl) (dy_addr (pl_dyn pl)) (of_nat (DYN_SIZE * dy_slots (pl_dyn pl)))
      = Some (j, dy_off (pl_dyn pl))"
    and "unat (of_nat (DYN_SIZE * dy_slots (pl_dyn pl)) :: u64) = DYN_SIZE * dy_slots (pl_dyn pl)"
  using assms dyn_size by (auto simp: ready_def usual_layout_def planned_def)

lemmas plan_facts = planned_offsets [OF readyD(2,1,4)]

lemma words_apart:
  assumes rdy: "ready d pl" and "i < j" and "j < length (packed (pl_split pl))"
  shows "word_span (packed (pl_split pl) ! i) \<inter> word_span (packed (pl_split pl) ! j) = {}"
proof -
  note plan = plan_facts [OF rdy rdy rdy] and wf = readyD(4) [OF rdy]
  let ?p = "packed (pl_split pl) ! i" and ?q = "packed (pl_split pl) ! j"
  have "pk_addr ?p < pk_addr ?q"
    using plan(1) assms(2,3) by (simp add: plan(3) sorted_wrt_iff_nth_less)
  moreover have "pk_addr ?p mod 8 = 0" "pk_addr ?q mod 8 = 0"
    using plan(2) assms(2,3) by (simp_all add: plan(3))
  ultimately have "{unat (pk_addr ?p)..<unat (pk_addr ?p) + 8} \<inter> {unat (pk_addr ?q)..<unat (pk_addr ?q) + 8} = {}"
    by (intro aligned_words_apart) auto
  moreover obtain k l where "load_range (pl_elf pl) (pk_addr ?p) 8 = Some (k, pk_off ?p)"
    "load_range (pl_elf pl) (pk_addr ?q) 8 = Some (l, pk_off ?q)"
    using plan(4) [of ?p] plan(4) [of ?q] assms(2,3) by auto
  ultimately show ?thesis using ranges_apart [OF wf] by (fastforce simp: word_span_def)
qed

lemma ranges:
  assumes rdy: "ready d pl"
  shows "words_range pl \<inter> table_range pl = {}" and "words_range pl \<inter> dyn_range pl = {}"
    and "table_range pl \<inter> dyn_range pl = {}"
    and "(words_range pl \<union> table_range pl \<union> dyn_range pl) \<inter> header_bytes (pl_elf pl) = {}"
proof -
  note plan = plan_facts [OF rdy rdy rdy] and wf = readyD(4) [OF rdy] and layout = readyD(3) [OF rdy]
    and planned = readyD(2) [OF rdy] and dyn_load = readyD(5) [OF rdy] and dyn_bytes_size = readyD(6) [OF rdy]
  let ?e = "pl_elf pl" and ?t = "pl_tab pl" and ?dy = "pl_dyn pl"
  obtain j where tl: "load_range ?e (t_addr ?t) (t_size ?t) = Some (j, t_off ?t)" using plan(6) by blast
  obtain k where dl: "load_range ?e (dy_addr ?dy) (of_nat (DYN_SIZE * dy_slots ?dy)) = Some (k, dy_off ?dy)"
    using dyn_load by blast
  have not_header: "\<forall>v f. file_pos ?e v = Some f \<longrightarrow> f \<notin> header_bytes ?e"
    using layout by (simp add: usual_layout_def)
  have ct: "\<not> overlaps (pl_offsets pl) (t_addr ?t) (t_size ?t)"
    "\<not> overlaps (pl_offsets pl) (dy_addr ?dy) (of_nat (DYN_SIZE * dy_slots ?dy))"
    using planned check_targets_apart by (fastforce simp: planned_def mult.commute)+
  have w: "word_span p \<inter> table_range pl = {} \<and> word_span p \<inter> dyn_range pl = {}
      \<and> word_span p \<inter> header_bytes ?e = {}" if p: "p \<in> set (packed (pl_split pl))" for p
  proof -
    obtain i where pl: "load_range ?e (pk_addr p) 8 = Some (i, pk_off p)" using plan(4) [OF p] by blast
    have os: "pk_addr p \<in> set (pl_offsets pl)" using p by (simp add: plan(3))
    have lt: "unat (pk_addr p) + 8 < 2 ^ 64" using load_range_Some(1) [OF pl wf] by simp
    note ov = overlaps_apart [OF _ plan(1) os lt]
    have "word_span p \<inter> table_range pl = {}"
      using ranges_apart [OF wf pl tl] ov [OF ct(1) load_range_Some(1) [OF tl wf]]
      by (simp add: word_span_def table_range_def)
    moreover have "word_span p \<inter> dyn_range pl = {}"
      using ranges_apart [OF wf pl dl] ov [OF ct(2) load_range_Some(1) [OF dl wf]] dyn_bytes_size
      by (simp add: word_span_def dyn_range_def)
    moreover have "word_span p \<inter> header_bytes ?e = {}"
      using range_not_in [OF pl wf not_header] by (simp add: word_span_def)
    ultimately show ?thesis by blast
  qed
  then show "words_range pl \<inter> table_range pl = {}" "words_range pl \<inter> dyn_range pl = {}"
    by (auto simp: words_range_def)
  have "{unat (t_addr ?t)..<unat (t_addr ?t) + unat (t_size ?t)}
      \<inter> {unat (dy_addr ?dy)..<unat (dy_addr ?dy) + unat (of_nat (DYN_SIZE * dy_slots ?dy) :: u64)} = {}"
    using layout unfolding dyn_bytes_size by (simp add: usual_layout_def table_addrs_def dyn_addrs_def)
  from ranges_apart [OF wf tl dl this] show "table_range pl \<inter> dyn_range pl = {}"
    unfolding dyn_bytes_size by (simp add: table_range_def dyn_range_def)
  have "table_range pl \<inter> header_bytes ?e = {}"
    using range_not_in [OF tl wf not_header] by (simp add: table_range_def)
  moreover have "dyn_range pl \<inter> header_bytes ?e = {}"
    using range_not_in [OF dl wf not_header] unfolding dyn_bytes_size by (simp add: dyn_range_def)
  ultimately show "(words_range pl \<union> table_range pl \<union> dyn_range pl) \<inter> header_bytes ?e = {}"
    using w unfolding words_range_def by blast
qed

section \<open>What the writes leave\<close>

lemma take_drop_same:
  assumes "only_changes d d' S" and "S \<inter> {a..<a + n} = {}"
  shows "take n (drop a d') = take n (drop a d)"
  by (rule take_drop_cong) (use assms in \<open>auto simp: only_changes_def disjoint_iff\<close>)

lemma dyn_slots_pos: "ready d pl \<Longrightarrow> 0 < dy_slots (pl_dyn pl)"
  by (auto simp: ready_def planned_def new_tags_def Let_def split: if_splits)

lemma dyn_no_wrap:
  assumes "ready d pl"
  shows "unat (dy_off (pl_dyn pl)) + DYN_SIZE * dy_slots (pl_dyn pl) < 2 ^ 64"
proof -
  let ?e = "pl_elf pl" and ?dy = "pl_dyn pl"
  obtain j where "load_range ?e (dy_addr ?dy) (of_nat (DYN_SIZE * dy_slots ?dy)) = Some (j, dy_off ?dy)"
    using readyD(5) [OF assms] by blast
  note l = load_range_Some [OF this readyD(4) [OF assms]] load_range_load [OF this readyD(4) [OF assms]]
  have "unat (p_offset (phdrs ?e ! j)) + unat (p_filesz (phdrs ?e ! j)) < 2 ^ 64"
    using l(2,7) readyD(4) [OF assms] by (simp add: wf_loads_def)
  then show ?thesis using l(3-5) unfolding readyD(6) [OF assms] by linarith
qed

lemma in_place_summary:
  assumes rdy: "ready d pl"
    and run: "rewrite_in_place d (pl_elf pl) (pl_dyn pl) (pl_tab pl) (pl_split pl) (pl_words pl) (pl_tags pl)
      = Inr (out, n, end', hdr)"
  shows "only_changes d out (words_range pl \<union> table_range pl \<union> dyn_range pl \<union> header_bytes (pl_elf pl))"
    and "\<And>p. p \<in> set (packed (pl_split pl)) \<Longrightarrow> field out (unat (pk_off p)) 8 = pk_addend p"
    and "take (unat (t_size (pl_tab pl))) (drop (unat (t_off (pl_tab pl))) out)
      = new_table (keep (pl_split pl)) (pl_words pl) (unat (t_size (pl_tab pl)))"
    and "take (DYN_SIZE * dy_slots (pl_dyn pl)) (drop (unat (dy_off (pl_dyn pl))) out)
      = dyn_bytes (pl_tags pl) (dy_slots (pl_dyn pl))"
    and "unat end' = unat (t_off (pl_tab pl)) + length (keep (pl_split pl)) + 8 * length (pl_words pl)"
    and "unat (dy_off (pl_dyn pl)) + DYN_SIZE * dy_slots (pl_dyn pl) \<le> length d"
proof -
  let ?t = "pl_tab pl" and ?dy = "pl_dyn pl" and ?e = "pl_elf pl"
  let ?nt = "new_table (keep (pl_split pl)) (pl_words pl) (unat (t_size ?t))"
  let ?nd = "dyn_bytes (pl_tags pl) (dy_slots ?dy)"
  note plan = plan_facts [OF rdy rdy rdy] and ok = readyD(1) [OF rdy] and r = ranges [OF rdy]
  obtain d1 d2 d3 where w1: "write_addends d (packed (pl_split pl)) = Inr (d1, n)"
    and w2: "write_tables d1 ?t (keep (pl_split pl)) (pl_words pl) = Inr (d2, end')"
    and w3: "write_dynamic d2 ?dy (pl_tags pl) = Inr d3"
    and w4: "update_rela_header d3 ?e ?t (pl_split pl) (of_nat (length (pl_words pl)) * 8) = Inr (out, hdr)"
    using run by (auto simp: rewrite_in_place_def)
  have f1: "only_changes d d1 (words_range pl)"
    unfolding words_range_def by (rule write_addends_spec(1) [OF w1 ok]) (rule words_apart [OF rdy])
  have a1: "field d1 (unat (pk_off p)) 8 = pk_addend p" if "p \<in> set (packed (pl_split pl))" for p
    using write_addends_spec(2) [OF w1 ok _ that] words_apart [OF rdy] by blast
  have ok1: "vec_ok d1" and l1: "length d1 = length d"
    using only_changes_ok [OF f1 ok] by simp_all
  note a2 = write_tables_spec [OF w2 ok1 plan(7) [folded l1] plan(8)]
  have lt: "length ?nt = unat (t_size ?t)" by (rule length_new_table [OF plan(8)])
  have f2: "only_changes d1 d2 (table_range pl)"
    unfolding a2(1) table_range_def using only_changes_splice [of "unat (t_off ?t)" ?nt d1] lt plan(7) l1 by simp
  have ok2: "vec_ok d2" and l2: "length d2 = length d" using only_changes_ok [OF f2 ok1] l1 by simp_all
  obtain j where dl: "load_range ?e (dy_addr ?dy) (of_nat (DYN_SIZE * dy_slots ?dy)) = Some (j, dy_off ?dy)"
    using readyD(5) [OF rdy] by blast
  have room: "unat (dy_off ?dy) + DYN_SIZE * dy_slots ?dy \<le> length d"
    using write_dynamic_room [OF w3 ok2 dyn_slots_pos [OF rdy] dyn_no_wrap [OF rdy]] l2 by simp
  note a3 = write_dynamic_spec [OF w3 ok2 room [folded l2]]
  have f3: "only_changes d2 d3 (dyn_range pl)"
    unfolding a3 dyn_range_def using only_changes_splice [of "unat (dy_off ?dy)" ?nd d2] room l2 by simp
  have ok3: "vec_ok d3" and l3: "length d3 = length d" using only_changes_ok [OF f3 ok2] l2 by simp_all
  have pe: "parse d = Inr ?e" using readyD(2) [OF rdy] by (auto simp: planned_def)
  have f4: "only_changes d3 out (header_bytes ?e)"
    by (rule update_rela_header_frame [OF w4 ok3]) (rule parse_shdrs [OF pe ok])
  have f23: "only_changes d1 d3 (table_range pl \<union> dyn_range pl)" by (rule only_changes_trans [OF f2 f3]) blast
  have f34: "only_changes d2 out (dyn_range pl \<union> header_bytes ?e)" by (rule only_changes_trans [OF f3 f4]) blast
  have f24: "only_changes d1 out (table_range pl \<union> dyn_range pl \<union> header_bytes ?e)"
    by (rule only_changes_trans [OF f23 f4]) blast
  show "only_changes d out (words_range pl \<union> table_range pl \<union> dyn_range pl \<union> header_bytes ?e)"
    by (rule only_changes_trans [OF f1 f24]) auto
  show "field out (unat (pk_off p)) 8 = pk_addend p" if p: "p \<in> set (packed (pl_split pl))" for p
  proof -
    have "word_span p \<subseteq> words_range pl" using p by (auto simp: words_range_def)
    then have "(table_range pl \<union> dyn_range pl \<union> header_bytes ?e) \<inter> word_span p = {}" using r by blast
    from only_changes_field [OF f24 this [unfolded word_span_def]] a1 [OF p] show ?thesis by simp
  qed
  have "(dyn_range pl \<union> header_bytes ?e) \<inter> table_range pl = {}" using r by blast
  from take_drop_same [OF f34 this [unfolded table_range_def]]
  show "take (unat (t_size ?t)) (drop (unat (t_off ?t)) out) = ?nt"
    using take_drop_splice [of "unat (t_off ?t)" ?nt d1] a2(1) lt plan(7) l1 by simp
  have "header_bytes ?e \<inter> dyn_range pl = {}" using r by blast
  from take_drop_same [OF f4 this [unfolded dyn_range_def]]
  show "take (DYN_SIZE * dy_slots ?dy) (drop (unat (dy_off ?dy)) out) = ?nd"
    using take_drop_splice [of "unat (dy_off ?dy)" ?nd d2] a3 room l2 by simp
  show "unat end' = unat (t_off ?t) + length (keep (pl_split pl)) + 8 * length (pl_words pl)" by (rule a2(2))
  show "unat (dy_off ?dy) + DYN_SIZE * dy_slots ?dy \<le> length d" by (rule room)
qed

section \<open>The loaded image\<close>

lemma unat_8: "unat (8 :: u64) = 8"
  by simp

lemma in_file_apart:
  assumes rdy: "ready d pl" and a: "load_range (pl_elf pl) a 8 = Some (i, off)" and al: "a mod 8 = 0"
    and other: "a \<notin> set (pl_offsets pl)"
    and apart: "{unat a..<unat a + 8} \<inter> (table_addrs pl \<union> dyn_addrs pl) = {}"
  shows "(words_range pl \<union> table_range pl \<union> dyn_range pl \<union> header_bytes (pl_elf pl)) \<inter> {unat off..<unat off + 8} = {}"
proof -
  let ?e = "pl_elf pl" and ?t = "pl_tab pl" and ?dy = "pl_dyn pl" and ?A = "{unat off..<unat off + 8}"
  note plan = plan_facts [OF rdy rdy rdy] and wf = readyD(4) [OF rdy]
  have "word_span p \<inter> ?A = {}" if p: "p \<in> set (packed (pl_split pl))" for p
  proof -
    have "{unat (pk_addr p)..<unat (pk_addr p) + 8} \<inter> {unat a..<unat a + 8} = {}"
      using p other plan(2) al by (intro aligned_words_apart) (auto simp: plan(3))
    moreover obtain k where "load_range ?e (pk_addr p) 8 = Some (k, pk_off p)" using plan(4) [OF p] by blast
    ultimately show ?thesis using ranges_apart [OF wf _ a] by (fastforce simp: word_span_def)
  qed
  then have "words_range pl \<inter> ?A = {}" unfolding words_range_def by blast
  moreover obtain j where tl: "load_range ?e (t_addr ?t) (t_size ?t) = Some (j, t_off ?t)" using plan(6) by blast
  have "{unat (t_addr ?t)..<unat (t_addr ?t) + unat (t_size ?t)} \<inter> {unat a..<unat a + unat (8 :: u64)} = {}"
    using apart unfolding table_addrs_def unat_8 by blast
  from ranges_apart [OF wf tl a this] have "table_range pl \<inter> ?A = {}"
    by (simp only: table_range_def unat_8)
  moreover obtain k where dl: "load_range ?e (dy_addr ?dy) (of_nat (DYN_SIZE * dy_slots ?dy)) = Some (k, dy_off ?dy)"
    using readyD(5) [OF rdy] by blast
  have "{unat (dy_addr ?dy)..<unat (dy_addr ?dy) + unat (of_nat (DYN_SIZE * dy_slots ?dy) :: u64)}
      \<inter> {unat a..<unat a + unat (8 :: u64)} = {}"
    using apart unfolding dyn_addrs_def unat_8 readyD(6) [OF rdy] by blast
  from ranges_apart [OF wf dl a this] have "dyn_range pl \<inter> ?A = {}"
    by (simp only: dyn_range_def unat_8 readyD(6) [OF rdy])
  moreover have "header_bytes ?e \<inter> ?A = {}"
    using range_not_in [OF a wf, of "header_bytes ?e"] readyD(3) [OF rdy]
    by (auto simp: usual_layout_def)
  ultimately show ?thesis by blast
qed

lemma image_word_at:
  assumes "load_range e a 8 = Some (i, off)" and "wf_loads e"
  shows "image_word d e a = field d (unat off) 8"
  using load_range_Some(6) [OF assms, of 0] by (simp add: image_word_def)

text \<open>C7. Packing does not change what a program sees after loading. At every load address \<open>b\<close> a
  loader that applies DT_RELR to the rewritten file computes, for every word-aligned file-backed
  word outside the relocation table and \<open>.dynamic\<close>, the word that the packed relocations of the
  original table gave, and words that no relocation of them patches are unchanged.\<close>

theorem relr_loads_alike:
  assumes rdy: "ready d pl"
    and run: "rewrite_in_place d (pl_elf pl) (pl_dyn pl) (pl_tab pl) (pl_split pl) (pl_words pl) (pl_tags pl)
      = Inr (out, n, end', hdr)"
    and a: "load_range (pl_elf pl) a 8 = Some (i, off)" and al: "a mod 8 = 0"
    and apart: "{unat a..<unat a + 8} \<inter> (table_addrs pl \<union> dyn_addrs pl) = {}"
  shows "apply_relr b (decode_relr (pl_words pl)) (image_word out (pl_elf pl)) a
    = apply_rela b (relative_relocs (pl_rels pl)) (image_word d (pl_elf pl)) a"
proof -
  note plan = plan_facts [OF rdy rdy rdy] and wf = readyD(4) [OF rdy] and sm = in_place_summary [OF rdy run]
  obtain u where so: "sorted_offsets (pl_rels pl) = Inr (u, pl_offsets pl)" "u = packed (pl_split pl)"
    using plan(9) by blast
  show ?thesis
  proof (rule relocated_alike [OF so(1) plan(5)])
    fix p assume p: "p \<in> set u"
    then obtain k where "load_range (pl_elf pl) (pk_addr p) 8 = Some (k, pk_off p)" using plan(4) so(2) by blast
    then show "image_word out (pl_elf pl) (pk_addr p) = pk_addend p"
      using image_word_at [OF _ wf] sm(2) p so(2) by simp
  next
    assume "a \<notin> set (pl_offsets pl)"
    from only_changes_field [OF sm(1) in_file_apart [OF rdy a al this apart]]
    show "image_word out (pl_elf pl) a = image_word d (pl_elf pl) a"
      by (simp add: image_word_at [OF a wf])
  qed
qed

end
