(* ===== verification/Relr_Dynamic.thy ===== *)
theory Relr_Dynamic
  imports Relr_Loader
begin

text \<open>
  What a loader reads from \<open>.dynamic\<close> and from the old table after the rewrite: the planned
  entries, the kept relocations under DT_RELA and the RELR words under DT_RELR.
\<close>

section \<open>Fields of byte lists\<close>







section \<open>Reading the array\<close>


section \<open>The new entries\<close>





end
