(* ===== verification/Relr_Drain.thy ===== *)
theory Relr_Drain
  imports Relr_Loader
begin

text \<open>
  The drain of \<open>src/format/elf/relr.rs\<close>: the bytes that leave the file lie behind the new tables
  and belong to no segment, section or header table; every segment keeps its bytes and its
  address, and moves in the file by a multiple of its alignment.
\<close>

section \<open>The plan\<close>

lemma fold_min_le: "fold min xs a \<le> (a :: u64)"
proof (induction xs arbitrary: a)
  case (Cons x xs)
  show ?case using Cons.IH [of "min x a"] by simp
qed simp

lemma fold_min_ge: "n \<le> a \<Longrightarrow> (\<forall>x \<in> set xs. n \<le> x) \<Longrightarrow> n \<le> fold min xs (a :: u64)"
  by (induction xs arbitrary: a) auto

lemma fold_max_ge: "a \<le> fold max xs (a :: u64)"
proof (induction xs arbitrary: a)
  case (Cons x xs)
  show ?case using Cons.IH [of "max x a"] by simp
qed simp

lemma fold_max_upper: "x \<in> set xs \<Longrightarrow> x \<le> fold max xs (a :: u64)"
proof (induction xs arbitrary: a)
  case (Cons y ys)
  then show ?case using fold_max_ge [of "max y a" ys] by (auto intro: order_trans)
qed simp

lemma fold_max_cases: "fold max xs a = a \<or> fold max xs a \<in> set (xs :: u64 list)"
proof (induction xs arbitrary: a)
  case (Cons y ys)
  then show ?case by (auto simp: max_def split: if_splits)
qed simp

definition drain_next :: "drain \<Rightarrow> u64" where
  "drain_next dr = cut dr + dlen dr"

lemma not_hit:
  assumes "\<not> hit lo hi off len" and "0 < len" and "unat lo < 2 ^ 63"
  shows "hi \<le> off \<or> unat off + unat len \<le> unat lo"
proof (cases "hi \<le> off")
  case False
  then have "sat_add off len \<le> lo" using assms by (simp add: hit_def not_le)
  then have "min (unat off + unat len) (2 ^ 64 - 1) \<le> unat lo"
    by (simp add: word_le_nat_alt unat_sat_add)
  then show ?thesis using assms(3) by (auto simp: min_def split: if_splits)
qed simp

lemma plan_drain_facts:
  assumes "plan_drain d e t end' = Inr dr" and "vec_ok d"
    and fit: "unat end' \<le> unat (t_off t) + unat (t_size t)"
    and room: "unat (t_off t) + unat (t_size t) \<le> length d"
  shows "unat (drain_next dr) = unat (cut dr) + unat (dlen dr)" and "unat end' \<le> unat (cut dr)"
    and "unat (drain_next dr) \<le> length d" and "0 < unat (dlen dr)"
    and "new_end dr = end'" and "dseg dr = t_seg t" and "t_seg t < length (phdrs e)"
    and "straddler d e t end' (drain_next dr) = None"
    and "unat (shift_align e (drain_next dr)) dvd unat (dlen dr)"
proof -
  let ?old = "t_off t + t_size t"
  define nxt where "nxt = next_content e ?old (data_len d)"
  define al where "al = shift_align e nxt"
  obtain seg where seg: "nth_opt (phdrs e) (t_seg t) = Some seg"
    and st: "straddler d e t end' nxt = None" and ln: "(nxt - end') div al * al \<noteq> 0"
    and dr: "dr = \<lparr>cut = nxt - (nxt - end') div al * al, dlen = (nxt - end') div al * al,
        dseg = t_seg t, new_end = end'\<rparr>"
    using assms(1) by (auto simp: plan_drain_def Let_def nxt_def al_def split: if_splits option.splits)
  have old: "unat ?old = unat (t_off t) + unat (t_size t)"
    using room assms(2) by (subst unat_add_le) (auto simp: vec_ok_def)
  have len: "unat (data_len d) = length d" by (rule vec_ok_unat [OF assms(2)])
  have lo: "?old \<le> nxt"
    unfolding nxt_def next_content_def fold_min_def
    by (rule fold_min_ge) (use room old len in \<open>auto simp: word_le_nat_alt\<close>)
  have hi: "nxt \<le> data_len d" unfolding nxt_def next_content_def fold_min_def by (rule fold_min_le)
  have "unat end' \<le> unat nxt" using fit old lo by (simp add: word_le_nat_alt)
  then have sub: "unat (nxt - end') = unat nxt - unat end'" by (simp add: unat_sub word_le_nat_alt)
  have "unat ((nxt - end') div al) * unat al \<le> unat (nxt - end')" by (simp add: unat_div)
  then have l: "unat ((nxt - end') div al * al) = unat (nxt - end') div unat al * unat al"
    using lt64I [of _ "nxt - end'"] by (simp add: unat_word_ariths unat_div)
  then have le: "unat ((nxt - end') div al * al) \<le> unat nxt - unat end'" using sub by simp
  then have c: "unat (nxt - (nxt - end') div al * al) = unat nxt - unat ((nxt - end') div al * al)"
    by (intro unat_sub) (simp add: word_le_nat_alt)
  have nx: "drain_next dr = nxt" by (simp add: drain_next_def dr)
  show "unat (drain_next dr) = unat (cut dr) + unat (dlen dr)" using nx c le by (simp add: dr)
  show "unat end' \<le> unat (cut dr)" using c le \<open>unat end' \<le> unat nxt\<close> by (simp add: dr)
  show "unat (drain_next dr) \<le> length d" using nx hi len by (simp add: word_le_nat_alt)
  show "0 < unat (dlen dr)" using ln by (simp add: dr unat_gt_0)
  show "new_end dr = end'" "dseg dr = t_seg t" by (simp_all add: dr)
  show "t_seg t < length (phdrs e)" using seg by (simp add: nth_opt_def split: if_splits)
  show "straddler d e t end' (drain_next dr) = None" using st nx by simp
  show "unat (shift_align e (drain_next dr)) dvd unat (dlen dr)"
    unfolding nx using l by (simp add: dr al_def)
qed

text \<open>Where the plan found nothing: no other segment, section or header table with file bytes
  meets the range from the end of the new tables to the next content.\<close>

lemma straddler_None:
  assumes "straddler d e t lo hi = None"
  shows "\<And>i. i < length (phdrs e) \<Longrightarrow> i \<noteq> t_seg t \<Longrightarrow> \<not> hit lo hi (p_offset (phdrs e ! i)) (p_filesz (phdrs e ! i))"
    and "\<not> hit lo hi (e_phoff (eh e)) (phdrs_len e)" and "\<not> hit lo hi (e_shoff (eh e)) (shdrs_len e)"
  using assms by (auto simp: straddler_def find_None_iff split: option.splits if_splits)

section \<open>The header fields\<close>

text \<open>The file bytes of the fields that \<open>apply_drain\<close> may write.\<close>

definition phdr_span :: "phdr \<Rightarrow> nat set" where
  "phdr_span p = {unat (ph_at p)..<unat (ph_at p) + PHDR_SIZE}"

definition shdr_span :: "shdr \<Rightarrow> nat set" where
  "shdr_span s = {unat (sh_at s)..<unat (sh_at s) + SHDR_SIZE}"

definition header_fields :: "elf \<Rightarrow> nat set" where
  "header_fields e = {32..<48} \<union> \<Union>(phdr_span ` set (phdrs e)) \<union> \<Union>(shdr_span ` set (shdrs e))"

text \<open>The header and the two tables are apart.\<close>

definition tables_apart :: "elf \<Rightarrow> bool" where
  "tables_apart e \<longleftrightarrow>
     (\<forall>i j. i < j \<longrightarrow> j < length (phdrs e) \<longrightarrow> phdr_span (phdrs e ! i) \<inter> phdr_span (phdrs e ! j) = {})
     \<and> (\<forall>p \<in> set (phdrs e). phdr_span p \<inter> ({32..<48} \<union> \<Union>(shdr_span ` set (shdrs e))) = {})
     \<and> (\<forall>p \<in> set (phdrs e). unat (ph_at p) < 2 ^ 63) \<and> (\<forall>s \<in> set (shdrs e). unat (sh_at s) < 2 ^ 63)"

definition drained :: "drain \<Rightarrow> u64 \<Rightarrow> u64" where
  "drained dr off = (if drain_next dr \<le> off then off - dlen dr else off)"

text \<open>The fields of one program header after the drain.\<close>

definition phdr_drained :: "drain \<Rightarrow> bytes \<Rightarrow> nat \<Rightarrow> phdr \<Rightarrow> bool" where
  "phdr_drained dr out i p \<longleftrightarrow>
     (if i = dseg dr then field out (unat (ph_at p) + 32) 8 = new_end dr - p_offset p
        \<and> field out (unat (ph_at p) + 40) 8 = new_end dr - p_offset p
      else drain_next dr \<le> p_offset p \<longrightarrow> field out (unat (ph_at p) + 8) 8 = drained dr (p_offset p))"

lemma phdr_drained_frame:
  assumes "phdr_drained dr out i p" and "only_changes out out' S" and "S \<inter> phdr_span p = {}"
  shows "phdr_drained dr out' i p"
proof -
  have "field out' (unat (ph_at p) + k) 8 = field out (unat (ph_at p) + k) 8" if "k + 8 \<le> 56" for k
    by (rule only_changes_field [OF assms(2)]) (use assms(3) that in \<open>auto simp: phdr_span_def\<close>)
  then show ?thesis using assms(1) by (simp add: phdr_drained_def)
qed

lemma drain_phdr_spec:
  assumes "drain_phdr dr (i, p) out = Inr out'" and "vec_ok out" and "unat (ph_at p) < 2 ^ 63"
  shows "only_changes out out' (phdr_span p)" and "phdr_drained dr out' i p"
proof -
  have at: "unat (ph_at p + 8) = unat (ph_at p) + 8" "unat (ph_at p + 32) = unat (ph_at p) + 32"
    "unat (ph_at p + 40) = unat (ph_at p) + 40"
    using unat_small_add [OF assms(3), of 8] unat_small_add [OF assms(3), of 32]
      unat_small_add [OF assms(3), of 40] by simp_all
  have "only_changes out out' (phdr_span p) \<and> phdr_drained dr out' i p"
  proof (cases "i = dseg dr")
    case True
    then obtain o1 where o1: "put out (ph_at p + 32) 8 (new_end dr - p_offset p) = Inr o1"
      and o2: "put o1 (ph_at p + 40) 8 (new_end dr - p_offset p) = Inr out'"
      using assms(1) by (auto simp: drain_phdr_def)
    note p1 = put_spec [OF o1 assms(2) order_refl, unfolded at]
    have ok1: "vec_ok o1" using only_changes_ok [OF p1(2) assms(2)] by simp
    note p2 = put_spec [OF o2 ok1 order_refl, unfolded at]
    have "field out' (unat (ph_at p) + 32) 8 = field o1 (unat (ph_at p) + 32) 8"
      by (rule only_changes_field [OF p2(2)]) auto
    moreover have "only_changes out out' (phdr_span p)"
      by (rule only_changes_trans [OF p1(2) p2(2)]) (auto simp: phdr_span_def)
    ultimately show ?thesis using p1(3) p2(3) True by (simp add: phdr_drained_def)
  next
    case False
    show ?thesis
    proof (cases "drain_next dr \<le> p_offset p")
      case True
      then have o1: "put out (ph_at p + 8) 8 (drained dr (p_offset p)) = Inr out'"
        using assms(1) False by (simp add: drain_phdr_def drain_next_def drained_def)
      note p1 = put_spec [OF o1 assms(2) order_refl, unfolded at]
      have "only_changes out out' (phdr_span p)"
        by (rule only_changes_mono [OF p1(2)]) (auto simp: phdr_span_def)
      then show ?thesis using p1(3) False by (simp add: phdr_drained_def)
    qed (use assms(1) False in \<open>simp add: drain_phdr_def phdr_drained_def drain_next_def\<close>)
  qed
  then show "only_changes out out' (phdr_span p)" and "phdr_drained dr out' i p" by auto
qed

lemma zip_upt_split:
  assumes "zip [0..<length xs] xs = ys @ y # zs"
  shows "y = (length ys, xs ! length ys)" and "length ys < length xs"
    and "snd ` set ys = set (take (length ys) xs)"
proof -
  have l: "length xs = length ys + Suc (length zs)" using arg_cong [OF assms, of length] by simp
  then show "length ys < length xs" by simp
  have "y = zip [0..<length xs] xs ! length ys" unfolding assms by simp
  then show "y = (length ys, xs ! length ys)" using l by (simp del: upt_Suc)
  have "take (length ys) (zip [0..<length xs] xs) = ys" unfolding assms by simp
  then have "map snd ys = take (length ys) xs"
    using l by (metis length_map map_nth map_snd_zip take_map length_upt diff_zero)
  then show "snd ` set ys = set (take (length ys) xs)" by (metis list.set_map)
qed

lemma drain_phdrs_spec:
  assumes "foldE (drain_phdr dr) (zip [0..<length (phdrs e)] (phdrs e)) out = Inr out'"
    and "vec_ok out" and ap: "tables_apart e"
  shows "only_changes out out' (\<Union>(phdr_span ` set (phdrs e)))"
    and "\<And>i. i < length (phdrs e) \<Longrightarrow> phdr_drained dr out' i (phdrs e ! i)"
proof -
  define I where "I = (\<lambda>ys o'. only_changes out o' (\<Union>(phdr_span ` set (take (length (ys :: (nat \<times> phdr) list)) (phdrs e))))
    \<and> (\<forall>i < length ys. phdr_drained dr o' i (phdrs e ! i)))"
  have "I (zip [0..<length (phdrs e)] (phdrs e)) out'"
  proof (rule foldE_inv [OF assms(1)])
    show "I [] out" by (simp add: I_def)
  next
    fix ys y zs s s'
    assume xs: "zip [0..<length (phdrs e)] (phdrs e) = ys @ y # zs" and I: "I ys s" and st: "drain_phdr dr y s = Inr s'"
    let ?n = "length ys" and ?p = "phdrs e ! length ys"
    note y = zip_upt_split [OF xs]
    have fr: "only_changes out s (\<Union>(phdr_span ` set (take ?n (phdrs e))))" using I by (simp add: I_def)
    have ok: "vec_ok s" using only_changes_ok [OF fr assms(2)] by simp
    have "unat (ph_at ?p) < 2 ^ 63" using ap y(2) by (simp add: tables_apart_def)
    note sp = drain_phdr_spec [OF st [unfolded y(1)] ok this]
    have "phdr_drained dr s' i (phdrs e ! i)" if "i < ?n" for i
    proof (rule phdr_drained_frame [OF _ sp(1)])
      show "phdr_drained dr s i (phdrs e ! i)" using I that by (simp add: I_def)
      show "phdr_span ?p \<inter> phdr_span (phdrs e ! i) = {}"
        using ap that y(2) unfolding tables_apart_def by (metis Int_commute)
    qed
    moreover have "only_changes out s' (\<Union>(phdr_span ` set (take (Suc ?n) (phdrs e))))"
      by (rule only_changes_trans [OF fr sp(1)]) (use y(2) in \<open>auto simp: take_Suc_conv_app_nth\<close>)
    ultimately show "I (ys @ [y]) s'" using sp(2) by (auto simp: I_def less_Suc_eq)
  qed
  then show "only_changes out out' (\<Union>(phdr_span ` set (phdrs e)))"
    and "\<And>i. i < length (phdrs e) \<Longrightarrow> phdr_drained dr out' i (phdrs e ! i)"
    by (auto simp: I_def)
qed

lemma drain_shdrs_frame:
  assumes "foldE (drain_shdr dr) ss out = Inr out'" and "vec_ok out"
    and "\<forall>s \<in> set ss. unat (sh_at s) < 2 ^ 63"
  shows "only_changes out out' (\<Union>(shdr_span ` set ss))"
proof (rule foldE_inv [OF assms(1), of "\<lambda>_ s. only_changes out s (\<Union>(shdr_span ` set ss))"])
  show "only_changes out out (\<Union>(shdr_span ` set ss))" by simp
next
  fix ys y zs s s'
  assume xs: "ss = ys @ y # zs" and I: "only_changes out s (\<Union>(shdr_span ` set ss))"
    and st: "drain_shdr dr y s = Inr s'"
  have ok: "vec_ok s" using only_changes_ok [OF I assms(2)] by simp
  have at: "unat (sh_at y + 24) = unat (sh_at y) + 24"
    using unat_small_add [of "sh_at y" 24] assms(3) xs by simp
  show "only_changes out s' (\<Union>(shdr_span ` set ss))"
  proof (cases "cut dr + dlen dr \<le> sh_offset y")
    case True
    then have "put s (sh_at y + 24) 8 (sh_offset y - dlen dr) = Inr s'" using st by (simp add: drain_shdr_def)
    from put_spec(2) [OF this ok order_refl] show ?thesis
      unfolding at by (rule only_changes_trans [OF I]) (auto simp: xs shdr_span_def)
  qed (use st I in \<open>simp add: drain_shdr_def\<close>)
qed

section \<open>The drained file\<close>

text \<open>Where a byte of the file goes.\<close>

definition moved :: "drain \<Rightarrow> nat \<Rightarrow> nat" where
  "moved dr f = (if f < unat (cut dr) then f else f - unat (dlen dr))"

lemma drained_file:
  assumes "d' = take c d @ drop (c + l) d" and "c + l \<le> length d" and "f < length d"
    and "f < c \<or> c + l \<le> f"
  shows "d' ! (if f < c then f else f - l) = d ! f"
  using assms by (auto simp: nth_append)

lemma apply_drain_spec:
  assumes "apply_drain out e dr = Inr out'" and "vec_ok out" and ap: "tables_apart e"
    and nx: "unat (drain_next dr) = unat (cut dr) + unat (dlen dr)"
  shows "\<exists>out1. only_changes out out1 (header_fields e)
    \<and> (\<forall>i < length (phdrs e). phdr_drained dr out1 i (phdrs e ! i))
    \<and> unat (drain_next dr) \<le> length out1
    \<and> out' = take (unat (cut dr)) out1 @ drop (unat (drain_next dr)) out1"
proof -
  let ?P = "\<Union>(phdr_span ` set (phdrs e))" and ?S = "\<Union>(shdr_span ` set (shdrs e))"
  obtain o1 o2 o3 o4 where s1: "foldE (drain_phdr dr) (zip [0..<length (phdrs e)] (phdrs e)) out = Inr o1"
    and s2: "foldE (drain_shdr dr) (shdrs e) o1 = Inr o2"
    and s3: "(if 0 < e_shnum (eh e) \<and> cut dr + dlen dr \<le> e_shoff (eh e)
             then put o2 40 8 (e_shoff (eh e) - dlen dr) else Inr o2) = Inr o3"
    and s4: "(if cut dr + dlen dr \<le> e_phoff (eh e) then put o3 32 8 (e_phoff (eh e) - dlen dr) else Inr o3) = Inr o4"
    and en: "(if data_len o4 < drain_next dr then Inl DrainPastEnd
        else Inr (take (unat (cut dr)) o4 @ drop (unat (drain_next dr)) o4)) = Inr out'"
    using assms(1) unfolding apply_drain_def Let_def drain_next_def bindE_Inr by blast
  have s5: "\<not> data_len o4 < drain_next dr" "out' = take (unat (cut dr)) o4 @ drop (unat (drain_next dr)) o4"
    using en by (auto split: if_splits)
  note f1 = drain_phdrs_spec [OF s1 assms(2) ap]
  have ok1: "vec_ok o1" using only_changes_ok [OF f1(1) assms(2)] by simp
  have f2: "only_changes o1 o2 ?S"
    by (rule drain_shdrs_frame [OF s2 ok1]) (use ap in \<open>simp add: tables_apart_def\<close>)
  have ok2: "vec_ok o2" using only_changes_ok [OF f2 ok1] by simp
  have f3: "only_changes o2 o3 {32..<48}"
    using s3 by (auto split: if_splits intro: put_within [OF _ ok2, of 40 8])
  have ok3: "vec_ok o3" using only_changes_ok [OF f3 ok2] by simp
  have f4: "only_changes o3 o4 {32..<48}"
    using s4 by (auto split: if_splits intro: put_within [OF _ ok3, of 32 8])
  have ok4: "vec_ok o4" using only_changes_ok [OF f4 ok3] by simp
  have f34: "only_changes o2 o4 {32..<48}" by (rule only_changes_trans [OF f3 f4]) blast
  have f24: "only_changes o1 o4 ({32..<48} \<union> ?S)" by (rule only_changes_trans [OF f2 f34]) blast
  show ?thesis
  proof (intro exI [of _ o4] conjI allI impI)
    show "only_changes out o4 (header_fields e)"
      by (rule only_changes_trans [OF f1(1) f24]) (auto simp: header_fields_def)
    show "phdr_drained dr o4 i (phdrs e ! i)" if "i < length (phdrs e)" for i
    proof (rule phdr_drained_frame [OF f1(2) [OF that] f24])
      show "({32..<48} \<union> ?S) \<inter> phdr_span (phdrs e ! i) = {}"
        using ap that unfolding tables_apart_def by (metis Int_commute nth_mem)
    qed
    show "unat (drain_next dr) \<le> length o4"
      using s5(1) vec_ok_unat [OF ok4] by (simp add: word_less_nat_alt)
    show "out' = take (unat (cut dr)) o4 @ drop (unat (drain_next dr)) o4" by (rule s5(2))
  qed
qed

text \<open>Alignments are powers of two, as the format demands, or absent.\<close>

definition wf_aligns :: "elf \<Rightarrow> bool" where
  "wf_aligns e \<longleftrightarrow> (\<forall>p \<in> set (phdrs e). p_align p = 0 \<or> (\<exists>m. unat (p_align p) = 2 ^ m))"

lemma shift_align_multiple:
  assumes "wf_aligns e" and "p \<in> set (phdrs e)" and "0 < p_filesz p" and "from \<le> p_offset p"
  shows "unat (p_align p) = 0 \<or> unat (p_align p) dvd unat (shift_align e from)"
proof -
  let ?as = "map p_align (filter (\<lambda>p. 0 < p_filesz p \<and> from \<le> p_offset p) (phdrs e))"
  have "p_align p \<le> fold max ?as 0x1000" by (rule fold_max_upper) (use assms in auto)
  then have le: "unat (p_align p) \<le> unat (shift_align e from)"
    by (simp add: shift_align_def fold_max_def word_le_nat_alt)
  have "fold max ?as 0x1000 = 0x1000 \<or> fold max ?as 0x1000 \<in> set ?as" by (rule fold_max_cases)
  then have "shift_align e from = 0 \<or> (\<exists>m. unat (shift_align e from) = 2 ^ m)"
    using assms(1) unfolding shift_align_def fold_max_def wf_aligns_def
    by (auto intro: exI [of _ 12])
  moreover have "shift_align e from \<noteq> 0"
    using fold_max_ge [of "0x1000" ?as] by (auto simp: shift_align_def fold_max_def)
  ultimately obtain m where m: "unat (shift_align e from) = 2 ^ m" by auto
  show ?thesis
  proof (cases "p_align p = 0")
    case False
    then obtain k where "unat (p_align p) = 2 ^ k" using assms(1,2) by (auto simp: wf_aligns_def)
    then show ?thesis using le m by (simp add: le_imp_power_dvd)
  qed simp
qed

lemma drained_field:
  assumes "d' = take c d @ drop (c + l) d" and "c + l \<le> length d" and "a + n \<le> c \<or> c + l \<le> a" and "0 < n"
  shows "field d' (if a < c then a else a - l) n = field d a n"
  using assms by (auto simp: field_def min_def drop_take)

lemma read_phdr_at: "read_phdr d at = Inr p \<Longrightarrow> ph_at p = at"
  by (auto simp: read_phdr_def)

lemma field_bound: "unat (field d off k) < 2 ^ (8 * k)"
proof -
  have "take_bit (8 * k) (field d off k) = field d off k"
    by (rule bit_word_eqI) (auto simp: field_def bit_take_bit_iff bit_from_le)
  then have "unat (field d off k) = take_bit (8 * k) (unat (field d off k))"
    by (metis unsigned_take_bit_eq)
  then show ?thesis by (metis take_bit_nat_less_exp)
qed

lemma mod_sub_dvd:
  assumes "a dvd l" and "l \<le> (x :: nat)"
  shows "(x - l) mod a = x mod a"
proof -
  obtain q where "l = a * q" using assms(1) by (auto elim: dvdE)
  moreover have "(a * q + (x - l)) mod a = (x - l) mod a" by simp
  ultimately show ?thesis using assms(2) by simp
qed

lemma parse_phdrs:
  assumes "parse d = Inr e" and "vec_ok d" and "i < length (phdrs e)"
  shows "unat (ph_at (phdrs e ! i)) = unat (e_phoff (eh e)) + PHDR_SIZE * i"
    and "length (phdrs e) = e_phnum (eh e)" and "unat (phdrs_len e) = PHDR_SIZE * e_phnum (eh e)"
    and "0 < e_phnum (eh e)"
proof -
  have pn: "e_phnum (eh e) < 2 ^ 32 \<and> read_phdrs d (eh e) = Inr (phdrs e)"
    using assms(1) field_bound [of d 56 2]
    by (auto simp: parse_def read_ehdr_def get_Inr [OF assms(2)] split: if_splits)
  then have r: "length (phdrs e) = e_phnum (eh e)"
    "\<And>i. i < length (phdrs e) \<Longrightarrow> read_phdr d (e_phoff (eh e) + of_nat (i * PHDR_SIZE)) = Inr (phdrs e ! i)"
    by (auto simp: read_phdrs_def mapE_Inr)
  have at: "ph_at (phdrs e ! i) = e_phoff (eh e) + of_nat (i * PHDR_SIZE)" if "i < length (phdrs e)" for i
    by (rule read_phdr_at [OF r(2) [OF that]])
  show "length (phdrs e) = e_phnum (eh e)" by (rule r(1))
  show "0 < e_phnum (eh e)" using assms(3) r(1) by simp
  show "unat (phdrs_len e) = PHDR_SIZE * e_phnum (eh e)"
    using pn by (subst unsigned_of_nat) (simp add: take_bit_nat_eq_self)
  have "read_phdr d (e_phoff (eh e) + of_nat (0 * PHDR_SIZE)) = Inr (phdrs e ! 0)"
    using r(2) [of 0] assms(3) by fastforce
  then have "unat (e_phoff (eh e)) + 4 \<le> length d"
    by (auto simp: read_phdr_def dest!: get_le [OF _ assms(2)])
  then have "unat (e_phoff (eh e)) < 2 ^ 63" using assms(2) by (simp add: vec_ok_def)
  then show "unat (ph_at (phdrs e ! i)) = unat (e_phoff (eh e)) + PHDR_SIZE * i"
    using unat_small_add [of "e_phoff (eh e)" "i * PHDR_SIZE"] assms(3) r(1) pn at [OF assms(3)]
    by (simp add: mult.commute)
qed

lemma less_iff_not_le: "x < y \<longleftrightarrow> \<not> y \<le> (x :: u64)"
  by auto

text \<open>C9. The drain keeps the image: the file gets shorter by a positive number of bytes, and every
  other segment with file bytes finds them all at its new file offset (header fields apart),
  which is congruent to the old one modulo its alignment and stands in its program header; the
  segment of the table ends with the new tables and keeps the bytes before.\<close>

theorem relr_drain_keeps_image:
  assumes plan: "plan_drain d e t end' = Inr dr" and run: "apply_drain out e dr = Inr out'"
    and ok: "vec_ok d" and pe: "parse d = Inr e" and len: "length out = length d"
    and fit: "unat end' \<le> unat (t_off t) + unat (t_size t)" "unat (t_off t) + unat (t_size t) \<le> length d"
    and apart: "tables_apart e" and al: "wf_aligns e"
    and i: "i < length (phdrs e)" and seg: "0 < p_filesz (phdrs e ! i)"
    and inside: "unat (p_offset (phdrs e ! i)) + unat (p_filesz (phdrs e ! i)) \<le> length d"
  shows "length out' + unat (dlen dr) = length d \<and> 0 < unat (dlen dr)
    \<and> (let p = phdrs e ! i; off' = drained dr (p_offset p); at' = moved dr (unat (ph_at p)) in
       if i = t_seg t then
         (\<forall>f < unat end'. f \<in> header_fields e \<or> out' ! f = out ! f)
       else
         (\<forall>k < unat (p_filesz p). unat (p_offset p) + k \<in> header_fields e
            \<or> out' ! (unat off' + k) = out ! (unat (p_offset p) + k))
         \<and> (p_offset p < drain_next dr \<or> field out' (at' + 8) 8 = off')
         \<and> (p_align p = 0 \<or> unat off' mod unat (p_align p) = unat (p_offset p) mod unat (p_align p)))"
proof -
  let ?p = "phdrs e ! i" and ?l = "unat (dlen dr)" and ?c = "unat (cut dr)" and ?n = "unat (drain_next dr)"
  note pf = plan_drain_facts [OF plan ok fit]
  have ok': "vec_ok out" using ok len by (simp add: vec_ok_def)
  obtain out1 where fr: "only_changes out out1 (header_fields e)"
    and hd: "phdr_drained dr out1 i ?p" and hi: "?n \<le> length out1"
    and out': "out' = take ?c out1 @ drop ?n out1"
    using apply_drain_spec [OF run ok' apart pf(1)] i by blast
  have l1: "length out1 = length d" using fr len by (simp add: only_changes_def)
  have same: "out' ! (if f < ?c then f else f - ?l) = out ! f"
    if "f < length d" "f < ?c \<or> ?n \<le> f" "f \<notin> header_fields e" for f
    using drained_file [of out' ?c out1 ?l f] out' hi l1 pf(1) that fr len by (auto simp: only_changes_def)
  have small: "unat end' < 2 ^ 63" using fit ok by (simp add: vec_ok_def)
  have side: "?n \<le> unat (p_offset ?p) \<or> unat (p_offset ?p) + unat (p_filesz ?p) \<le> unat end'" if "i \<noteq> t_seg t"
    using not_hit [OF straddler_None(1) [OF pf(8) i that] seg small] by (simp only: word_le_nat_alt)
  have dv: "unat (p_align ?p) dvd ?l" if "p_align ?p \<noteq> 0" "drain_next dr \<le> p_offset ?p"
    using shift_align_multiple [OF al _ seg that(2)] i that(1) pf(9)
    by (auto simp: unat_eq_zero intro: dvd_trans)
  have off': "unat (drained dr (p_offset ?p)) = unat (p_offset ?p) - (if drain_next dr \<le> p_offset ?p then ?l else 0)"
    using pf(1) by (auto simp: drained_def word_le_nat_alt intro!: unat_sub)
  have bytes: "out' ! (unat (drained dr (p_offset ?p)) + k) = out ! (unat (p_offset ?p) + k)"
    if ne: "i \<noteq> t_seg t" and k: "k < unat (p_filesz ?p)" and "unat (p_offset ?p) + k \<notin> header_fields e" for k
  proof (cases "drain_next dr \<le> p_offset ?p")
    case True
    then have "?n \<le> unat (p_offset ?p)" by (simp add: word_le_nat_alt)
    then show ?thesis using same [of "unat (p_offset ?p) + k"] that inside pf(1) True by (simp add: off')
  next
    case False
    then have "unat (p_offset ?p) + k < unat end'" using side [OF ne] k by (simp add: word_le_nat_alt)
    then show ?thesis using same [of "unat (p_offset ?p) + k"] that inside pf(2) False by (simp add: off')
  qed
  have "unat (drained dr (p_offset ?p)) mod unat (p_align ?p) = unat (p_offset ?p) mod unat (p_align ?p)"
    if "p_align ?p \<noteq> 0"
  proof (cases "drain_next dr \<le> p_offset ?p")
    case True
    then have "?l \<le> unat (p_offset ?p)" using pf(1) by (simp add: word_le_nat_alt)
    then show ?thesis using True mod_sub_dvd [OF dv [OF that True]] by (simp add: off')
  qed (simp add: off')
  moreover have "field out' (moved dr (unat (ph_at ?p)) + 8) 8 = drained dr (p_offset ?p)"
    if ne: "i \<noteq> t_seg t" and mv: "drain_next dr \<le> p_offset ?p"
  proof -
    note ph = parse_phdrs [OF pe ok i]
    have "0 < phdrs_len e" using ph(3,4) by (simp add: word_less_nat_alt)
    then have "?n \<le> unat (e_phoff (eh e)) \<or> unat (e_phoff (eh e)) + unat (phdrs_len e) \<le> unat end'"
      using not_hit [OF straddler_None(2) [OF pf(8)] _ small] by (simp only: word_le_nat_alt)
    then have "?n \<le> unat (ph_at ?p) \<or> unat (ph_at ?p) + PHDR_SIZE \<le> ?c" using ph i pf(2) by auto
    then have "field out' (moved dr (unat (ph_at ?p)) + 8) 8 = field out1 (unat (ph_at ?p) + 8) 8"
      using drained_field [of out' ?c out1 ?l "unat (ph_at ?p) + 8" 8] out' hi pf(1) by (auto simp: moved_def)
    then show ?thesis using hd ne mv pf(6) by (simp add: phdr_drained_def)
  qed
  moreover have "out' ! f = out ! f" if "f < unat end'" "f \<notin> header_fields e" for f
    using same [of f] that pf(2,1) hi l1 by simp
  moreover have "length out' + ?l = length d" using out' hi l1 pf(1) by simp
  ultimately show ?thesis using pf(4) bytes unfolding Let_def less_iff_not_le [of "p_offset ?p"] by auto
qed

end
