(* ===== verification/Relr_Example.thy ===== *)
theory Relr_Example
  imports Relr_Dynamic Relr_Drain
begin

text \<open>
  A small position-independent file, given by its 8-byte words, on which the theorems about
  \<open>--relr\<close> are applied: one loadable segment, \<open>.dynamic\<close> with seven slots, a table of two
  RELATIVE relocations and one that stays, and the three words they patch.
\<close>

section \<open>Files made of words\<close>

lemma words_bytes_Cons: "words_bytes (w # ws) = to_le 8 w @ words_bytes ws"
  by (simp add: words_bytes_def)

lemma take_words: "take (8 * i) (words_bytes ws) = words_bytes (take i ws)"
proof (induction ws arbitrary: i)
  case (Cons w ws)
  show ?case by (cases i) (simp_all add: words_bytes_Cons Cons.IH, simp add: words_bytes_def)
qed (simp add: words_bytes_def)

lemma drop_words: "drop (8 * i) (words_bytes ws) = words_bytes (drop i ws)"
proof (induction ws arbitrary: i)
  case (Cons w ws)
  show ?case by (cases i) (simp_all add: words_bytes_Cons Cons.IH)
qed (simp add: words_bytes_def)

lemma vec_ok_words: "length ws < 2 ^ 58 \<Longrightarrow> vec_ok (words_bytes ws)"
  by (simp add: vec_ok_def)

lemma field_words:
  assumes "i < length ws" and "j + n \<le> 8"
  shows "field (words_bytes ws) (8 * i + j) n = take_bit (8 * n) (drop_bit (8 * j) (ws ! i))"
proof -
  have "drop (8 * i + j) (words_bytes ws) = drop j (to_le 8 (ws ! i) @ words_bytes (drop (Suc i) ws))"
    using drop_words [of i ws] Cons_nth_drop_Suc [OF assms(1)]
    by (metis add.commute drop_drop words_bytes_Cons)
  then have "field (words_bytes ws) (8 * i + j) n = field (to_le 8 (ws ! i)) j n"
    using assms(2) by (simp add: field_def)
  also have "\<dots> = take_bit (8 * n) (drop_bit (8 * j) (ws ! i))"
  proof (rule bit_word_eqI)
    fix k assume "k < LENGTH(64)"
    show "bit (field (to_le 8 (ws ! i)) j n) k = bit (take_bit (8 * n) (drop_bit (8 * j) (ws ! i))) k"
    proof (cases "k div 8 < n")
      case True
      have [simp]: "k mod 8 < Suc (Suc (Suc (Suc (Suc (Suc (Suc (Suc 0)))))))" by presburger
      from True have "k < 8 * n" by linarith
      with True show ?thesis using assms(2)
        by (simp add: field_def bit_from_le to_le_def bit_simps add.commute distrib_left)
    next
      case False
      then have "\<not> k < 8 * n" by linarith
      then show ?thesis using False assms(2) by (simp add: field_def bit_from_le bit_simps)
    qed
  qed
  finally show ?thesis .
qed

lemma get_words:
  assumes "unat off mod 8 + n \<le> 8" and "unat off div 8 < length ws" and "length ws < 2 ^ 58"
  shows "get (words_bytes ws) off n =
    Inr (take_bit (8 * n) (drop_bit (8 * (unat off mod 8)) (ws ! (unat off div 8))))"
proof -
  define q r where "q = unat off div 8" and "r = unat off mod 8"
  then have "unat off = 8 * q + r" "r + n \<le> 8" "q < length ws" using assms(1,2) by simp_all
  then have "unat off + n \<le> length (words_bytes ws)" by simp
  moreover have "field (words_bytes ws) (unat off) n
      = take_bit (8 * n) (drop_bit (8 * (unat off mod 8)) (ws ! (unat off div 8)))"
    using field_words [OF assms(2), of "unat off mod 8" n] assms(1) by simp
  ultimately show ?thesis
    using assms(1) by (subst get_Inr [OF vec_ok_words [OF assms(3)]]) auto
qed

lemma span_words:
  assumes "unat off = 8 * i" and "unat len = 8 * k" and "i + k \<le> length ws" and "length ws < 2 ^ 58"
  shows "span (words_bytes ws) off len = Inr (words_bytes (take k (drop i ws)))"
proof -
  have "take (8 * k) (drop (8 * i) (words_bytes ws)) = words_bytes (take k (drop i ws))"
    by (simp only: drop_words take_words)
  then show ?thesis using assms by (subst span_Inr [OF vec_ok_words]) auto
qed

lemma splice_words:
  "splice_at (words_bytes ws) (8 * i) (words_bytes vs) = words_bytes (take i ws @ vs @ drop (i + length vs) ws)"
proof -
  have "drop (8 * (i + length vs)) (words_bytes ws) = words_bytes (drop (i + length vs) ws)" by (rule drop_words)
  then show ?thesis by (simp add: splice_at_def take_words distrib_left) (simp add: words_bytes_def)
qed

lemma put_words:
  assumes "unat off = 8 * i" and "i < length ws" and "length ws < 2 ^ 58"
  shows "put (words_bytes ws) off 8 v = Inr (words_bytes (ws[i := v]))"
proof -
  have "splice_at (words_bytes ws) (8 * i) (to_le 8 v) = words_bytes (ws[i := v])"
    using splice_words [of ws i "[v]"] assms(2) by (simp add: upd_conv_take_nth_drop words_bytes_def)
  then show ?thesis using assms by (subst put_Inr [OF vec_ok_words]) auto
qed

section \<open>The file\<close>

definition ex_words :: "u64 list" where
  "ex_words =
    [0x00010102464c457f, 0, 0x00000001003e0003, 0, 64, 0, 0x0038004000000000, 0x0000000000400002,
     0x0000000500000001, 0, 0x1000, 0x1000, 384, 384, 0x1000,
     0x0000000600000002, 176, 0x10b0, 0x10b0, 112, 112, 8,
     7, 0x1120, 8, 72, 9, 24, 0, 0, 0, 0, 0, 0, 0, 0,
     0x1168, 8, 0x1000, 0x1178, 0x100000006, 5, 0x1170, 8, 0x1008,
     0, 0x1008, 0x77]"

definition ex_relr_file :: bytes where
  "ex_relr_file = words_bytes ex_words"

definition ex_relr_elf :: elf where
  "ex_relr_elf =
    \<lparr>eh = \<lparr>e_type = 3, e_entry = 0, e_phoff = 64, e_shoff = 0, e_phnum = 2, e_shnum = 0, e_shstrndx = 0\<rparr>,
     phdrs = [\<lparr>ph_at = 64, p_type = 1, p_offset = 0, p_vaddr = 0x1000, p_filesz = 384, p_memsz = 384, p_align = 0x1000\<rparr>,
              \<lparr>ph_at = 120, p_type = 2, p_offset = 176, p_vaddr = 0x10b0, p_filesz = 112, p_memsz = 112, p_align = 8\<rparr>],
     shdrs = []\<rparr>"

definition ex_relr_dyn :: dynamic where
  "ex_relr_dyn = \<lparr>dy_off = 176, dy_addr = 0x10b0, dy_slots = 7,
     dy_tags = [(7, 0x1120), (8, 72), (9, 24)]\<rparr>"

definition ex_relr_tab :: rela_tab where
  "ex_relr_tab = \<lparr>t_off = 288, t_addr = 0x1120, t_size = 72, t_seg = 0, t_sec = None\<rparr>"

definition ex_relr_packed :: "packed_rel list" where
  "ex_relr_packed = [\<lparr>pk_addr = 0x1168, pk_addend = 0x1000, pk_off = 360\<rparr>,
     \<lparr>pk_addr = 0x1170, pk_addend = 0x1008, pk_off = 368\<rparr>]"

definition ex_relr_plan :: relr_plan where
  "ex_relr_plan = \<lparr>pl_elf = ex_relr_elf, pl_dyn = ex_relr_dyn, pl_tab = ex_relr_tab, pl_rels = ex_relr_packed,
     pl_split = \<lparr>packed = ex_relr_packed, keep = words_bytes [0x1178, 0x100000006, 5], lead = 0\<rparr>,
     pl_offsets = [0x1168, 0x1170],
     pl_tags = [(7, 0x1120), (8, 24), (9, 24), (36, 0x1138), (35, 16), (37, 8)]\<rparr>"

lemmas ex_get = get_words [where ws = ex_words, folded ex_relr_file_def]

lemma ex_parse: "parse ex_relr_file = Inr ex_relr_elf"
  by (simp add: parse_def read_ehdr_def check_numbering_def read_phdrs_def read_phdr_def read_shdrs_def
      ex_relr_file_def get_words ex_words_def ex_relr_elf_def upt_rec)

lemma read_tags_rec:
  "read_tags d at n =
     (if n = 0 then Inr []
      else bindE (get d at 8) (\<lambda>tg.
        if tg = DT_NULL then Inr []
        else bindE (get d (at + 8) 8) (\<lambda>v.
             bindE (read_tags d (at + of_nat DYN_SIZE) (n - 1)) (\<lambda>ts. Inr ((tg, v) # ts)))))"
  by (cases n) (simp_all cong: if_cong)

lemma ex_dynamic: "read_dynamic ex_relr_file ex_relr_elf = Inr ex_relr_dyn"
  by (simp add: read_dynamic_def ex_relr_elf_def ex_relr_dyn_def ex_relr_file_def get_words ex_words_def
      read_tags_rec [of _ _ "numeral k" for k])

lemma ex_table: "rela_table ex_relr_file ex_relr_elf ex_relr_dyn = Inr ex_relr_tab"
  by (simp add: rela_table_def tag_def ex_relr_dyn_def jmprel_overlaps_def load_range_def ex_relr_elf_def
      in_load_def checked_add_def sat_add_def rela_section_def ex_relr_tab_def)

lemma ex_load: "load_range ex_relr_elf 0x1168 8 = Some (0, 360)" "load_range ex_relr_elf 0x1170 8 = Some (0, 368)"
  "load_range ex_relr_elf 0x10b0 112 = Some (0, 176)"
  by (simp_all add: load_range_def ex_relr_elf_def in_load_def checked_add_def sat_add_def)

lemma ex_split:
  "split_relocs ex_relr_file ex_relr_elf ex_relr_tab 8 =
    Inr \<lparr>packed = ex_relr_packed, keep = words_bytes [0x1178, 0x100000006, 5], lead = 0\<rparr>"
  by (simp add: split_relocs_def ex_relr_tab_def upt_rec split_entry_def ex_relr_file_def ex_words_def
      span_words [where k = 3] span_words [where i = 36] span_words [where i = 39] span_words [where i = 42]
      get_words packable_def ex_load ex_relr_packed_def)

lemma ex_sorted: "sorted_offsets ex_relr_packed = Inr (ex_relr_packed, [0x1168, 0x1170])"
  by (simp add: sorted_offsets_def ex_relr_packed_def sort_key_def windows2_def)

lemma ex_code: "encode_relr [0x1168, 0x1170] = [0x1168, 3]"
  by (simp add: bitmap_words.simps)

lemma ex_overlaps: "\<not> overlaps [0x1168, 0x1170] 0x1178 8" "\<not> overlaps [0x1168, 0x1170] 0x1120 72"
  "\<not> overlaps [0x1168, 0x1170] 0x10b0 112"
  by (simp_all add: overlaps_def partition_point_def bsearch_def bsearch_loop.simps sat_add_def)

lemma chunks_one: "length xs = n \<Longrightarrow> 0 < n \<Longrightarrow> chunks n xs = [xs]"
  by (subst chunks.simps) (auto simp: chunks.simps)

lemma ex_targets:
  "check_targets ex_relr_file ex_relr_elf ex_relr_dyn ex_relr_tab (words_bytes [0x1178, 0x100000006, 5]) [0x1168, 0x1170] = Inr ()"
  by (simp add: check_targets_def rela_offsets_def chunks_one get_words jmprel_offsets_def tag_def
      ex_relr_dyn_def ex_relr_tab_def ex_overlaps)

lemma ex_type: "relative_type ex_relr_file = Inr 8"
  by (simp add: relative_type_def ex_relr_file_def ex_words_def words_bytes_def to_le_def upt_rec)

lemma ex_tags:
  "new_tags ex_relr_dyn ex_relr_tab \<lparr>packed = ex_relr_packed, keep = words_bytes [0x1178, 0x100000006, 5], lead = 0\<rparr> (Suc (Suc 0))
    = Inr [(7, 0x1120), (8, 24), (9, 24), (36, 0x1138), (35, 16), (37, 8)]"
  by (simp add: new_tags_def new_tag_def ex_relr_dyn_def ex_relr_tab_def)

lemma ex_planned: "planned ex_relr_file ex_relr_plan"
  unfolding planned_def
  by (intro exI [of _ 8] exI [of _ "\<lparr>packed = ex_relr_packed, keep = words_bytes [0x1178, 0x100000006, 5], lead = 0\<rparr>"]
      exI [of _ ex_relr_packed])
    (simp add: ex_relr_plan_def ex_type ex_parse ex_dynamic ex_table ex_split ex_sorted ex_targets ex_code ex_tags
      del: encode_relr.simps)

lemma ex_ready: "ready ex_relr_file ex_relr_plan"
proof -
  have "wf_loads ex_relr_elf"
    by (auto simp: wf_loads_def ex_relr_elf_def is_load_def nth_Cons split: nat.splits)
  moreover have "header_bytes ex_relr_elf = {}"
    by (simp add: header_bytes_def ex_relr_elf_def nth_opt_def)
  moreover have "vec_ok ex_relr_file" by (simp add: ex_relr_file_def vec_ok_def ex_words_def)
  ultimately show ?thesis
    using ex_planned ex_load(3)
    by (auto simp: ready_def usual_layout_def ex_relr_plan_def ex_relr_dyn_def ex_relr_tab_def
        table_addrs_def dyn_addrs_def)
qed

definition ex_out_words :: "u64 list" where
  "ex_out_words = take 22 ex_words
     @ [7, 0x1120, 8, 24, 9, 24, 36, 0x1138, 35, 16, 37, 8, 0, 0]
     @ [0x1178, 0x100000006, 5, 0x1168, 3, 0, 0, 0, 0] @ [0x1000, 0x1008, 0x77]"

lemma ex_addends:
  "write_addends ex_relr_file ex_relr_packed = Inr (words_bytes (ex_words[45 := 0x1000]), 1)"
  by (simp add: write_addends_def write_addend_def ex_relr_packed_def ex_relr_file_def ex_words_def
      get_words put_words [where i = 45])

lemma ex_tables:
  "write_tables (words_bytes (ex_words[45 := 0x1000])) ex_relr_tab (words_bytes [0x1178, 0x100000006, 5]) [0x1168, 3]
    = Inr (words_bytes (take 36 ex_words @ [0x1178, 0x100000006, 5, 0x1168, 3, 0, 0, 0, 0, 0x1000, 0x1008, 0x77]), 328)"
proof -
  have k: "splice_at (words_bytes (ex_words[45 := 0x1000])) 288 (words_bytes [0x1178, 0x100000006, 5])
      = words_bytes (ex_words[45 := 0x1000, 36 := 0x1178, 37 := 0x100000006, 38 := 5])"
    using splice_words [of "ex_words[45 := 0x1000]" 36 "[0x1178, 0x100000006, 5]"] by (simp add: ex_words_def)
  have w: "write_words 312 [0x1168, 3] (words_bytes (ex_words[45 := 0x1000, 36 := 0x1178, 37 := 0x100000006, 38 := 5]))
      = Inr (words_bytes (ex_words[45 := 0x1000, 36 := 0x1178, 37 := 0x100000006, 38 := 5, 39 := 0x1168, 40 := 3]))"
    by (simp add: write_words_def upt_rec ex_words_def put_words [where i = 39] put_words [where i = 40])
  have z: "splice_at (words_bytes ws) 328 (replicate 32 0) = words_bytes (take 41 ws @ [0, 0, 0, 0] @ drop 45 ws)" for ws
    using splice_words [of ws 41 "[0, 0, 0, 0]"] by (simp add: words_bytes_def to_le_def upt_rec numeral_eq_Suc)
  show ?thesis
    using k by (simp add: write_tables_def ex_relr_tab_def slice_get_def w z) (simp add: ex_words_def)
qed

lemma foldE_append: "foldE f (xs @ ys) s = bindE (foldE f xs s) (foldE f ys)"
  proof (induction xs arbitrary: s)
  case (Cons x xs)
  then show ?case by (cases "f x s") simp_all
qed simp

definition slot_entry :: "(u64 \<times> u64) list \<Rightarrow> nat \<Rightarrow> u64 \<times> u64" where
  "slot_entry tags i = (if i < length tags then tags ! i else (DT_NULL, 0))"

definition set_slot :: "nat \<Rightarrow> (u64 \<times> u64) list \<Rightarrow> nat \<Rightarrow> u64 list \<Rightarrow> u64 list" where
  "set_slot b tags i ws = ws[b + 2 * i := fst (slot_entry tags i), b + 2 * i + 1 := snd (slot_entry tags i)]"

lemma write_dynamic_words:
  assumes b: "unat (dy_off dy) = 8 * b" and fits: "b + 2 * dy_slots dy \<le> length ws" and ok: "length ws < 2 ^ 58"
  shows "write_dynamic (words_bytes ws) dy tags = Inr (words_bytes (fold (set_slot b tags) [0..<dy_slots dy] ws))"
proof -
  define at where "at i = dy_off dy + of_nat (i * DYN_SIZE)" for i
  define wr where "wr i out = bindE (put out (at i) 8 (fst (slot_entry tags i)))
      (\<lambda>out. put out (at i + 8) 8 (snd (slot_entry tags i)))" for i out
  have step: "wr n (words_bytes vs) = Inr (words_bytes (set_slot b tags n vs))"
    if n: "n < dy_slots dy" and l: "length vs = length ws" for n vs
  proof -
    have "n * DYN_SIZE < 2 ^ 64" "8 * b + 16 * n < 2 ^ 64" using n fits ok by simp_all
    then have sz: "unat (of_nat (n * DYN_SIZE) :: u64) = 16 * n" "8 * b + 16 * n < 2 ^ 64"
      by (simp_all add: unat_of_nat del: of_nat_mult)
    have o1: "unat (at n) = 8 * (b + 2 * n)"
      unfolding at_def using b sz by (subst unat_add_lem [THEN iffD1]) (simp_all del: of_nat_mult)
    have o2: "unat (at n + 8) = 8 * (b + 2 * n + 1)"
      using o1 n fits ok by (subst unat_add_lem [THEN iffD1]) simp_all
    show ?thesis
      using put_words [OF o1] put_words [OF o2] n fits l ok by (simp add: wr_def set_slot_def)
  qed
  have "foldE wr [0..<n] (words_bytes ws) = Inr (words_bytes (fold (set_slot b tags) [0..<n] ws))
        \<and> length (fold (set_slot b tags) [0..<n] ws) = length ws" if "n \<le> dy_slots dy" for n
    using that
  proof (induction n)
    case (Suc n)
    then show ?case using step [of n] by (simp add: foldE_append) (simp add: set_slot_def)
  qed simp
  then show ?thesis
    by (simp add: write_dynamic_def Let_def wr_def [abs_def] at_def [abs_def] slot_entry_def [abs_def])
qed

lemma ex_written:
  "write_dynamic (words_bytes (take 36 ex_words @ [0x1178, 0x100000006, 5, 0x1168, 3, 0, 0, 0, 0, 0x1000, 0x1008, 0x77]))
     ex_relr_dyn [(7, 0x1120), (8, 24), (9, 24), (36, 0x1138), (35, 16), (37, 8)]
    = Inr (words_bytes ex_out_words)"
proof -
  have "[0..<7] = [0, 1, 2, 3, 4, 5, 6::nat]" by (simp add: upt_rec)
  note eval = this ex_relr_dyn_def ex_words_def ex_out_words_def set_slot_def slot_entry_def
  show ?thesis by (subst write_dynamic_words [where b = 22]) (simp_all add: eval)
qed

lemma ex_run:
  "rewrite_in_place ex_relr_file (pl_elf ex_relr_plan) (pl_dyn ex_relr_plan) (pl_tab ex_relr_plan)
     (pl_split ex_relr_plan) (pl_words ex_relr_plan) (pl_tags ex_relr_plan)
   = Inr (words_bytes ex_out_words, 1, 328, NoSectionHeaders)"
  by (simp add: rewrite_in_place_def ex_relr_plan_def ex_code ex_addends ex_tables ex_written del: encode_relr.simps)
    (simp add: update_rela_header_def ex_relr_tab_def)

section \<open>A file with a free page\<close>

text \<open>Two loadable segments; the table fills the first one up to its end at 0x2000, where the
  second one starts. 24 bytes of the table stay in use.\<close>

definition ex_free_words :: "u64 list" where
  "ex_free_words =
    [0x00010102464c457f, 0, 0x00000001003e0003, 0, 64, 0, 0x0038004000000000, 0x0000000000400002,
     0x0000000600000001, 0, 0, 0, 0x2000, 0x2000, 0x1000,
     0x0000000600000001, 0x2000, 0x2000, 0x2000, 8, 8, 0x1000] @ replicate 1002 0 @ [0x77]"

definition ex_free_elf :: elf where
  "ex_free_elf =
    \<lparr>eh = \<lparr>e_type = 3, e_entry = 0, e_phoff = 64, e_shoff = 0, e_phnum = 2, e_shnum = 0, e_shstrndx = 0\<rparr>,
     phdrs = [\<lparr>ph_at = 64, p_type = 1, p_offset = 0, p_vaddr = 0, p_filesz = 0x2000, p_memsz = 0x2000, p_align = 0x1000\<rparr>,
              \<lparr>ph_at = 120, p_type = 1, p_offset = 0x2000, p_vaddr = 0x2000, p_filesz = 8, p_memsz = 8, p_align = 0x1000\<rparr>],
     shdrs = []\<rparr>"

definition ex_free_tab :: rela_tab where
  "ex_free_tab = \<lparr>t_off = 176, t_addr = 176, t_size = 8016, t_seg = 0, t_sec = None\<rparr>"

definition ex_drain :: drain where
  "ex_drain = \<lparr>cut = 0x1000, dlen = 0x1000, dseg = 0, new_end = 200\<rparr>"

lemma ex_free_parse: "parse (words_bytes ex_free_words) = Inr ex_free_elf"
  by (simp add: parse_def read_ehdr_def check_numbering_def read_phdrs_def read_phdr_def read_shdrs_def
      get_words ex_free_words_def ex_free_elf_def upt_rec)

lemma ex_free_plan: "plan_drain (words_bytes ex_free_words) ex_free_elf ex_free_tab 200 = Inr ex_drain"
  by (simp add: plan_drain_def ex_free_elf_def ex_free_tab_def nth_opt_def sat_add_def content_end_def
      fold_max_def fold_min_def next_content_def straddler_def hit_def shift_align_def ex_drain_def data_len_def
      ex_free_words_def upt_rec)

lemma ex_free_run:
  "apply_drain (words_bytes ex_free_words) ex_free_elf ex_drain
   = Inr (words_bytes (take 512 (ex_free_words[12 := 200, 13 := 200, 16 := 0x1000]) @ [0x77]))"
proof -
  let ?ws = "ex_free_words[12 := 200, 13 := 200, 16 := 0x1000]"
  have l: "length ex_free_words = 1025" by (simp add: ex_free_words_def)
  have cuts: "take 4096 (words_bytes ?ws) = words_bytes (take 512 ?ws)"
    "drop 8192 (words_bytes ?ws) = words_bytes [0x77]"
    using take_words [of 512 ?ws] drop_words [of 1024 ?ws] by (simp_all add: ex_free_words_def)
  have join: "words_bytes xs @ words_bytes ys = words_bytes (xs @ ys)" for xs ys by (simp add: words_bytes_def)
  have puts: "foldE (drain_phdr ex_drain) (zip [0..<length (phdrs ex_free_elf)] (phdrs ex_free_elf))
      (words_bytes ex_free_words) = Inr (words_bytes ?ws)"
    by (simp add: drain_phdr_def ex_drain_def ex_free_elf_def upt_rec put_words [where i = 12]
        put_words [where i = 13] put_words [where i = 16] l)
  show ?thesis
    unfolding apply_drain_def puts
    by (simp add: ex_drain_def ex_free_elf_def data_len_def l cuts join)
qed

section \<open>Witnesses\<close>

theorem relr_round_trip_witness:
  "decode_relr (encode_relr [0x1168, 0x1170, 0x2000]) = [0x1168, 0x1170, 0x2000]
   \<and> length (encode_relr [0x1168, 0x1170, 0x2000]) \<le> 3"
  using relr_round_trip [of "[0x1168, 0x1170, 0x2000]"] by simp

theorem relr_loads_alike_witness:
  "apply_relr 0x400000 (decode_relr (pl_words ex_relr_plan)) (image_word (words_bytes ex_out_words) ex_relr_elf) 0x1168
   = apply_rela 0x400000 (relative_relocs ex_relr_packed) (image_word ex_relr_file ex_relr_elf) 0x1168"
proof -
  have apart: "{0x1168..<0x1168 + 8} \<inter> (table_addrs ex_relr_plan \<union> dyn_addrs ex_relr_plan) = {}"
    by (auto simp: ex_relr_plan_def table_addrs_def dyn_addrs_def ex_relr_tab_def ex_relr_dyn_def)
  show ?thesis
    using relr_loads_alike [OF ex_ready ex_run, of "0x1168" 0 360 "0x400000"] ex_load(1) apart
    by (simp add: ex_relr_plan_def del: encode_relr.simps apply_relr.simps apply_rela.simps)
qed


theorem relr_drain_keeps_image_witness:
  "\<exists>out'. apply_drain (words_bytes ex_free_words) ex_free_elf ex_drain = Inr out'
     \<and> length out' + 4096 = 8200 \<and> (\<forall>k < 8. out' ! (4096 + k) = words_bytes ex_free_words ! (8192 + k))"
proof -
  let ?e = ex_free_elf and ?out' = "words_bytes (take 512 (ex_free_words[12 := 200, 13 := 200, 16 := 0x1000]) @ [0x77])"
  have l: "length ex_free_words = 1025" by (simp add: ex_free_words_def)
  then have ok: "vec_ok (words_bytes ex_free_words)" by (simp add: vec_ok_def)
  have al: "wf_aligns ?e" and apart: "tables_apart ?e"
    by (auto simp: wf_aligns_def tables_apart_def ex_free_elf_def phdr_span_def nth_Cons intro: exI [of _ 12]
        split: nat.splits)
  have fit: "unat (200 :: u64) \<le> unat (t_off ex_free_tab) + unat (t_size ex_free_tab)"
    "unat (t_off ex_free_tab) + unat (t_size ex_free_tab) \<le> length (words_bytes ex_free_words)"
    by (simp_all add: ex_free_tab_def l)
  have p: "1 < length (phdrs ?e)" "0 < p_filesz (phdrs ?e ! 1)"
    "unat (p_offset (phdrs ?e ! 1)) + unat (p_filesz (phdrs ?e ! 1)) \<le> length (words_bytes ex_free_words)"
    by (simp_all add: ex_free_elf_def l)
  have far: "8192 + k \<notin> header_fields ?e" for k
    by (simp add: header_fields_def ex_free_elf_def phdr_span_def)
  show ?thesis
    using relr_drain_keeps_image [OF ex_free_plan ex_free_run ok ex_free_parse refl fit apart al p] ex_free_run far
    by (simp add: ex_free_elf_def ex_free_tab_def ex_drain_def drained_def drain_next_def l Let_def)
qed

end
