(* ===== verification/Java_Class.thy ===== *)
theory Java_Class
  imports Results
begin

text \<open>
  \<open>src/format/java/classfile.rs\<close>: the parser of a \<open>.class\<close> file. The parser returns an
  \<open>Option\<close> and can index out of range: \<open>Inl NoResult\<close> is \<open>None\<close>, \<open>Inl Panic\<close> is the panic.
  Positions are natural numbers: every one is the length of the file or less, plus at most
  \<open>2 ^ 32 + 6\<close> (the longest attribute), so no \<open>usize\<close> sum of the code wraps.
\<close>

section \<open>Strings\<close>

text \<open>\<open>String::from_utf8_lossy\<close> of the standard library, on the bytes of the string: a sequence
  that is not UTF-8 is replaced by U+FFFD, one replacement for each maximal start of a sequence.
  \<open>utf8_take\<close> says whether a sequence starts here and how many bytes it, or its start, has.\<close>

definition cont :: "u8 \<Rightarrow> bool" where
  "cont b \<longleftrightarrow> 0x80 \<le> b \<and> b < 0xC0"

text \<open>The second byte a first byte of a longer sequence allows, and the length it announces.\<close>

definition second_ok :: "u8 \<Rightarrow> u8 \<Rightarrow> bool" where
  "second_ok b c \<longleftrightarrow> cont c \<and> (b = 0xE0 \<longrightarrow> 0xA0 \<le> c) \<and> (b = 0xED \<longrightarrow> c < 0xA0)
     \<and> (b = 0xF0 \<longrightarrow> 0x90 \<le> c) \<and> (b = 0xF4 \<longrightarrow> c < 0x90)"

definition utf8_width :: "u8 \<Rightarrow> nat" where
  "utf8_width b =
     (if b < 0x80 then 1 else if 0xC2 \<le> b \<and> b < 0xE0 then 2 else if 0xE0 \<le> b \<and> b < 0xF0 then 3
      else if 0xF0 \<le> b \<and> b < 0xF5 then 4 else 0)"

fun safe_get :: "bytes \<Rightarrow> nat \<Rightarrow> u8" where
  "safe_get bs i = (if i < length bs then bs ! i else 0)"

definition utf8_take :: "bytes \<Rightarrow> bool \<times> nat" where
  "utf8_take bs =
     (let b = safe_get bs 0; w = utf8_width b in
      if w = 0 then (False, 1)
      else if w = 1 then (True, 1)
      else if \<not> second_ok b (safe_get bs 1) then (False, 1)
      else if w = 2 then (True, 2)
      else if \<not> cont (safe_get bs 2) then (False, 2)
      else if w = 3 then (True, 3)
      else if \<not> cont (safe_get bs 3) then (False, 3)
      else (True, 4))"

function utf8_lossy :: "bytes \<Rightarrow> bytes" where
  "utf8_lossy [] = []"
| "utf8_lossy (b # bs) =
     (case utf8_take (b # bs) of (valid, n) \<Rightarrow>
        (if valid then take n (b # bs) else [0xEF, 0xBF, 0xBD]) @ utf8_lossy (drop (n - 1) bs))"
  by pat_completeness auto
termination by (relation "measure length") auto

definition str_of :: "bytes \<Rightarrow> string" where
  "str_of bs = map (\<lambda>b. char_of (unat b)) bs"

lemma utf8_ascii: "list_all (\<lambda>b. b < 0x80) bs \<Longrightarrow> utf8_lossy bs = bs"
  by (induction bs) (simp_all add: utf8_take_def utf8_width_def)

section \<open>Data\<close>

datatype cp_entry =
  Utf8 string | Integer | Float | Long | Double | Class u16 | String u16
  | Fieldref u16 u16 | Methodref u16 u16 | InterfaceMethodref u16 u16 | NameAndType u16 u16
  | MethodHandle u8 u16 | MethodType u16 | InvokeDynamic u16 u16 | Placeholder

record method_info =
  m_access :: u16
  name_index :: u16
  descriptor_index :: u16
  code_offset :: "nat option"
  code_length :: nat
  code_attr_offset :: "nat option"
  exception_table_len :: u16
  raw_offset :: nat
  raw_size :: nat

record class_file =
  constant_pool :: "cp_entry list"
  c_access :: u16
  methods :: "method_info list"
  methods_count_offset :: nat
  total_size :: nat

datatype stop = NoResult | Panic

section \<open>The parser\<close>

definition read_u16 :: "bytes \<Rightarrow> nat \<Rightarrow> u16" where
  "read_u16 data off = (if length data < off + 2 then 0 else from_be (take 2 (drop off data)))"

definition read_u32 :: "bytes \<Rightarrow> nat \<Rightarrow> u32" where
  "read_u32 data off = (if length data < off + 4 then 0 else from_be (take 4 (drop off data)))"

definition count16 :: "bytes \<Rightarrow> nat \<Rightarrow> nat" where
  "count16 data off = unat (read_u16 data off)"

definition count32 :: "bytes \<Rightarrow> nat \<Rightarrow> nat" where
  "count32 data off = unat (read_u32 data off)"

text \<open>One entry of the constant pool; \<open>pos\<close> is the position after its tag.\<close>

definition cp_entry_at :: "bytes \<Rightarrow> u8 \<Rightarrow> nat \<Rightarrow> stop + cp_entry \<times> nat" where
  "cp_entry_at data tag pos =
     (let two = (\<lambda>e. Inr (e (read_u16 data pos), pos + 2));
          pair = (\<lambda>e. Inr (e (read_u16 data pos) (read_u16 data (pos + 2)), pos + 4)) in
      if tag = 1 then
        if length data < pos + 2 then Inl NoResult
        else let len = count16 data pos in
             if length data < pos + 2 + len then Inl NoResult
             else Inr (Utf8 (str_of (utf8_lossy (take len (drop (pos + 2) data)))), pos + 2 + len)
      else if tag = 3 then Inr (Integer, pos + 4)
      else if tag = 4 then Inr (Float, pos + 4)
      else if tag = 5 then Inr (Long, pos + 8)
      else if tag = 6 then Inr (Double, pos + 8)
      else if tag = 7 then two Class
      else if tag = 8 then two String
      else if tag = 9 then pair Fieldref
      else if tag = 10 then pair Methodref
      else if tag = 11 then pair InterfaceMethodref
      else if tag = 12 then pair NameAndType
      else if tag = 15 then
        if length data \<le> pos then Inl Panic
        else Inr (MethodHandle (data ! pos) (read_u16 data (pos + 1)), pos + 3)
      else if tag = 16 then two MethodType
      else if tag = 18 then pair InvokeDynamic
      else Inl NoResult)"

text \<open>An entry takes its slot and, for \<open>Long\<close> and \<open>Double\<close>, a placeholder after it.\<close>

definition slots :: "cp_entry \<Rightarrow> cp_entry list" where
  "slots e = (if e = Long \<or> e = Double then [e, Placeholder] else [e])"

function cp_entries :: "bytes \<Rightarrow> nat \<Rightarrow> nat \<Rightarrow> nat \<Rightarrow> stop + cp_entry list \<times> nat" where
  "cp_entries data n i pos =
     (if n \<le> i then Inr ([], pos)
      else if length data \<le> pos then Inl NoResult
      else bindE (cp_entry_at data (data ! pos) (pos + 1)) (\<lambda>(e, pos).
           bindE (cp_entries data n (i + length (slots e)) pos) (\<lambda>(es, pos).
           Inr (slots e @ es, pos))))"
  by pat_completeness auto
termination by (relation "measure (\<lambda>(data, n, i, pos). n - i)") (auto simp: slots_def)

declare cp_entries.simps [simp del]

definition parse_constant_pool :: "bytes \<Rightarrow> nat \<Rightarrow> nat \<Rightarrow> stop + cp_entry list \<times> nat" where
  "parse_constant_pool data pos cp_count =
     bindE (cp_entries data cp_count 1 pos) (\<lambda>(es, pos). Inr (Placeholder # es, pos))"

text \<open>What the attributes of a method say about its code.\<close>

record code_info =
  ci_offset :: "nat option"
  ci_length :: nat
  ci_attr :: "nat option"
  ci_handlers :: u16

definition no_code :: code_info where
  "no_code = \<lparr>ci_offset = None, ci_length = 0, ci_attr = None, ci_handlers = 0\<rparr>"

definition attr_name :: "cp_entry list \<Rightarrow> bytes \<Rightarrow> nat \<Rightarrow> string option" where
  "attr_name pool data pos =
     (let i = count16 data pos in
      if i < length pool then (case pool ! i of Utf8 s \<Rightarrow> Some s | _ \<Rightarrow> None) else None)"

definition code_attr :: "bytes \<Rightarrow> cp_entry list \<Rightarrow> nat \<Rightarrow> code_info \<Rightarrow> code_info" where
  "code_attr data pool pos ci =
     (let start = pos + 6 in
      if attr_name pool data pos = Some ''Code'' \<and> start + 8 \<le> length data then
        let cl = count32 data (start + 4); et_off = start + 8 + cl in
        \<lparr>ci_offset = Some (start + 8), ci_length = cl, ci_attr = Some pos,
         ci_handlers = (if et_off + 2 \<le> length data then read_u16 data et_off else ci_handlers ci)\<rparr>
      else ci)"

fun method_attrs :: "bytes \<Rightarrow> cp_entry list \<Rightarrow> nat \<Rightarrow> nat \<Rightarrow> code_info \<Rightarrow> stop + code_info \<times> nat" where
  "method_attrs data pool 0 pos ci = Inr (ci, pos)"
| "method_attrs data pool (Suc n) pos ci =
     (if length data < pos + 6 then Inl NoResult
      else let ci = code_attr data pool pos ci; pos = pos + 6 + count32 data (pos + 2) in
           if length data < pos then Inl NoResult else method_attrs data pool n pos ci)"

definition parse_method :: "bytes \<Rightarrow> nat \<Rightarrow> cp_entry list \<Rightarrow> stop + method_info \<times> nat" where
  "parse_method data start pool =
     (if length data < start + 8 then Inl NoResult
      else bindE (method_attrs data pool (count16 data (start + 6)) (start + 8) no_code) (\<lambda>(ci, pos).
           Inr (\<lparr>m_access = read_u16 data start, name_index = read_u16 data (start + 2),
                 descriptor_index = read_u16 data (start + 4),
                 code_offset = ci_offset ci, code_length = ci_length ci, code_attr_offset = ci_attr ci,
                 exception_table_len = ci_handlers ci, raw_offset = start, raw_size = pos - start\<rparr>, pos)))"

fun parse_methods :: "bytes \<Rightarrow> cp_entry list \<Rightarrow> nat \<Rightarrow> nat \<Rightarrow> stop + method_info list \<times> nat" where
  "parse_methods data pool 0 pos = Inr ([], pos)"
| "parse_methods data pool (Suc n) pos =
     bindE (parse_method data pos pool) (\<lambda>(m, pos).
     bindE (parse_methods data pool n pos) (\<lambda>(ms, pos). Inr (m # ms, pos)))"

fun skip_attrs :: "bytes \<Rightarrow> nat \<Rightarrow> nat \<Rightarrow> stop + nat" where
  "skip_attrs data 0 pos = Inr pos"
| "skip_attrs data (Suc n) pos =
     (if length data < pos + 6 then Inl NoResult
      else let pos = pos + 6 + count32 data (pos + 2) in
           if length data < pos then Inl NoResult else skip_attrs data n pos)"

fun skip_members :: "bytes \<Rightarrow> nat \<Rightarrow> nat \<Rightarrow> stop + nat" where
  "skip_members data 0 pos = Inr pos"
| "skip_members data (Suc n) pos =
     (if length data < pos + 8 then Inl NoResult
      else bindE (skip_attrs data (count16 data (pos + 6)) (pos + 8)) (skip_members data n))"

definition skip_fields_or_methods :: "bytes \<Rightarrow> nat \<Rightarrow> stop + nat" where
  "skip_fields_or_methods data pos =
     (if length data < pos + 2 then Inl NoResult
      else skip_members data (count16 data pos) (pos + 2))"

fun skip_class_attrs :: "bytes \<Rightarrow> nat \<Rightarrow> nat \<Rightarrow> nat" where
  "skip_class_attrs data 0 pos = pos"
| "skip_class_attrs data (Suc n) pos =
     (if length data < pos + 6 then pos
      else skip_class_attrs data n (pos + 6 + count32 data (pos + 2)))"

definition skip_attributes :: "bytes \<Rightarrow> nat \<Rightarrow> nat" where
  "skip_attributes data pos =
     (if length data < pos + 2 then pos else skip_class_attrs data (count16 data pos) (pos + 2))"

definition parse_classfile :: "bytes \<Rightarrow> stop + class_file" where
  "parse_classfile data =
     (if length data < 10 \<or> read_u32 data 0 \<noteq> 0xCAFEBABE then Inl NoResult
      else bindE (parse_constant_pool data 10 (count16 data 8)) (\<lambda>(pool, pos).
        let access = read_u16 data pos; pos = pos + 6; pos = pos + 2 + count16 data pos * 2 in
        bindE (skip_fields_or_methods data pos) (\<lambda>mco.
        bindE (parse_methods data pool (count16 data mco) (mco + 2)) (\<lambda>(ms, pos).
        Inr \<lparr>constant_pool = pool, c_access = access, methods = ms, methods_count_offset = mco,
             total_size = skip_attributes data pos\<rparr>))))"

definition cp_utf8 :: "cp_entry list \<Rightarrow> u16 \<Rightarrow> string" where
  "cp_utf8 pool idx =
     (if unat idx < length pool then (case pool ! unat idx of Utf8 s \<Rightarrow> s | _ \<Rightarrow> []) else [])"

end
