(* ===== verification/Java_Bytecode.thy ===== *)
theory Java_Bytecode
  imports Java_Class Intervals
begin

text \<open>
  The first half of \<open>src/format/java/bytecode.rs\<close>: instruction lengths, the calls a method makes
  and the code after terminators that no branch of the method enters. The functions that scan a
  method check that its code lies in the file before they read it, so their reads never panic;
  \<open>has_switch\<close>, which does not, returns \<open>None\<close> for the panic. A hash set is a list.
\<close>

section \<open>Reading\<close>

definition read_u16_be :: "bytes \<Rightarrow> nat \<Rightarrow> u16" where
  "read_u16_be data off = from_be (take 2 (drop off data))"

definition read_i16_be :: "bytes \<Rightarrow> nat \<Rightarrow> i32" where
  "read_i16_be data off = scast (from_be (take 2 (drop off data)) :: u16)"

definition read_i32_be :: "bytes \<Rightarrow> nat \<Rightarrow> i32" where
  "read_i32_be data off = from_be (take 4 (drop off data))"

definition between :: "u8 \<Rightarrow> u8 \<Rightarrow> u8 \<Rightarrow> bool" where
  "between lo hi op \<longleftrightarrow> lo \<le> op \<and> op \<le> hi"

text \<open>The padding of a switch at position \<open>base\<close>, and the number of entries read from the code:
  the one announced, cut to those that fit.\<close>

definition switch_pad :: "nat \<Rightarrow> nat" where
  "switch_pad base = (4 - (base + 1) mod 4) mod 4"

definition table_count :: "bytes \<Rightarrow> nat \<Rightarrow> nat \<Rightarrow> nat" where
  "table_count data p end' =
     min (nat (max 0 (sint (read_i32_be data (p + 8)) - sint (read_i32_be data (p + 4)) + 1)))
         ((end' - p - 12) div 4)"

definition lookup_count :: "bytes \<Rightarrow> nat \<Rightarrow> nat \<Rightarrow> nat" where
  "lookup_count data p end' =
     (let n = read_i32_be data (p + 4) in min (if n <s 0 then 0 else unat n) ((end' - p - 8) div 8))"

definition one_byte :: "u8 \<Rightarrow> bool" where
  "one_byte op \<longleftrightarrow> between 0x00 0x0F op \<or> between 0x1A 0x35 op \<or> between 0x46 0x83 op
     \<or> between 0x85 0x98 op \<or> between 0xAC 0xB1 op \<or> op \<in> {0xBE, 0xBF, 0xC2, 0xC3, 0xCA}"

definition two_bytes :: "u8 \<Rightarrow> bool" where
  "two_bytes op \<longleftrightarrow> op \<in> {0x10, 0x12, 0xA9, 0xBC} \<or> between 0x15 0x19 op \<or> between 0x36 0x3A op"

definition three_bytes :: "u8 \<Rightarrow> bool" where
  "three_bytes op \<longleftrightarrow> op \<in> {0x11, 0x13, 0x14, 0x84, 0xBB, 0xBD, 0xC0, 0xC1, 0xC6, 0xC7}
     \<or> between 0x99 0xA8 op \<or> between 0xB2 0xB8 op"

definition opcode_length :: "u8 \<Rightarrow> bytes \<Rightarrow> nat \<Rightarrow> nat \<Rightarrow> nat" where
  "opcode_length op data pos end' =
     (let pad = switch_pad (if end' \<le> pos then 0 else pos); p = pos + 1 + pad in
      if one_byte op then 1
      else if two_bytes op then 2
      else if three_bytes op then 3
      else if op = 0xC8 \<or> op = 0xC9 then 5
      else if op = 0xB9 \<or> op = 0xBA then 5
      else if op = 0xC5 then 4
      else if op = 0xC4 then
        if pos + 1 < end' then (if data ! (pos + 1) = 0x84 then 6 else 4) else 2
      else if op = 0xAA then
        if p + 12 \<le> end' then 1 + pad + 12 + table_count data p end' * 4 else 1
      else if op = 0xAB then
        if p + 8 \<le> end' then 1 + pad + 8 + lookup_count data p end' * 8 else 1
      else 1)"

lemma opcode_length_pos [simp]: "0 < opcode_length op data pos end'"
  by (simp add: opcode_length_def Let_def)

lemma opcode_length_next [simp]: "pos < pos + opcode_length op data pos end'"
  by simp

section \<open>Calls\<close>

definition resolve_method_idx :: "class_file \<Rightarrow> u16 \<Rightarrow> nat option" where
  "resolve_method_idx cf cp_idx =
     (let pool = constant_pool cf; i = unat cp_idx in
      if length pool \<le> i then None
      else case (case pool ! i of Methodref c n \<Rightarrow> Some n | InterfaceMethodref c n \<Rightarrow> Some n | _ \<Rightarrow> None) of
        None \<Rightarrow> None
      | Some nat_idx \<Rightarrow>
          if length pool \<le> unat nat_idx then None
          else case pool ! unat nat_idx of
            NameAndType n d \<Rightarrow>
              position (\<lambda>m. cp_utf8 pool (name_index m) = cp_utf8 pool n
                          \<and> cp_utf8 pool (descriptor_index m) = cp_utf8 pool d) (methods cf)
          | _ \<Rightarrow> None)"

definition call_at :: "bytes \<Rightarrow> class_file \<Rightarrow> nat \<Rightarrow> nat \<Rightarrow> nat list" where
  "call_at data cf pos end' =
     (if data ! pos \<in> {0xB6, 0xB7, 0xB8, 0xB9} \<and> pos + 3 \<le> end' then
        (case resolve_method_idx cf (read_u16_be data (pos + 1)) of None \<Rightarrow> [] | Some mi \<Rightarrow> [mi])
      else [])"

definition call_length :: "u8 \<Rightarrow> bytes \<Rightarrow> nat \<Rightarrow> nat \<Rightarrow> nat" where
  "call_length op data pos end' =
     (if op \<in> {0xB6, 0xB7, 0xB8} then 3 else if op = 0xB9 \<or> op = 0xBA then 5
      else opcode_length op data pos end')"

lemma call_length_pos [simp]: "0 < call_length op data pos end'"
  by (simp add: call_length_def)

function scan_calls :: "bytes \<Rightarrow> class_file \<Rightarrow> nat \<Rightarrow> nat \<Rightarrow> nat list" where
  "scan_calls data cf end' pos =
     (if pos < end'
      then call_at data cf pos end' @ scan_calls data cf end' (pos + call_length (data ! pos) data pos end')
      else [])"
  by pat_completeness auto
termination
  by (relation "measure (\<lambda>(data, cf, end', pos). end' - pos)")
    (auto intro!: diff_less_mono2)

declare scan_calls.simps [simp del]

definition scan_bytecode_calls :: "bytes \<Rightarrow> class_file \<Rightarrow> nat \<Rightarrow> nat \<Rightarrow> nat list" where
  "scan_bytecode_calls data cf off len =
     (if length data < off + len then [] else scan_calls data cf (off + len) off)"

section \<open>Dead branches\<close>

text \<open>The offsets in the code that the instruction at \<open>pos\<close> can jump to.\<close>

definition cond_branch :: "u8 \<Rightarrow> bool" where
  "cond_branch op \<longleftrightarrow> between 0x99 0xA6 op \<or> op \<in> {0xC6, 0xC7, 0xA8}"

definition instr_targets :: "bytes \<Rightarrow> nat \<Rightarrow> nat \<Rightarrow> nat \<Rightarrow> u32 list" where
  "instr_targets data off end' pos =
     (let op = data ! pos; rel_pc = of_nat (pos - off); p = pos + 1 + switch_pad (pos - off) in
      if cond_branch op \<or> op = 0xA7 then
        (if pos + 3 \<le> end' then [rel_pc + read_i16_be data (pos + 1)] else [])
      else if op = 0xC8 \<or> op = 0xC9 then
        (if pos + 5 \<le> end' then [rel_pc + read_i32_be data (pos + 1)] else [])
      else if op = 0xAA then
        (if p + 12 \<le> end' then
           (rel_pc + read_i32_be data p)
           # map (\<lambda>o'. rel_pc + read_i32_be data o')
               (filter (\<lambda>o'. o' + 4 \<le> end') (map (\<lambda>j. p + 12 + j * 4) [0..<table_count data p end']))
         else [])
      else if op = 0xAB then
        (if p + 8 \<le> end' then
           (rel_pc + read_i32_be data p)
           # map (\<lambda>o'. rel_pc + read_i32_be data o')
               (filter (\<lambda>o'. o' + 4 \<le> end') (map (\<lambda>j. p + 8 + j * 8 + 4) [0..<lookup_count data p end']))
         else [])
      else [])"

function collect_targets :: "bytes \<Rightarrow> nat \<Rightarrow> nat \<Rightarrow> nat \<Rightarrow> u32 list" where
  "collect_targets data off end' pos =
     (if pos < end'
      then instr_targets data off end' pos
             @ collect_targets data off end' (pos + opcode_length (data ! pos) data pos end')
      else [])"
  by pat_completeness auto
termination
  by (relation "measure (\<lambda>(data, off, end', pos). end' - pos)")
    (auto intro!: diff_less_mono2)

declare collect_targets.simps [simp del]

definition collect_branch_targets :: "bytes \<Rightarrow> nat \<Rightarrow> nat \<Rightarrow> u32 list" where
  "collect_branch_targets data off len = collect_targets data off (off + len) off"

definition is_terminator :: "u8 \<Rightarrow> bool" where
  "is_terminator op \<longleftrightarrow> op \<in> {0xAC, 0xAD, 0xAE, 0xAF, 0xB0, 0xB1, 0xBF, 0xA7, 0xC8}"

text \<open>\<open>blocks.push\<close> of a region of two bytes or more.\<close>

definition dead_region :: "fname \<Rightarrow> nat \<Rightarrow> nat \<Rightarrow> dead_block list" where
  "dead_region name ds de =
     (if 2 \<le> de - ds then [\<lparr>db_func = name, db_addr = of_nat ds, db_size = of_nat (de - ds)\<rparr>] else [])"

text \<open>The loop; \<open>ds\<close> is the start of the dead region the scan is in.\<close>

function scan_dead :: "bytes \<Rightarrow> nat \<Rightarrow> nat \<Rightarrow> u32 list \<Rightarrow> fname \<Rightarrow> nat option \<Rightarrow> nat \<Rightarrow> dead_block list" where
  "scan_dead data off end' tgts name ds pos =
     (if pos < end' then
        let len = opcode_length (data ! pos) data pos end' in
        if ds \<noteq> None \<and> of_nat (pos - off) \<notin> set tgts
        then scan_dead data off end' tgts name ds (pos + len)
        else (case ds of None \<Rightarrow> [] | Some s \<Rightarrow> dead_region name s pos)
             @ scan_dead data off end' tgts name
                 (if is_terminator (data ! pos) \<and> pos + len < end' then Some (pos + len) else None) (pos + len)
      else (case ds of None \<Rightarrow> [] | Some s \<Rightarrow> dead_region name s end'))"
  by pat_completeness auto
termination
  by (relation "measure (\<lambda>(data, off, end', tgts, name, ds, pos). end' - pos)")
    (auto intro!: diff_less_mono2)

declare scan_dead.simps [simp del]

definition scan_dead_in_method :: "bytes \<Rightarrow> class_file \<Rightarrow> nat \<Rightarrow> nat \<Rightarrow> u16 \<Rightarrow> dead_block list" where
  "scan_dead_in_method data cf off len name_idx =
     (if length data < off + len then []
      else scan_dead data off (off + len) (collect_branch_targets data off len)
             (cp_utf8 (constant_pool cf) name_idx) None off)"

definition find_dead_branches :: "bytes \<Rightarrow> class_file \<Rightarrow> nat list \<Rightarrow> dead_block list" where
  "find_dead_branches data cf live =
     concat (map (\<lambda>(i, m).
       if i \<notin> set live then []
       else case code_offset m of None \<Rightarrow> []
            | Some off \<Rightarrow> scan_dead_in_method data cf off (code_length m) (name_index m))
       (zip [0..<length (methods cf)] (methods cf)))"

section \<open>Switches\<close>

text \<open>The reads are \<open>data[pos]\<close> and, for \<open>wide\<close>, \<open>data[pos + 1]\<close>.\<close>

function has_switch_from :: "bytes \<Rightarrow> nat \<Rightarrow> nat \<Rightarrow> bool option" where
  "has_switch_from data end' pos =
     (if pos < end' then
        if length data \<le> pos then None
        else if data ! pos = 0xAA \<or> data ! pos = 0xAB then Some True
        else if data ! pos = 0xC4 \<and> pos + 1 < end' \<and> length data \<le> pos + 1 then None
        else has_switch_from data end' (pos + opcode_length (data ! pos) data pos end')
      else Some False)"
  by pat_completeness auto
termination
  by (relation "measure (\<lambda>(data, end', pos). end' - pos)") (auto intro!: diff_less_mono2)

declare has_switch_from.simps [simp del]

definition has_switch :: "bytes \<Rightarrow> nat \<Rightarrow> nat \<Rightarrow> bool option" where
  "has_switch data off len = has_switch_from data (off + len) off"

end
