(* ===== verification/Java_Compact.thy ===== *)
theory Java_Compact
  imports Java_Bytecode
begin

text \<open>
  The second half of \<open>src/format/java/bytecode.rs\<close>: the physical compaction of a method.
  \<open>Inl NoResult\<close> is the \<open>None\<close> of a method that is left alone, \<open>Inl Panic\<close> the panic. The
  positions of a method the parser returns satisfy \<open>raw_offset + 8 \<le> code_attr_offset\<close> and
  \<open>code_attr_offset + 14 = code_offset\<close>, so their differences are natural numbers.
\<close>

section \<open>Slices\<close>

definition nslice :: "bytes \<Rightarrow> nat \<Rightarrow> nat \<Rightarrow> stop + bytes" where
  "nslice d a b = (if a \<le> b \<and> b \<le> length d then Inr (take (b - a) (drop a d)) else Inl Panic)"

lemma nslice_Inr [simp]:
  "nslice d a b = Inr bs \<longleftrightarrow> a \<le> b \<and> b \<le> length d \<and> bs = take (b - a) (drop a d)"
  by (auto simp: nslice_def)

section \<open>Branch offsets\<close>

definition java_shift :: "u64 \<Rightarrow> ival list \<Rightarrow> u64" where
  "java_shift offset ranges =
     foldl (\<lambda>shift (s, e). if s < offset then shift + (min e offset - s) else shift) 0 ranges"

text \<open>The new offset of a branch at \<open>pc\<close> whose old offset is \<open>old\<close>.\<close>

definition moved_offset :: "ival list \<Rightarrow> nat \<Rightarrow> i32 \<Rightarrow> i32" where
  "moved_offset ranges pc old =
     (let tgt = of_nat pc + old;
          new_pc = of_nat pc - java_shift (of_nat pc) ranges;
          new_tgt = scast tgt - java_shift (scast tgt) ranges
      in ucast new_tgt - ucast new_pc)"

definition short_branch :: "u8 \<Rightarrow> bool" where
  "short_branch op \<longleftrightarrow> between 0x99 0xA8 op \<or> op \<in> {0xC6, 0xC7}"

definition wide_branch :: "u8 \<Rightarrow> bool" where
  "wide_branch op \<longleftrightarrow> op = 0xC8 \<or> op = 0xC9"

text \<open>One instruction, and how far the loop moves.\<close>

definition patch_instr :: "bytes \<Rightarrow> nat \<Rightarrow> ival list \<Rightarrow> nat \<Rightarrow> bytes" where
  "patch_instr code end' ranges pos =
     (if short_branch (code ! pos) then
        if pos + 3 \<le> end'
        then splice_at code (pos + 1)
               (to_be 2 (ucast (moved_offset ranges pos (read_i16_be code (pos + 1))) :: u16))
        else code
      else if wide_branch (code ! pos) then
        if pos + 5 \<le> end'
        then splice_at code (pos + 1) (to_be 4 (moved_offset ranges pos (read_i32_be code (pos + 1))))
        else code
      else code)"

definition patch_length :: "bytes \<Rightarrow> nat \<Rightarrow> nat \<Rightarrow> nat" where
  "patch_length code end' pos =
     (if short_branch (code ! pos) then 3 else if wide_branch (code ! pos) then 5
      else opcode_length (code ! pos) code pos end')"

lemma patch_length_pos [simp]: "0 < patch_length code end' pos"
  by (simp add: patch_length_def)

function patch_from :: "nat \<Rightarrow> ival list \<Rightarrow> bytes \<Rightarrow> nat \<Rightarrow> bytes" where
  "patch_from end' ranges code pos =
     (if pos < end'
      then patch_from end' ranges (patch_instr code end' ranges pos) (pos + patch_length code end' pos)
      else code)"
  by pat_completeness auto
termination
  by (relation "measure (\<lambda>(end', ranges, code, pos). end' - pos)") (auto intro!: diff_less_mono2)

declare patch_from.simps [simp del]

definition patch_code_branches :: "bytes \<Rightarrow> nat \<Rightarrow> ival list \<Rightarrow> bytes" where
  "patch_code_branches code code_len ranges = patch_from (min code_len (length code)) ranges code 0"

section \<open>Removing the dead bytes\<close>

fun excise_from :: "bytes \<Rightarrow> ival list \<Rightarrow> nat \<Rightarrow> stop + bytes" where
  "excise_from code [] pos = Inr (if pos < length code then drop pos code else [])"
| "excise_from code ((start, end') # ranges) pos =
     bindE (if pos < unat start then nslice code pos (unat start) else Inr []) (\<lambda>bs.
     bindE (excise_from code ranges (unat end')) (\<lambda>rest. Inr (bs @ rest)))"

definition excise_ranges :: "bytes \<Rightarrow> ival list \<Rightarrow> stop + bytes" where
  "excise_ranges code ranges = excise_from code ranges 0"

section \<open>The method\<close>

fun stack_map_attrs :: "bytes \<Rightarrow> cp_entry list \<Rightarrow> nat \<Rightarrow> nat \<Rightarrow> bool" where
  "stack_map_attrs data pool 0 pos = False"
| "stack_map_attrs data pool (Suc n) pos =
     (if length data < pos + 6 then False
      else let i = unat (read_u16_be data pos); a_len = unat (read_i32_be data (pos + 2)) in
           if i < length pool \<and> pool ! i = Utf8 ''StackMapTable'' then True
           else stack_map_attrs data pool n (pos + (6 + a_len)))"

definition has_stack_map :: "bytes \<Rightarrow> nat \<Rightarrow> nat \<Rightarrow> method_info \<Rightarrow> cp_entry list \<Rightarrow> bool" where
  "has_stack_map data off len m pool =
     (if code_attr_offset m = None then False
      else let et_off = off + len in
      if length data < et_off + 2 then False
      else let attrs_off = et_off + 2 + unat (read_u16_be data et_off) * 8 in
      if length data < attrs_off + 2 then False
      else stack_map_attrs data pool (unat (read_u16_be data attrs_off)) (attrs_off + 2))"

definition rebuild_method_bytes :: "bytes \<Rightarrow> method_info \<Rightarrow> bytes \<Rightarrow> u64 \<Rightarrow> stop + bytes" where
  "rebuild_method_bytes data m compacted removed =
     (let ca_off = the (code_attr_offset m); code_off = the (code_offset m);
          raw_end = raw_offset m + raw_size m; after_code = code_off + code_length m in
      if 2 ^ 63 \<le> unat (of_nat (raw_size m) - removed) then Inl Panic
      else
        bindE (nslice data (raw_offset m) code_off) (\<lambda>before.
        bindE (if after_code < raw_end then nslice data after_code raw_end else Inr []) (\<lambda>after.
        let result = before @ compacted @ after;
            cl_off = code_off - raw_offset m - 4;
            result = (if cl_off + 4 \<le> length result
                      then splice_at result cl_off (to_be 4 (of_nat (length compacted) :: u32)) else result);
            al_off = ca_off + 2 - raw_offset m in
        if al_off + 4 \<le> length result
        then bindE (nslice data (ca_off + 2) (ca_off + 6)) (\<lambda>al.
             Inr (splice_at result al_off (to_be 4 (from_be al - ucast removed :: u32))))
        else Inr result)))"

definition relative_ranges :: "nat \<Rightarrow> nat \<Rightarrow> ival list \<Rightarrow> ival list" where
  "relative_ranges code_off code_len dead =
     filter (\<lambda>(rs, re). unat re \<le> code_len)
       (map (\<lambda>(s, e). (sat_sub s (of_nat code_off), sat_sub e (of_nat code_off))) dead)"

definition compact_method_code :: "bytes \<Rightarrow> method_info \<Rightarrow> ival list \<Rightarrow> cp_entry list \<Rightarrow> stop + bytes" where
  "compact_method_code data m dead pool =
     bindE (ok_or (code_offset m) NoResult) (\<lambda>code_off.
     let code_len = code_length m in
     bindE (ok_or (code_attr_offset m) NoResult) (\<lambda>_.
     if code_len = 0 \<or> dead = [] then Inl NoResult
     else if 0 < exception_table_len m then Inl NoResult
     else bindE (ok_or (has_switch data code_off code_len) Panic) (\<lambda>sw.
     if sw then Inl NoResult
     else if has_stack_map data code_off code_len m pool then Inl NoResult
     else
       let rel_ranges = sort_key fst (relative_ranges code_off code_len dead) in
       if rel_ranges = [] then Inl NoResult
       else if length data < code_off + code_len then Inl NoResult
       else
         let code = take code_len (drop code_off data) in
         bindE (excise_ranges (patch_code_branches code code_len rel_ranges) rel_ranges) (\<lambda>compacted.
         let removed = of_nat code_len - of_nat (length compacted) in
         if removed = 0 then Inl NoResult
         else rebuild_method_bytes data m compacted removed))))"

end
