(* ===== verification/Java.thy ===== *)
theory Java
  imports Java_Compact Reachability ZeroFill "HOL-Library.AList"
begin

text \<open>
  \<open>src/format/java/mod.rs\<close>: the analysis of a class file and its reassembly. \<open>None\<close> is the
  panic. A hash map is a list of its entries, an insertion replaces the entry of the key.
\<close>

section \<open>Analysis\<close>

text \<open>The class, or what the caller returns when there is none.\<close>

definition with_class :: "bytes \<Rightarrow> 'a \<Rightarrow> (class_file \<Rightarrow> 'a option) \<Rightarrow> 'a option" where
  "with_class data none f =
     (case parse_classfile data of Inl NoResult \<Rightarrow> Some none | Inl Panic \<Rightarrow> None | Inr cf \<Rightarrow> f cf)"

definition method_name :: "class_file \<Rightarrow> method_info \<Rightarrow> fname" where
  "method_name cf m = cp_utf8 (constant_pool cf) (name_index m)"

text \<open>Public or protected.\<close>

definition exported :: "method_info \<Rightarrow> bool" where
  "exported m \<longleftrightarrow> m_access m AND 0x0001 \<noteq> 0 \<or> m_access m AND 0x0004 \<noteq> 0"

definition build_func_map :: "class_file \<Rightarrow> func_map" where
  "build_func_map cf =
     foldl (\<lambda>funcs m.
        if method_name cf m = [] then funcs
        else AList.update (method_name cf m)
               \<lparr>fi_addr = of_nat (raw_offset m), fi_size = of_nat (raw_size m), is_global = exported m\<rparr> funcs)
       [] (methods cf)"

definition is_root :: "class_file \<Rightarrow> method_info \<Rightarrow> bool" where
  "is_root cf m \<longleftrightarrow> method_name cf m \<in> {''main'', ''<init>'', ''<clinit>''} \<or> exported m"

definition call_graph :: "bytes \<Rightarrow> class_file \<Rightarrow> nat adj" where
  "call_graph data cf =
     List.map_filter (\<lambda>(i, m). map_option (\<lambda>co. (i, scan_bytecode_calls data cf co (code_length m))) (code_offset m))
       (zip [0..<length (methods cf)] (methods cf))"

definition bfs_live :: "bytes \<Rightarrow> class_file \<Rightarrow> nat list" where
  "bfs_live data cf =
     bfs (filter (\<lambda>i. is_root cf (methods cf ! i)) [0..<length (methods cf)]) (call_graph data cf)"

definition find_dead_methods :: "bytes \<Rightarrow> class_file \<Rightarrow> dead_map" where
  "find_dead_methods data cf =
     (let live = bfs_live data cf in
      foldl (\<lambda>dead (i, m).
         if i \<in> set live \<or> method_name cf m = [] then dead
         else AList.update (method_name cf m) (of_nat (raw_offset m), of_nat (raw_size m)) dead)
        [] (zip [0..<length (methods cf)] (methods cf)))"

definition analyze_java :: "bytes \<Rightarrow> (func_map \<times> dead_map \<times> sect list) option" where
  "analyze_java data =
     with_class data ([], [], []) (\<lambda>cf.
       let funcs = build_func_map cf in
       if funcs = [] then Some ([], [], []) else Some (funcs, find_dead_methods data cf, []))"

text \<open>The indices of the methods whose name is in the dead map.\<close>

definition dead_indices :: "class_file \<Rightarrow> dead_map \<Rightarrow> nat list" where
  "dead_indices cf dead =
     filter (\<lambda>i. map_of dead (method_name cf (methods cf ! i)) \<noteq> None) [0..<length (methods cf)]"

definition find_java_dead_blocks :: "bytes \<Rightarrow> dead_map \<Rightarrow> dead_block list option" where
  "find_java_dead_blocks data dead =
     with_class data [] (\<lambda>cf.
       Some (find_dead_branches data cf
               (filter (\<lambda>i. i \<notin> set (dead_indices cf dead)) (bfs_live data cf))))"

section \<open>Reassembly\<close>

definition block_range :: "dead_block \<Rightarrow> ival" where
  "block_range db = (db_addr db, db_addr db + db_size db)"

definition in_code :: "ival \<Rightarrow> method_info \<Rightarrow> bool" where
  "in_code r m = (case code_offset m of None \<Rightarrow> False
     | Some co \<Rightarrow> co \<le> unat (fst r) \<and> unat (snd r) \<le> co + code_length m)"

text \<open>The ranges of the blocks whose first enclosing method is the \<open>i\<close>th.\<close>

definition method_dead_blocks :: "class_file \<Rightarrow> dead_block list \<Rightarrow> nat \<Rightarrow> ival list" where
  "method_dead_blocks cf blocks i =
     filter (\<lambda>r. position (in_code r) (methods cf) = Some i) (map block_range blocks)"

text \<open>\<open>data[s..e].fill(0)\<close> for each range inside the file.\<close>

fun nop_fill :: "bytes \<Rightarrow> ival list \<Rightarrow> bytes option" where
  "nop_fill data [] = Some data"
| "nop_fill data ((s, e) # ranges) =
     (if unat e \<le> length data then fill_slice data s e 0x00 \<bind> (\<lambda>data. nop_fill data ranges)
      else nop_fill data ranges)"

text \<open>\<open>data[raw_offset..raw_offset + raw_size]\<close>\<close>

definition raw_bytes :: "bytes \<Rightarrow> method_info \<Rightarrow> bytes option" where
  "raw_bytes data m = ok (nslice data (raw_offset m) (raw_offset m + raw_size m))"

text \<open>The new bytes of each live method; a method whose blocks cannot be removed gets them filled in
  the buffer first. The bytes are kept in one list per method.\<close>

fun live_bytes ::
  "bytes \<Rightarrow> class_file \<Rightarrow> dead_block list \<Rightarrow> (nat \<times> method_info) list \<Rightarrow> (bytes \<times> bytes list) option" where
  "live_bytes data cf blocks [] = Some (data, [])"
| "live_bytes data cf blocks ((i, m) # ms) =
     (let ranges = method_dead_blocks cf blocks i in
      (case if ranges = [] then Inl NoResult else compact_method_code data m ranges (constant_pool cf) of
         Inr compacted \<Rightarrow> Some (data, compacted)
       | Inl Panic \<Rightarrow> None
       | Inl NoResult \<Rightarrow> nop_fill data ranges \<bind> (\<lambda>data. raw_bytes data m \<bind> (\<lambda>bs. Some (data, bs))))
      \<bind> (\<lambda>(data, bs). live_bytes data cf blocks ms \<bind> (\<lambda>(data, rest). Some (data, bs # rest))))"

definition methods_end :: "class_file \<Rightarrow> nat" where
  "methods_end cf =
     (if methods cf = [] then methods_count_offset cf + 2
      else raw_offset (last (methods cf)) + raw_size (last (methods cf)))"

text \<open>The new contents of the buffer and the counts of functions, bytes, blocks, block bytes.\<close>

definition reassemble_java ::
  "bytes \<Rightarrow> dead_map \<Rightarrow> dead_block list \<Rightarrow> (bytes \<times> nat \<times> u64 \<times> nat \<times> u64) option" where
  "reassemble_java data dead blocks =
     with_class data (data, 0, 0, 0, 0) (\<lambda>cf.
       if dead = [] \<and> (\<forall>i \<in> set [0..<length (methods cf)]. method_dead_blocks cf blocks i = [])
       then Some (data, 0, 0, 0, 0)
       else
         let gone = dead_indices cf dead;
             live = filter (\<lambda>(i, m). i \<notin> set gone) (zip [0..<length (methods cf)] (methods cf));
             new_count = of_nat (length live) :: u16;
             mco = methods_count_offset cf in
         do {
           (data, method_bytes) \<leftarrow> live_bytes data cf blocks live;
           start \<leftarrow> ok (nslice data 0 mco);
           tail \<leftarrow> ok (nslice data (methods_end cf) (length data));
           let new_data = start @ [ucast (drop_bit 8 new_count), ucast (new_count AND 0xFF)] @ concat method_bytes @ tail;
           Some (new_data, length gone, of_nat (length data - length new_data), length blocks,
                 sum_list (map db_size blocks))
         })"

end
