(* ===== verification/Java_Flow.thy ===== *)
theory Java_Flow
  imports Java_Bytecode
begin

text \<open>
  The control flow of Java bytecode, from the Java virtual machine specification, and what
  \<open>scan_dead_in_method\<close> promises about it: code it reports is never executed in a method without
  exception handlers. The specification counts the padding of a switch from the start of the
  code; \<open>opcode_length\<close> counts it from the start of the file, so the two agree on a method with a
  switch only where its code starts at a multiple of four.
\<close>

section \<open>Instructions\<close>

text \<open>Lengths of the instructions 0x00 to 0xC9, zero for the three that vary.\<close>

definition fixed_lengths :: "nat list" where
  "fixed_lengths =
     replicate 16 1 @ [2, 3, 2, 3, 3] @ replicate 5 2 @ replicate 28 1 @ replicate 5 2 @ replicate 73 1
     @ [3] @ replicate 20 1 @ replicate 16 3 @ [2, 0, 0] @ replicate 6 1 @ replicate 7 3
     @ [5, 5, 3, 2, 3, 1, 1, 3, 3, 1, 1, 0, 4, 3, 3, 5, 5]"

definition switch_operands :: "nat \<Rightarrow> nat \<Rightarrow> nat" where
  "switch_operands off pos = pos + 1 + switch_pad (pos - off)"

definition table_entries :: "bytes \<Rightarrow> nat \<Rightarrow> nat" where
  "table_entries data p = nat (sint (read_i32_be data (p + 8)) - sint (read_i32_be data (p + 4)) + 1)"

definition lookup_entries :: "bytes \<Rightarrow> nat \<Rightarrow> nat" where
  "lookup_entries data p = nat (sint (read_i32_be data (p + 4)))"

definition jvm_length :: "bytes \<Rightarrow> nat \<Rightarrow> nat \<Rightarrow> nat" where
  "jvm_length data off pos =
     (let op = data ! pos; p = switch_operands off pos in
      if op = 0xAA then p + 12 + 4 * table_entries data p - pos
      else if op = 0xAB then p + 8 + 8 * lookup_entries data p - pos
      else if op = 0xC4 then (if data ! (pos + 1) = 0x84 then 6 else 4)
      else fixed_lengths ! unat op)"

text \<open>Where the instruction can jump, relative to the start of the code.\<close>

definition jvm_targets :: "bytes \<Rightarrow> nat \<Rightarrow> nat \<Rightarrow> int set" where
  "jvm_targets data off pos =
     (let op = data ! pos; pc = int (pos - off); p = switch_operands off pos in
      if between 0x99 0xA8 op \<or> op = 0xC6 \<or> op = 0xC7 then {pc + sint (read_i16_be data (pos + 1))}
      else if op = 0xC8 \<or> op = 0xC9 then {pc + sint (read_i32_be data (pos + 1))}
      else if op = 0xAA then
        insert (pc + sint (read_i32_be data p))
          ((\<lambda>j. pc + sint (read_i32_be data (p + 12 + j * 4))) ` {..<table_entries data p})
      else if op = 0xAB then
        insert (pc + sint (read_i32_be data p))
          ((\<lambda>j. pc + sint (read_i32_be data (p + 8 + j * 8 + 4))) ` {..<lookup_entries data p})
      else {})"

text \<open>Returns, \<open>athrow\<close>, \<open>goto\<close>, \<open>goto_w\<close>, \<open>ret\<close> and the switches; a subroutine that \<open>ret\<close> leaves
  comes back after its \<open>jsr\<close>, which falls through here.\<close>

definition no_fallthrough :: "u8 \<Rightarrow> bool" where
  "no_fallthrough op \<longleftrightarrow> between 0xAC 0xB1 op \<or> op \<in> {0xBF, 0xA7, 0xC8, 0xA9, 0xAA, 0xAB}"

text \<open>The exception table follows the code: a count, then entries of eight bytes with the handler
  in the third field.\<close>

definition handler_pcs :: "bytes \<Rightarrow> nat \<Rightarrow> nat set" where
  "handler_pcs data end' = (\<lambda>j. count16 data (end' + 2 + 8 * j + 4)) ` {..<count16 data end'}"

section \<open>Positions and executions\<close>

inductive jvm_instr :: "bytes \<Rightarrow> nat \<Rightarrow> nat \<Rightarrow> nat \<Rightarrow> bool" for data off end' where
  first: "jvm_instr data off end' off"
| next_instr: "jvm_instr data off end' pos \<Longrightarrow> pos + jvm_length data off pos < end' \<Longrightarrow>
    jvm_instr data off end' (pos + jvm_length data off pos)"

text \<open>What the verifier of the virtual machine checks: known instructions that end in the code, and
  jumps and handlers that start at one.\<close>

definition jvm_code_ok :: "bytes \<Rightarrow> nat \<Rightarrow> nat \<Rightarrow> bool" where
  "jvm_code_ok data off end' \<longleftrightarrow> off < end' \<and> end' - off < 2 ^ 16 \<and>
     (\<forall>pos. jvm_instr data off end' pos \<longrightarrow>
        data ! pos < 0xCA \<and> pos + jvm_length data off pos \<le> end'
        \<and> (\<forall>t \<in> jvm_targets data off pos. 0 \<le> t \<and> off + nat t < end' \<and> jvm_instr data off end' (off + nat t)))
     \<and> (\<forall>h \<in> handler_pcs data end'. off + h < end' \<and> jvm_instr data off end' (off + h))"

inductive jvm_reach :: "bytes \<Rightarrow> nat \<Rightarrow> nat \<Rightarrow> nat \<Rightarrow> bool" for data off end' where
  entry: "jvm_reach data off end' off"
| fall: "jvm_reach data off end' pos \<Longrightarrow> \<not> no_fallthrough (data ! pos) \<Longrightarrow>
    pos + jvm_length data off pos < end' \<Longrightarrow> jvm_reach data off end' (pos + jvm_length data off pos)"
| jump: "jvm_reach data off end' pos \<Longrightarrow> t \<in> jvm_targets data off pos \<Longrightarrow>
    jvm_reach data off end' (off + nat t)"
| handler: "h \<in> handler_pcs data end' \<Longrightarrow> jvm_reach data off end' (off + h)"

section \<open>The two lengths\<close>

text \<open>The length of each opcode by the program's table, as a function of its number.\<close>

definition table_length :: "int \<Rightarrow> nat" where
  "table_length n =
     (if n \<le> 15 \<or> 26 \<le> n \<and> n \<le> 53 \<or> 70 \<le> n \<and> n \<le> 131 \<or> 133 \<le> n \<and> n \<le> 152
         \<or> 172 \<le> n \<and> n \<le> 177 \<or> n \<in> {190, 191, 194, 195, 202} then 1
      else if n \<in> {16, 18, 169, 188} \<or> 21 \<le> n \<and> n \<le> 25 \<or> 54 \<le> n \<and> n \<le> 58 then 2
      else if n \<in> {17, 19, 20, 132, 187, 189, 192, 193, 198, 199} \<or> 153 \<le> n \<and> n \<le> 168
         \<or> 178 \<le> n \<and> n \<le> 184 then 3
      else if n = 200 \<or> n = 201 then 5 else if n = 185 \<or> n = 186 then 5 else if n = 197 then 4 else 1)"

fun table_agrees :: "int \<Rightarrow> nat list \<Rightarrow> bool" where
  "table_agrees n [] \<longleftrightarrow> True"
| "table_agrees n (l # ls) \<longleftrightarrow> (n \<in> {170, 171, 196} \<or> table_length n = l) \<and> table_agrees (n + 1) ls"

lemma table_agrees_nth:
  "table_agrees n ls \<Longrightarrow> i < length ls \<Longrightarrow> n + int i \<notin> {170, 171, 196} \<Longrightarrow> table_length (n + int i) = ls ! i"
proof (induction n ls arbitrary: i rule: table_agrees.induct)
  case (2 n l ls)
  then show ?case by (cases i) (auto simp: algebra_simps)
qed simp

lemma opcode_uint:
  "one_byte op \<longleftrightarrow> uint op \<le> 15 \<or> 26 \<le> uint op \<and> uint op \<le> 53 \<or> 70 \<le> uint op \<and> uint op \<le> 131
     \<or> 133 \<le> uint op \<and> uint op \<le> 152 \<or> 172 \<le> uint op \<and> uint op \<le> 177 \<or> uint op \<in> {190, 191, 194, 195, 202}"
  "two_bytes op \<longleftrightarrow> uint op \<in> {16, 18, 169, 188} \<or> 21 \<le> uint op \<and> uint op \<le> 25 \<or> 54 \<le> uint op \<and> uint op \<le> 58"
  "three_bytes op \<longleftrightarrow> uint op \<in> {17, 19, 20, 132, 187, 189, 192, 193, 198, 199} \<or> 153 \<le> uint op \<and> uint op \<le> 168
     \<or> 178 \<le> uint op \<and> uint op \<le> 184"
  by (simp_all add: one_byte_def two_bytes_def three_bytes_def between_def word_le_def word_uint_eq_iff)

lemma fixed_length:
  assumes "op < 0xCA" and "op \<notin> {0xAA, 0xAB, 0xC4}"
  shows "opcode_length op data pos end' = fixed_lengths ! unat op"
proof -
  have "table_agrees 0 fixed_lengths \<and> length fixed_lengths = 202" by code_simp
  moreover have "unat op < 202" "0 + int (unat op) = uint op" using assms(1) by (simp_all add: word_less_nat_alt)
  moreover have "uint op \<notin> {170, 171, 196}" using assms(2) by (auto simp: word_uint_eq_iff)
  ultimately have "table_length (uint op) = fixed_lengths ! unat op"
    using table_agrees_nth [of 0 fixed_lengths "unat op"] by simp
  moreover have "opcode_length op data pos end' =
      (if one_byte op then 1 else if two_bytes op then 2 else if three_bytes op then 3
       else if op = 0xC8 \<or> op = 0xC9 then 5 else if op = 0xB9 \<or> op = 0xBA then 5
       else if op = 0xC5 then 4 else 1)"
    using assms(2) by (simp add: opcode_length_def Let_def)
  moreover have "\<dots> = table_length (uint op)"
    unfolding opcode_uint table_length_def by (simp add: word_uint_eq_iff)
  ultimately show ?thesis by simp
qed

lemma jvm_length_pos [simp]: "0 < jvm_length data off pos \<or> 0xCA \<le> data ! pos"
proof (cases "data ! pos \<in> {0xAA, 0xAB, 0xC4}")
  case True
  then show ?thesis by (auto simp: jvm_length_def Let_def switch_operands_def)
next
  case False
  have "0 < fixed_lengths ! unat (data ! pos)" if "data ! pos < 0xCA"
    using fixed_length [OF that False, of data pos 0] opcode_length_pos by metis
  then have "0 < jvm_length data off pos" if "data ! pos < 0xCA"
    using that False by (simp add: jvm_length_def Let_def)
  then show ?thesis by (meson linorder_not_le)
qed

lemma sint_nonneg: "0 \<le> sint n \<Longrightarrow> sint n = int (unat (n :: i32))"
proof -
  assume "0 \<le> sint n"
  then have "sint n = take_bit 32 (sint n)"
    using sint_lt [of n] by (simp add: take_bit_int_eq_self)
  also have "\<dots> = uint n" using uint_sint [of n] by simp
  finally show ?thesis by simp
qed

lemma nat_sint: "(if n <s 0 then 0 else unat n) = nat (sint (n :: i32))"
  using sint_nonneg [of n] by (auto simp: word_sless_alt not_less)

text \<open>The announced entries of a switch that ends in the code are those the program reads.\<close>

lemma table_fits:
  assumes "data ! pos = 0xAA" and "pos + jvm_length data off pos \<le> end'"
  shows "switch_operands off pos + 12 + 4 * table_entries data (switch_operands off pos) \<le> end'"
    and "table_count data (switch_operands off pos) end' = table_entries data (switch_operands off pos)"
proof -
  let ?p = "switch_operands off pos"
  have "jvm_length data off pos = ?p + 12 + 4 * table_entries data ?p - pos"
    using assms(1) by (simp add: jvm_length_def Let_def)
  then show 1: "?p + 12 + 4 * table_entries data ?p \<le> end'"
    using assms(2) by (simp add: switch_operands_def)
  then show "table_count data ?p end' = table_entries data ?p"
    by (simp add: table_count_def table_entries_def min_def max_def)
qed

lemma lookup_fits:
  assumes "data ! pos = 0xAB" and "pos + jvm_length data off pos \<le> end'"
  shows "switch_operands off pos + 8 + 8 * lookup_entries data (switch_operands off pos) \<le> end'"
    and "lookup_count data (switch_operands off pos) end' = lookup_entries data (switch_operands off pos)"
proof -
  let ?p = "switch_operands off pos"
  have "jvm_length data off pos = ?p + 8 + 8 * lookup_entries data ?p - pos"
    using assms(1) by (simp add: jvm_length_def Let_def)
  then show 1: "?p + 8 + 8 * lookup_entries data ?p \<le> end'"
    using assms(2) by (simp add: switch_operands_def)
  then show "lookup_count data ?p end' = lookup_entries data ?p"
    by (simp add: lookup_count_def lookup_entries_def nat_sint min_def Let_def)
qed

lemma opcode_length_spec:
  assumes "data ! pos < 0xCA" and "off \<le> pos" and fits: "pos + jvm_length data off pos \<le> end'"
    and al: "data ! pos \<in> {0xAA, 0xAB} \<longrightarrow> off mod 4 = 0"
  shows "opcode_length (data ! pos) data pos end' = jvm_length data off pos"
proof -
  have pad: "switch_pad pos = switch_pad (pos - off)" if "off mod 4 = 0"
  proof -
    have "4 dvd off" using that by presburger
    then obtain k where "off = 4 * k" by (rule dvdE)
    then have "pos = pos - off + 4 * k" using assms(2) by simp
    then show ?thesis by (metis add.assoc add.commute mod_mult_self2 switch_pad_def)
  qed
  let ?p = "switch_operands off pos"
  have ev: "\<not> one_byte op \<and> \<not> two_bytes op \<and> \<not> three_bytes op" if "op \<in> {0xAA, 0xAB, 0xC4}" for op
    using that by (auto simp: one_byte_def two_bytes_def three_bytes_def between_def)
  consider (table) "data ! pos = 0xAA" | (lookup) "data ! pos = 0xAB" | (wide) "data ! pos = 0xC4"
    | (other) "data ! pos \<notin> {0xAA, 0xAB, 0xC4}" by blast
  then show ?thesis
  proof cases
    case table
    note tf = table_fits [OF table fits]
    then have "?p + 12 \<le> end'" by simp
    then show ?thesis
      using table fits al pad ev [of "0xAA"] tf(2)
      by (simp add: opcode_length_def jvm_length_def switch_operands_def Let_def)
  next
    case lookup
    note lf = lookup_fits [OF lookup fits]
    then have "?p + 8 \<le> end'" by simp
    then show ?thesis
      using lookup fits al pad ev [of "0xAB"] lf(2)
      by (simp add: opcode_length_def jvm_length_def switch_operands_def Let_def)
  next
    case wide
    then have "pos + 1 < end'" using fits by (auto simp: jvm_length_def Let_def split: if_splits)
    then show ?thesis using wide ev [of "0xC4"] by (simp add: opcode_length_def jvm_length_def Let_def)
  next
    case other
    then show ?thesis using fixed_length [OF assms(1) other] by (simp add: jvm_length_def Let_def)
  qed
qed


section \<open>Positions of instructions\<close>

lemma jvm_instr_ge: "jvm_instr data off end' pos \<Longrightarrow> off \<le> pos"
  by (induction rule: jvm_instr.induct) auto

lemma jvm_instr_less: "jvm_instr data off end' pos \<Longrightarrow> off < end' \<Longrightarrow> pos < end'"
  by (induction rule: jvm_instr.induct) auto

lemma jvm_code_okD:
  assumes "jvm_code_ok data off end'" and "jvm_instr data off end' pos"
  shows "data ! pos < 0xCA" and "pos + jvm_length data off pos \<le> end'" and "0 < jvm_length data off pos"
    and "off \<le> pos" and "pos < end'"
    and "t \<in> jvm_targets data off pos \<Longrightarrow> 0 \<le> t \<and> jvm_instr data off end' (off + nat t)"
proof -
  show 1: "data ! pos < 0xCA" and "pos + jvm_length data off pos \<le> end'" and "off \<le> pos" and "pos < end'"
    and "t \<in> jvm_targets data off pos \<Longrightarrow> 0 \<le> t \<and> jvm_instr data off end' (off + nat t)"
    using assms jvm_instr_ge [OF assms(2)] jvm_instr_less [OF assms(2)] by (auto simp: jvm_code_ok_def)
  show "0 < jvm_length data off pos" using jvm_length_pos [of data off pos] 1 by (meson linorder_not_le)
qed

lemma instr_gap:
  assumes ok: "jvm_code_ok data off end'"
  shows "jvm_instr data off end' q \<Longrightarrow> jvm_instr data off end' p \<Longrightarrow> p < q \<Longrightarrow> p + jvm_length data off p \<le> q"
proof (induction q arbitrary: p rule: less_induct)
  case (less q)
  from less.prems(1) show ?case
  proof cases
    case first
    then show ?thesis using less.prems jvm_instr_ge [OF less.prems(2)] by simp
  next
    case (next_instr r)
    note pos = jvm_code_okD(3) [OF ok next_instr(2)]
    consider "p < r" | "p = r" | "r < p" by linarith
    then show ?thesis
    proof cases
      case 1
      then show ?thesis using less.IH [OF _ next_instr(2) less.prems(2)] next_instr(1) pos by simp
    next
      case 3
      then show ?thesis using less.IH [OF less.prems(3) less.prems(2) next_instr(2)] next_instr(1) less.prems(3) by simp
    qed (use next_instr in simp)
  qed
qed

text \<open>Switches are aligned as the program assumes.\<close>

definition switches_aligned :: "bytes \<Rightarrow> nat \<Rightarrow> nat \<Rightarrow> bool" where
  "switches_aligned data off end' \<longleftrightarrow>
     off mod 4 = 0 \<or> (\<forall>pos. jvm_instr data off end' pos \<longrightarrow> data ! pos \<notin> {0xAA, 0xAB})"

lemma length_agrees:
  assumes "jvm_code_ok data off end'" and "switches_aligned data off end'" and "jvm_instr data off end' pos"
  shows "opcode_length (data ! pos) data pos end' = jvm_length data off pos"
  using assms(2,3) jvm_code_okD [OF assms(1,3)]
  by (intro opcode_length_spec) (auto simp: switches_aligned_def)

lemma sweep_next:
  assumes "jvm_code_ok data off end'" and "switches_aligned data off end'" and "jvm_instr data off end' pos"
  defines "q \<equiv> pos + opcode_length (data ! pos) data pos end'"
  shows "q = end' \<or> jvm_instr data off end' q"
  using jvm_code_okD(2) [OF assms(1,3)] jvm_instr.next_instr [OF assms(3)]
  unfolding q_def length_agrees [OF assms(1-3)] by fastforce

section \<open>The branch targets\<close>

lemma short_length:
  "between 0x99 0xA8 (data ! pos) \<or> data ! pos = 0xC6 \<or> data ! pos = 0xC7 \<Longrightarrow> jvm_length data off pos = 3"
proof -
  assume short: "between 0x99 0xA8 (data ! pos) \<or> data ! pos = 0xC6 \<or> data ! pos = 0xC7"
  let ?op = "data ! pos"
  have u: "0x99 \<le> unat ?op" "unat ?op \<le> 0xA8 \<or> unat ?op = 0xC6 \<or> unat ?op = 0xC7"
    using short by (auto simp: between_def word_le_nat_alt word_unat_eq_iff)
  have "\<not> one_byte ?op" "\<not> two_bytes ?op" "three_bytes ?op" "?op < 0xCA" "?op \<notin> {0xAA, 0xAB, 0xC4}"
    using u by (auto simp: one_byte_def two_bytes_def three_bytes_def between_def word_le_nat_alt
        word_less_nat_alt word_unat_eq_iff)
  then show ?thesis
    using fixed_length [of ?op data pos 0] by (auto simp: jvm_length_def opcode_length_def Let_def)
qed

lemma targets_found:
  assumes "jvm_code_ok data off end'" and i: "jvm_instr data off end' pos" and t: "t \<in> jvm_targets data off pos"
  shows "word_of_int t \<in> set (instr_targets data off end' pos)"
proof -
  note ok = jvm_code_okD [OF assms(1) i]
  let ?op = "data ! pos" and ?p = "switch_operands off pos"
  have w: "word_of_int (int (pos - off) + sint x) = of_nat (pos - off) + x" for x :: i32 by simp
  consider (short) "between 0x99 0xA8 ?op \<or> ?op = 0xC6 \<or> ?op = 0xC7" | (wide) "?op = 0xC8 \<or> ?op = 0xC9"
    | (table) "?op = 0xAA" | (lookup) "?op = 0xAB"
    using t by (auto simp: jvm_targets_def Let_def split: if_splits)
  then show ?thesis
  proof cases
    case short
    then have fit: "pos + 3 \<le> end'" using ok(2) short_length by simp
    have "cond_branch op \<or> op = 0xA7" if "between 0x99 0xA8 op" for op
    proof -
      have "0x99 \<le> unat op" "unat op \<le> 0xA8" using that by (simp_all add: between_def word_le_nat_alt)
      then have "unat op \<le> 0xA6 \<or> unat op = 0xA7 \<or> unat op = 0xA8" by linarith
      with that show ?thesis by (auto simp: cond_branch_def between_def word_le_nat_alt word_unat_eq_iff)
    qed
    then have "cond_branch ?op \<or> ?op = 0xA7" using short by (auto simp: cond_branch_def)
    then show ?thesis using t short fit by (simp add: jvm_targets_def instr_targets_def w)
  next
    case wide
    moreover have "fixed_lengths ! 0xC8 = 5" "fixed_lengths ! 0xC9 = 5" by code_simp+
    ultimately have "pos + 5 \<le> end'" using ok(2) by (auto simp: jvm_length_def Let_def)
    moreover have "\<not> cond_branch ?op" "\<not> between 0x99 0xA8 ?op"
      using wide by (auto simp: cond_branch_def between_def)
    ultimately show ?thesis using t wide by (auto simp: jvm_targets_def instr_targets_def Let_def)
  next
    case table
    note tf = table_fits [OF table ok(2)]
    have nb: "\<not> cond_branch ?op" "\<not> between 0x99 0xA8 ?op" using table by (simp_all add: cond_branch_def between_def)
    have it: "set (instr_targets data off end' pos) = insert (of_nat (pos - off) + read_i32_be data ?p)
        ((\<lambda>j. of_nat (pos - off) + read_i32_be data (?p + 12 + j * 4)) ` {..<table_entries data ?p})"
    proof -
      have "filter (\<lambda>o'. o' + 4 \<le> end') (map (\<lambda>j. ?p + 12 + j * 4) [0..<table_entries data ?p])
          = map (\<lambda>j. ?p + 12 + j * 4) [0..<table_entries data ?p]"
        using tf(1) by (intro filter_True) auto
      then show ?thesis
        using tf(1) unfolding instr_targets_def Let_def switch_operands_def [symmetric]
        by (simp add: table nb(1) [unfolded table] tf(2) lessThan_atLeast0 image_image)
    qed
    show ?thesis using t table nb(2) unfolding it by (auto simp: jvm_targets_def Let_def)
  next
    case lookup
    note lf = lookup_fits [OF lookup ok(2)]
    have nb: "\<not> cond_branch ?op" "\<not> between 0x99 0xA8 ?op" using lookup by (simp_all add: cond_branch_def between_def)
    have it: "set (instr_targets data off end' pos) = insert (of_nat (pos - off) + read_i32_be data ?p)
        ((\<lambda>j. of_nat (pos - off) + read_i32_be data (?p + 8 + j * 8 + 4)) ` {..<lookup_entries data ?p})"
    proof -
      have "filter (\<lambda>o'. o' + 4 \<le> end') (map (\<lambda>j. ?p + 8 + j * 8 + 4) [0..<lookup_entries data ?p])
          = map (\<lambda>j. ?p + 8 + j * 8 + 4) [0..<lookup_entries data ?p]"
        using lf(1) by (intro filter_True) auto
      then show ?thesis
        using lf(1) unfolding instr_targets_def Let_def switch_operands_def [symmetric]
        by (simp add: lookup nb(1) [unfolded lookup] lf(2) lessThan_atLeast0 image_image)
    qed
    show ?thesis using t lookup nb(2) unfolding it by (auto simp: jvm_targets_def Let_def)
  qed
qed

text \<open>Every target of every instruction from \<open>pos\<close> on is collected.\<close>

lemma collect_targets_complete:
  assumes ok: "jvm_code_ok data off end'" and al: "switches_aligned data off end'"
    and i: "jvm_instr data off end' q" and t: "t \<in> jvm_targets data off q"
  shows "jvm_instr data off end' pos \<Longrightarrow> pos \<le> q \<Longrightarrow> word_of_int t \<in> set (collect_targets data off end' pos)"
proof (induction "end' - pos" arbitrary: pos rule: less_induct)
  case less
  note pos = jvm_code_okD [OF ok less.prems(1)] and len = length_agrees [OF ok al less.prems(1)]
  show ?case
  proof (cases "pos = q")
    case True
    then show ?thesis using targets_found [OF ok i t] pos(5) by (subst collect_targets.simps) simp
  next
    case False
    then have le: "pos + jvm_length data off pos \<le> q"
      using instr_gap [OF ok i less.prems(1)] less.prems(2) by simp
    then have "pos + jvm_length data off pos < end'" using jvm_code_okD(5) [OF ok i] by simp
    then have "jvm_instr data off end' (pos + jvm_length data off pos)"
      by (rule jvm_instr.next_instr [OF less.prems(1)])
    then have "word_of_int t \<in> set (collect_targets data off end' (pos + jvm_length data off pos))"
      using le pos(3,5) by (intro less.hyps) auto
    then show ?thesis using pos(5) by (subst collect_targets.simps) (simp add: len)
  qed
qed

section \<open>The scan\<close>

text \<open>What holds of a region the scan opens at \<open>s\<close> and has followed up to \<open>e\<close>: it starts after a
  terminator and no instruction in it is a target.\<close>

definition dead_from :: "bytes \<Rightarrow> nat \<Rightarrow> nat \<Rightarrow> u32 set \<Rightarrow> nat \<Rightarrow> nat \<Rightarrow> bool" where
  "dead_from data off end' tgts s e \<longleftrightarrow>
     (\<exists>t. jvm_instr data off end' t \<and> is_terminator (data ! t) \<and> s = t + jvm_length data off t)
     \<and> (\<forall>q. jvm_instr data off end' q \<longrightarrow> s \<le> q \<longrightarrow> q < e \<longrightarrow> of_nat (q - off) \<notin> tgts)"

lemma dead_from_step:
  assumes "jvm_code_ok data off end'" and "jvm_instr data off end' pos" and "of_nat (pos - off) \<notin> tgts"
    and d: "dead_from data off end' tgts s pos"
  shows "dead_from data off end' tgts s (pos + jvm_length data off pos)"
  using d instr_gap [OF assms(1) _ assms(2)] assms(3) unfolding dead_from_def
  by (metis linorder_not_le nat_neq_iff)

lemma dead_from_open:
  assumes "jvm_instr data off end' pos" and "is_terminator (data ! pos)"
  shows "dead_from data off end' tgts (pos + jvm_length data off pos) (pos + jvm_length data off pos)"
  using assms by (auto simp: dead_from_def)

lemma dead_region_elem:
  "b \<in> set (dead_region name s e) \<Longrightarrow> 2 \<le> e - s \<and> b = \<lparr>db_func = name, db_addr = of_nat s, db_size = of_nat (e - s)\<rparr>"
  by (auto simp: dead_region_def split: if_splits)

lemma scan_dead_sound:
  assumes ok: "jvm_code_ok data off end'" and al: "switches_aligned data off end'"
  shows "pos = end' \<or> jvm_instr data off end' pos \<Longrightarrow>
    (\<forall>s. ds = Some s \<longrightarrow> s \<le> pos \<and> dead_from data off end' (set tgts) s pos) \<Longrightarrow>
    b \<in> set (scan_dead data off end' tgts name ds pos) \<Longrightarrow>
    \<exists>s e. 2 \<le> e - s \<and> e \<le> end' \<and> dead_from data off end' (set tgts) s e
      \<and> b = \<lparr>db_func = name, db_addr = of_nat s, db_size = of_nat (e - s)\<rparr>"
proof (induction "end' - pos" arbitrary: pos ds rule: less_induct)
  case less
  show ?case
  proof (cases "pos = end'")
    case True
    then show ?thesis
      using less.prems dead_region_elem [of b name _ end']
      by (auto simp: scan_dead.simps [of _ _ _ _ _ _ end'] split: option.splits)
  next
    case False
    then have i: "jvm_instr data off end' pos" using less.prems(1) by simp
    note pos = jvm_code_okD [OF ok i] and len = length_agrees [OF ok al i]
    let ?q = "pos + jvm_length data off pos"
    have q: "?q = end' \<or> jvm_instr data off end' ?q" using sweep_next [OF ok al i] len by simp
    have m: "end' - ?q < end' - pos" using pos by simp
    show ?thesis
    proof (cases "ds \<noteq> None \<and> of_nat (pos - off) \<notin> set tgts")
      case True
      then have "b \<in> set (scan_dead data off end' tgts name ds ?q)"
        using less.prems(3) pos(5) len by (simp add: scan_dead.simps [of _ _ _ _ _ _ pos])
      moreover have "\<forall>s. ds = Some s \<longrightarrow> s \<le> ?q \<and> dead_from data off end' (set tgts) s ?q"
        using less.prems(2) dead_from_step [OF ok i] True by auto
      ultimately show ?thesis using less.hyps [OF m q] by blast
    next
      case False
      let ?ds = "if is_terminator (data ! pos) \<and> ?q < end' then Some ?q else None"
      have "scan_dead data off end' tgts name ds pos = (case ds of None \<Rightarrow> [] | Some s \<Rightarrow> dead_region name s pos)
          @ scan_dead data off end' tgts name ?ds ?q"
        using pos(5) len False by (subst scan_dead.simps) (auto simp: Let_def)
      then have "b \<in> set (case ds of None \<Rightarrow> [] | Some s \<Rightarrow> dead_region name s pos)
          \<or> b \<in> set (scan_dead data off end' tgts name ?ds ?q)"
        using less.prems(3) by (simp only: set_append Un_iff)
      then show ?thesis
      proof
        assume "b \<in> set (case ds of None \<Rightarrow> [] | Some s \<Rightarrow> dead_region name s pos)"
        then obtain s where s: "ds = Some s" "b \<in> set (dead_region name s pos)" by (auto split: option.splits)
        then show ?thesis
          using less.prems(2) pos(5) dead_region_elem [OF s(2)] by (intro exI [of _ s] exI [of _ pos]) auto
      next
        assume b: "b \<in> set (scan_dead data off end' tgts name ?ds ?q)"
        have "\<forall>s. ?ds = Some s \<longrightarrow> s \<le> ?q \<and> dead_from data off end' (set tgts) s ?q"
          using dead_from_open [OF i, of "set tgts"] by simp
        then show ?thesis using less.hyps [OF m q _ b] by blast
      qed
    qed
  qed
qed

text \<open>A position the program can be at is an instruction outside such a region.\<close>

lemma terminator_no_fallthrough: "is_terminator op \<Longrightarrow> no_fallthrough op"
  by (auto simp: is_terminator_def no_fallthrough_def between_def)

lemma reach_not_dead:
  assumes ok: "jvm_code_ok data off end'" and al: "switches_aligned data off end'"
    and none: "handler_pcs data end' = {}"
    and d: "dead_from data off end' (set (collect_targets data off end' off)) s e"
  shows "jvm_reach data off end' pos \<Longrightarrow> jvm_instr data off end' pos \<and> \<not> (s \<le> pos \<and> pos < e)"
proof (induction rule: jvm_reach.induct)
  case entry
  obtain t where "jvm_instr data off end' t" "s = t + jvm_length data off t" using d by (auto simp: dead_from_def)
  then show ?case using jvm_code_okD(3,4) [OF ok] by (fastforce intro: jvm_instr.first)
next
  case (fall pos)
  obtain t where t: "jvm_instr data off end' t" "is_terminator (data ! t)" "s = t + jvm_length data off t"
    using d by (auto simp: dead_from_def)
  let ?q = "pos + jvm_length data off pos"
  have "t \<noteq> pos" using fall.hyps(2) t(2) terminator_no_fallthrough by auto
  then consider "pos < t" | "t < pos" by linarith
  then have "\<not> (s \<le> ?q \<and> ?q < e)"
  proof cases
    case 1
    then have "?q \<le> t" using instr_gap [OF ok t(1)] fall.IH by simp
    then show ?thesis using t(3) jvm_code_okD(3) [OF ok t(1)] by simp
  next
    case 2
    then have "s \<le> pos" using instr_gap [OF ok _ t(1)] fall.IH t(3) by simp
    then show ?thesis using fall.IH by simp
  qed
  then show ?case using jvm_instr.next_instr fall by blast
next
  case (jump pos t)
  have "word_of_int t \<in> set (collect_targets data off end' off)"
    using collect_targets_complete [OF ok al _ jump.hyps(2) jvm_instr.first] jump.IH jvm_instr_ge by blast
  moreover have t: "0 \<le> t" "jvm_instr data off end' (off + nat t)"
    using jvm_code_okD(6) [OF ok _ jump.hyps(2)] jump.IH by blast+
  moreover have "of_nat (nat t) = (word_of_int t :: u32)" using t(1) by simp
  ultimately show ?case using d unfolding dead_from_def by (metis add_diff_cancel_left')
qed (use none in simp)

end
