(* ===== verification/Java_Rebuild.thy ===== *)
theory Java_Rebuild
  imports Java
begin

text \<open>
  What a reassembled class file parses to. The parser reads a method from its own bytes wherever
  they stand (\<open>parse_method_at\<close>), and the part of the file before the methods from that part
  alone (\<open>cp_entries_prefix\<close>, \<open>skip_fields_prefix\<close>).
\<close>

section \<open>Bytes at a position\<close>

definition stands_at :: "bytes \<Rightarrow> nat \<Rightarrow> bytes \<Rightarrow> bool" where
  "stands_at d p bs \<longleftrightarrow> (\<exists>pre post. d = pre @ bs @ post \<and> length pre = p)"

lemma stands_at_self [simp]: "stands_at bs 0 bs"
  unfolding stands_at_def by (intro exI [of _ "[]"]) simp

lemma stands_at_slice: "p + n \<le> length d \<Longrightarrow> stands_at d p (take n (drop p d))"
proof -
  assume n: "p + n \<le> length d"
  have "take n (drop p d) @ drop (p + n) d = drop p d" using append_take_drop_id [of n "drop p d"] by (simp add: add.commute)
  then have "d = take p d @ take n (drop p d) @ drop (p + n) d" by simp
  then show ?thesis unfolding stands_at_def using n by (metis add_leD1 length_take min.absorb2)
qed

lemma stands_at_length: "stands_at d p bs \<Longrightarrow> p + length bs \<le> length d"
  by (auto simp: stands_at_def)

lemma stands_at_read:
  assumes "stands_at d p bs" and "k + n \<le> length bs"
  shows "take n (drop (p + k) d) = take n (drop k bs)"
  using assms by (auto simp: stands_at_def)

lemma read_u16_at: "stands_at d p bs \<Longrightarrow> k + 2 \<le> length bs \<Longrightarrow> read_u16 d (p + k) = read_u16 bs k"
  using stands_at_read [of d p bs k 2] stands_at_length [of d p bs] by (simp add: read_u16_def)

lemma read_u32_at: "stands_at d p bs \<Longrightarrow> k + 4 \<le> length bs \<Longrightarrow> read_u32 d (p + k) = read_u32 bs k"
  using stands_at_read [of d p bs k 4] stands_at_length [of d p bs] by (simp add: read_u32_def)

lemma count16_at: "stands_at d p bs \<Longrightarrow> k + 2 \<le> length bs \<Longrightarrow> count16 d (p + k) = count16 bs k"
  by (simp add: count16_def read_u16_at)

lemma count32_at: "stands_at d p bs \<Longrightarrow> k + 4 \<le> length bs \<Longrightarrow> count32 d (p + k) = count32 bs k"
  by (simp add: count32_def read_u32_at)

lemmas read_at = read_u16_at read_u32_at count16_at count32_at

section \<open>A method on its own\<close>

text \<open>The attributes from \<open>k\<close> on, inside the bytes of the method, each \<open>Code\<close> attribute enclosing its
  code and the count of its handlers; the result is where they end.\<close>

fun attrs_end :: "bytes \<Rightarrow> cp_entry list \<Rightarrow> nat \<Rightarrow> nat \<Rightarrow> nat option" where
  "attrs_end bs pool 0 k = Some k"
| "attrs_end bs pool (Suc n) k =
     (let e = k + 6 + count32 bs (k + 2) in
      if k + 6 \<le> length bs \<and> e \<le> length bs
         \<and> (attr_name pool bs k = Some ''Code'' \<longrightarrow> k + 14 \<le> length bs \<and> k + 16 + count32 bs (k + 10) \<le> e)
      then attrs_end bs pool n e else None)"

definition method_ok :: "cp_entry list \<Rightarrow> bytes \<Rightarrow> bool" where
  "method_ok pool bs \<longleftrightarrow> 8 \<le> length bs \<and> attrs_end bs pool (count16 bs 6) 8 = Some (length bs)"

text \<open>What the attributes say of the code, relative to the start of the method.\<close>

fun attrs_code :: "bytes \<Rightarrow> cp_entry list \<Rightarrow> nat \<Rightarrow> nat \<Rightarrow> code_info \<Rightarrow> code_info" where
  "attrs_code bs pool 0 k ci = ci"
| "attrs_code bs pool (Suc n) k ci =
     attrs_code bs pool n (k + 6 + count32 bs (k + 2))
       (if attr_name pool bs k = Some ''Code''
        then \<lparr>ci_offset = Some (k + 14), ci_length = count32 bs (k + 10), ci_attr = Some k,
              ci_handlers = read_u16 bs (k + 14 + count32 bs (k + 10))\<rparr>
        else ci)"

definition code_at :: "nat \<Rightarrow> code_info \<Rightarrow> code_info" where
  "code_at p ci = ci\<lparr>ci_offset := map_option ((+) p) (ci_offset ci), ci_attr := map_option ((+) p) (ci_attr ci)\<rparr>"

definition method_of :: "cp_entry list \<Rightarrow> bytes \<Rightarrow> nat \<Rightarrow> method_info" where
  "method_of pool bs p =
     (let ci = code_at p (attrs_code bs pool (count16 bs 6) 8 no_code) in
      \<lparr>m_access = read_u16 bs 0, name_index = read_u16 bs 2, descriptor_index = read_u16 bs 4,
       code_offset = ci_offset ci, code_length = ci_length ci, code_attr_offset = ci_attr ci,
       exception_table_len = ci_handlers ci, raw_offset = p, raw_size = length bs\<rparr>)"

lemma attrs_end_le: "attrs_end bs pool n k = Some e \<Longrightarrow> k \<le> length bs \<Longrightarrow> e \<le> length bs"
  by (induction bs pool n k rule: attrs_end.induct) (auto simp: Let_def split: if_splits)

lemma method_attrs_at:
  assumes s: "stands_at d p bs"
  shows "attrs_end bs pool n k = Some e \<Longrightarrow>
    method_attrs d pool n (p + k) (code_at p ci) = Inr (code_at p (attrs_code bs pool n k ci), p + e)"
proof (induction n arbitrary: k ci)
  case (Suc n)
  let ?k' = "k + 6 + count32 bs (k + 2)" and ?cl = "count32 bs (k + 10)"
  have fit: "k + 6 \<le> length bs" "?k' \<le> length bs" and e: "attrs_end bs pool n ?k' = Some e"
    and code: "attr_name pool bs k = Some ''Code'' \<Longrightarrow> k + 14 \<le> length bs \<and> k + 16 + ?cl \<le> ?k'"
    using Suc.prems by (auto simp: Let_def split: if_splits)
  note len = stands_at_length [OF s]
  have nm: "attr_name pool d (p + k) = attr_name pool bs k"
    using count16_at [OF s, of k] fit(1) by (simp add: attr_name_def)
  have c32: "count32 d (p + (k + 2)) = count32 bs (k + 2)"
    using fit(1) by (intro count32_at [OF s]) simp
  have cc: "code_attr d pool (p + k) (code_at p ci)
      = code_at p (if attr_name pool bs k = Some ''Code''
          then \<lparr>ci_offset = Some (k + 14), ci_length = ?cl, ci_attr = Some k, ci_handlers = read_u16 bs (k + 14 + ?cl)\<rparr>
          else ci)"
  proof (cases "attr_name pool bs k = Some ''Code''")
    case True
    have "count32 d (p + (k + 10)) = ?cl" "read_u16 d (p + (k + 14 + ?cl)) = read_u16 bs (k + 14 + ?cl)"
      using code [OF True] fit by (auto intro!: count32_at [OF s] read_u16_at [OF s])
    then show ?thesis
      using True code [OF True] fit len by (simp add: code_attr_def nm code_at_def Let_def add.assoc)
  qed (simp add: code_attr_def nm)
  show ?case
    using Suc.IH [OF e] fit len by (simp add: cc c32 Let_def add.assoc del: add_2_eq_Suc')
qed simp

lemma parse_method_at:
  assumes "stands_at d p bs" and "method_ok pool bs"
  shows "parse_method d p pool = Inr (method_of pool bs p, p + length bs)"
proof -
  have "8 \<le> length bs" and e: "attrs_end bs pool (count16 bs 6) 8 = Some (length bs)"
    using assms(2) by (auto simp: method_ok_def)
  moreover have "code_at p no_code = no_code" by (simp add: code_at_def no_code_def)
  ultimately show ?thesis
    using method_attrs_at [OF assms(1) e, of no_code] stands_at_length [OF assms(1)]
      read_at [OF assms(1), of 0] read_at [OF assms(1), of 2] read_at [OF assms(1), of 4] read_at [OF assms(1), of 6]
    by (simp add: parse_method_def method_of_def Let_def)
qed

text \<open>Methods one after the other.\<close>

fun methods_at :: "cp_entry list \<Rightarrow> bytes list \<Rightarrow> nat \<Rightarrow> method_info list" where
  "methods_at pool [] p = []"
| "methods_at pool (bs # bss) p = method_of pool bs p # methods_at pool bss (p + length bs)"

lemma stands_at_append:
  "stands_at d p (xs @ ys) \<longleftrightarrow> stands_at d p xs \<and> stands_at d (p + length xs) ys"
proof
  assume "stands_at d p (xs @ ys)"
  then obtain pre post where "d = pre @ (xs @ ys) @ post" "length pre = p" by (auto simp: stands_at_def)
  then show "stands_at d p xs \<and> stands_at d (p + length xs) ys"
    unfolding stands_at_def by (metis append.assoc length_append)
next
  assume "stands_at d p xs \<and> stands_at d (p + length xs) ys"
  then obtain a b u v where a: "d = a @ xs @ b" "length a = p" and u: "d = u @ ys @ v" "length u = p + length xs"
    unfolding stands_at_def by blast
  have "(a @ xs) @ b = u @ ys @ v" "length (a @ xs) = length u" using a u by simp_all
  then have "a @ xs = u" using append_eq_append_conv [of "a @ xs" u b "ys @ v"] by simp
  then have "d = a @ (xs @ ys) @ v" using u(1) by simp
  then show "stands_at d p (xs @ ys)" using a(2) by (auto simp: stands_at_def)
qed

lemma parse_methods_at:
  "stands_at d p (concat bss) \<Longrightarrow> \<forall>bs \<in> set bss. method_ok pool bs \<Longrightarrow>
    parse_methods d pool (length bss) p = Inr (methods_at pool bss p, p + length (concat bss))"
proof (induction bss arbitrary: p)
  case (Cons bs bss)
  then have "parse_method d p pool = Inr (method_of pool bs p, p + length bs)"
    by (intro parse_method_at) (simp_all add: stands_at_append)
  with Cons show ?case by (simp add: stands_at_append add.assoc)
qed simp

section \<open>The part before the methods\<close>

definition same_upto :: "nat \<Rightarrow> bytes \<Rightarrow> bytes \<Rightarrow> bool" where
  "same_upto n d d' \<longleftrightarrow> n \<le> length d \<and> n \<le> length d' \<and> take n d = take n d'"

lemma same_upto_read:
  assumes "same_upto n d d'" and "k + m \<le> n"
  shows "take m (drop k d) = take m (drop k d')"
proof -
  have "take m (drop k (take n d)) = take m (drop k d)" for d :: bytes
    using assms(2) by (simp add: drop_take min_def)
  then show ?thesis using assms(1) by (metis same_upto_def)
qed

lemma same_upto_nth: "same_upto n d d' \<Longrightarrow> k < n \<Longrightarrow> d ! k = d' ! k"
  by (metis nth_take same_upto_def)

lemma same_upto_counts:
  assumes "same_upto n d d'"
  shows "k + 2 \<le> n \<Longrightarrow> read_u16 d k = read_u16 d' k" and "k + 4 \<le> n \<Longrightarrow> read_u32 d k = read_u32 d' k"
    and "k + 2 \<le> n \<Longrightarrow> count16 d k = count16 d' k" and "k + 4 \<le> n \<Longrightarrow> count32 d k = count32 d' k"
  using assms same_upto_read [OF assms, of k 2] same_upto_read [OF assms, of k 4]
  by (auto simp: same_upto_def read_u16_def read_u32_def count16_def count32_def)

lemma cp_entry_at_prefix:
  assumes r: "cp_entry_at d tag pos = Inr (e, q)" and s: "same_upto n d d'" and q: "q \<le> n"
  shows "pos \<le> q \<and> cp_entry_at d' tag pos = Inr (e, q)"
proof -
  have len: "q \<le> length d'" "q \<le> length d" using s q by (auto simp: same_upto_def)
  show ?thesis
  proof (cases "tag = 1")
    case True
    let ?l = "count16 d pos"
    have qq: "q = pos + 2 + ?l" and e: "e = Utf8 (str_of (utf8_lossy (take ?l (drop (pos + 2) d))))"
      using r True by (auto simp: cp_entry_at_def Let_def split: if_splits)
    have "count16 d' pos = ?l" using same_upto_counts(3) [OF s] qq q by simp
    moreover have "take ?l (drop (pos + 2) d) = take ?l (drop (pos + 2) d')"
      using same_upto_read [OF s] qq q by simp
    ultimately show ?thesis using True e qq len by (simp add: cp_entry_at_def Let_def)
  next
    case False
    note counts = same_upto_counts(1) [OF s]
    show ?thesis
    proof (cases "tag = 15")
      case True
      then show ?thesis
        using r q len counts [of "pos + 1"] same_upto_nth [OF s, of pos] by (auto simp: cp_entry_at_def split: if_splits)
    next
      case f: False
      then show ?thesis
        using False r q counts [of pos] counts [of "pos + 2"]
        by (auto simp: cp_entry_at_def Let_def split: if_splits)
    qed
  qed
qed

lemma cp_entries_prefix:
  assumes s: "same_upto m d d'"
  shows "cp_entries d n i pos = Inr (es, q) \<Longrightarrow> q \<le> m \<Longrightarrow> pos \<le> q \<and> cp_entries d' n i pos = Inr (es, q)"
proof (induction "n - i" arbitrary: i pos es rule: less_induct)
  case less
  show ?case
  proof (cases "n \<le> i")
    case True
    then show ?thesis using less.prems by (simp add: cp_entries.simps)
  next
    case False
    then obtain e p fs where e: "cp_entry_at d (d ! pos) (pos + 1) = Inr (e, p)"
      and rest: "cp_entries d n (i + length (slots e)) p = Inr (fs, q)" and es: "es = slots e @ fs"
      and pos: "pos < length d"
      using less.prems(1) by (subst (asm) cp_entries.simps) (auto split: if_splits)
    have "n - (i + length (slots e)) < n - i" using False by (auto simp: slots_def)
    note IH = less.hyps [OF this rest less.prems(2)]
    then have "pos + 1 \<le> p" "cp_entry_at d' (d ! pos) (pos + 1) = Inr (e, p)"
      using cp_entry_at_prefix [OF e s] less.prems(2) by auto
    moreover from this have "pos < m" using IH less.prems(2) by simp
    moreover have "d ! pos = d' ! pos" "pos < length d'"
      using same_upto_nth [OF s \<open>pos < m\<close>] s \<open>pos < m\<close> by (auto simp: same_upto_def)
    ultimately show ?thesis
      using IH False es by (simp add: cp_entries.simps [of d' n i pos])
  qed
qed

lemma skip_attrs_prefix:
  assumes s: "same_upto m d d'"
  shows "skip_attrs d n pos = Inr q \<Longrightarrow> q \<le> m \<Longrightarrow> pos \<le> q \<and> skip_attrs d' n pos = Inr q"
proof (induction n arbitrary: pos)
  case (Suc n)
  let ?p = "pos + 6 + count32 d (pos + 2)"
  have r: "skip_attrs d n ?p = Inr q" using Suc.prems(1) by (auto simp: Let_def split: if_splits)
  note IH = Suc.IH [OF r Suc.prems(2)]
  have "count32 d' (pos + 2) = count32 d (pos + 2)"
    using same_upto_counts(4) [OF s, of "pos + 2"] IH Suc.prems(2) by simp
  then show ?case
    using IH s Suc.prems(2) by (auto simp: Let_def same_upto_def simp del: add_2_eq_Suc')
qed simp

lemma skip_members_prefix:
  assumes s: "same_upto m d d'"
  shows "skip_members d n pos = Inr q \<Longrightarrow> q \<le> m \<Longrightarrow> pos \<le> q \<and> skip_members d' n pos = Inr q"
proof (induction n arbitrary: pos)
  case (Suc n)
  then obtain p where p: "skip_attrs d (count16 d (pos + 6)) (pos + 8) = Inr p" "skip_members d n p = Inr q"
    by (auto split: if_splits)
  note IH = Suc.IH [OF p(2) Suc.prems(2)]
  then have a: "pos + 8 \<le> p" "skip_attrs d' (count16 d (pos + 6)) (pos + 8) = Inr p"
    using skip_attrs_prefix [OF s p(1)] Suc.prems(2) by auto
  then have "count16 d' (pos + 6) = count16 d (pos + 6)"
    using same_upto_counts(3) [OF s, of "pos + 6"] IH Suc.prems(2) by simp
  then show ?case using IH a s Suc.prems(2) by (auto simp: same_upto_def)
qed simp

lemma skip_fields_prefix:
  assumes s: "same_upto m d d'" and r: "skip_fields_or_methods d pos = Inr q" and q: "q \<le> m"
  shows "pos + 2 \<le> q \<and> skip_fields_or_methods d' pos = Inr q"
proof -
  have r': "skip_members d (count16 d pos) (pos + 2) = Inr q"
    using r by (auto simp: skip_fields_or_methods_def split: if_splits)
  note sm = skip_members_prefix [OF s r' q]
  moreover have "count16 d' pos = count16 d pos" using same_upto_counts(3) [OF s, of pos] sm q by simp
  ultimately show ?thesis using s q by (auto simp: skip_fields_or_methods_def same_upto_def)
qed

lemma skip_attrs_le: "skip_attrs d n pos = Inr q \<Longrightarrow> pos \<le> length d \<Longrightarrow> q \<le> length d"
  by (induction d n pos rule: skip_attrs.induct) (auto simp: Let_def split: if_splits)

lemma skip_members_le: "skip_members d n pos = Inr q \<Longrightarrow> pos \<le> length d \<Longrightarrow> q \<le> length d"
proof (induction n arbitrary: pos)
  case (Suc n)
  then obtain p where "skip_attrs d (count16 d (pos + 6)) (pos + 8) = Inr p" "skip_members d n p = Inr q"
    "pos + 8 \<le> length d" by (auto split: if_splits)
  then show ?case using Suc.IH skip_attrs_le by blast
qed simp

lemma skip_fields_le: "skip_fields_or_methods d pos = Inr q \<Longrightarrow> q \<le> length d"
  using skip_members_le by (auto simp: skip_fields_or_methods_def split: if_splits)

text \<open>What a successful parse consists of.\<close>

lemma parse_classfileE:
  assumes "parse_classfile d = Inr cf"
  obtains pos ifs q where "10 \<le> length d" and "read_u32 d 0 = 0xCAFEBABE"
    and "parse_constant_pool d 10 (count16 d 8) = Inr (constant_pool cf, pos)"
    and "c_access cf = read_u16 d pos"
    and "skip_fields_or_methods d (8 + (pos + count16 d (pos + 6) * 2)) = Inr (methods_count_offset cf)"
    and "parse_methods d (constant_pool cf) (count16 d (methods_count_offset cf)) (methods_count_offset cf + 2)
      = Inr (methods cf, q)"
    and "methods_count_offset cf \<le> length d"
  using assms skip_fields_le
  by (auto simp: parse_classfile_def Let_def split: if_splits)

text \<open>The file before the methods, a new count, the methods, and any rest.\<close>

definition be16 :: "u16 \<Rightarrow> bytes" where
  "be16 c = [ucast (drop_bit 8 c), ucast (c AND 0xFF)]"

lemma be16: "be16 c = to_be 2 c"
proof -
  have "(ucast (c AND mask 8) :: u8) = ucast c" by (auto intro!: bit_word_eqI simp: bit_simps)
  moreover have "(0xFF :: u16) = mask 8" by (simp add: mask_eq_exp_minus_1)
  ultimately have "(ucast (c AND 0xFF) :: u8) = ucast c" by simp
  then show ?thesis by (simp add: be16_def to_be_def to_le_def upt_rec)
qed

lemma rebuilt_parses:
  fixes tail :: bytes
  assumes p: "parse_classfile d = Inr cf" and n: "length bss < 2 ^ 16"
    and ok: "\<forall>bs \<in> set bss. method_ok (constant_pool cf) bs"
  defines "out \<equiv> take (methods_count_offset cf) d @ be16 (of_nat (length bss)) @ concat bss @ tail"
  shows "\<exists>sz. parse_classfile out = Inr (cf\<lparr>methods := methods_at (constant_pool cf) bss (methods_count_offset cf + 2), total_size := sz\<rparr>)"
proof -
  obtain pos q where len: "10 \<le> length d" and magic: "read_u32 d 0 = 0xCAFEBABE"
    and cp: "parse_constant_pool d 10 (count16 d 8) = Inr (constant_pool cf, pos)"
    and acc: "c_access cf = read_u16 d pos"
    and sf: "skip_fields_or_methods d (8 + (pos + count16 d (pos + 6) * 2)) = Inr (methods_count_offset cf)"
    and mco: "methods_count_offset cf \<le> length d"
    using parse_classfileE [OF p] by metis
  let ?m = "methods_count_offset cf"
  have s: "same_upto ?m d out" using mco by (simp add: same_upto_def out_def)
  note f = skip_fields_prefix [OF s sf order.refl]
  obtain es where es: "cp_entries d (count16 d 8) 1 10 = Inr (es, pos)" "constant_pool cf = Placeholder # es"
    using cp by (auto simp: parse_constant_pool_def)
  have c: "10 \<le> pos \<and> cp_entries out (count16 d 8) 1 10 = Inr (es, pos)"
    by (rule cp_entries_prefix [OF s es(1)]) (use f in simp)
  note counts = same_upto_counts [OF s]
  have "stands_at out (?m + 2) (concat bss)"
    unfolding stands_at_def out_def
    using mco by (intro exI [of _ "take ?m d @ be16 (of_nat (length bss))"] exI [of _ tail]) (simp add: be16_def)
  note pm = parse_methods_at [OF this ok]
  have "stands_at out ?m (be16 (of_nat (length bss)))"
    unfolding stands_at_def out_def
    using mco by (intro exI [of _ "take ?m d"] exI [of _ "concat bss @ tail"]) simp
  from count16_at [OF this, of 0] have cnt: "count16 out ?m = length bss"
    using n by (simp add: be16 count16_def read_u16_def from_be_to_be unat_of_nat)
  have "parse_constant_pool out 10 (count16 out 8) = Inr (constant_pool cf, pos)"
    using c counts(3) [of 8] f es(2) by (simp add: parse_constant_pool_def)
  moreover have "read_u32 out 0 = 0xCAFEBABE" "read_u16 out pos = c_access cf" "10 \<le> length out"
    "count16 out (pos + 6) = count16 d (pos + 6)"
    using counts(2) [of 0] counts(1) [of pos] counts(3) [of "pos + 6"] f c magic acc s by (auto simp: same_upto_def)
  ultimately have "parse_classfile out = Inr (cf\<lparr>methods := methods_at (constant_pool cf) bss (?m + 2),
      total_size := skip_attributes out (?m + 2 + length (concat bss))\<rparr>)"
    using f pm cnt by (cases cf) (simp add: parse_classfile_def Let_def)
  then show ?thesis by blast
qed

section \<open>The methods of a parsed class\<close>

text \<open>A method at another place of the file.\<close>

definition relocate :: "nat \<Rightarrow> method_info \<Rightarrow> method_info" where
  "relocate p m = m\<lparr>raw_offset := p, code_offset := map_option (\<lambda>c. p + (c - raw_offset m)) (code_offset m),
     code_attr_offset := map_option (\<lambda>c. p + (c - raw_offset m)) (code_attr_offset m)\<rparr>"

fun relocated :: "nat \<Rightarrow> method_info list \<Rightarrow> method_info list" where
  "relocated p [] = []"
| "relocated p (m # ms) = relocate p m # relocated (p + raw_size m) ms"

lemma relocate_method_of: "relocate p (method_of pool bs q) = method_of pool bs p"
  by (simp add: relocate_def method_of_def Let_def code_at_def option.map_comp comp_def)

text \<open>Every method encloses its code.\<close>

definition tidy :: "bytes \<Rightarrow> class_file \<Rightarrow> bool" where
  "tidy d cf \<longleftrightarrow> (\<forall>m \<in> set (methods cf). raw_offset m + raw_size m \<le> length d
     \<and> method_ok (constant_pool cf) (take (raw_size m) (drop (raw_offset m) d)))"

definition bytes_of :: "bytes \<Rightarrow> method_info \<Rightarrow> bytes" where
  "bytes_of d m = take (raw_size m) (drop (raw_offset m) d)"

lemma raw_bytes_tidy: "tidy d cf \<Longrightarrow> m \<in> set (methods cf) \<Longrightarrow> raw_bytes d m = Some (bytes_of d m)"
  by (auto simp: tidy_def raw_bytes_def bytes_of_def)

lemma parse_method_start: "parse_method d p pool = Inr (m, q) \<Longrightarrow> raw_offset m = p"
  by (auto simp: parse_method_def Let_def split: if_splits prod.splits)

lemma parse_methods_each:
  "parse_methods d pool n p = Inr (ms, q) \<Longrightarrow> m \<in> set ms \<Longrightarrow> \<exists>q. parse_method d (raw_offset m) pool = Inr (m, q)"
proof (induction n arbitrary: p ms)
  case (Suc n)
  then obtain m' r ms' where "parse_method d p pool = Inr (m', r)" "parse_methods d pool n r = Inr (ms', q)" "ms = m' # ms'"
    by auto
  then show ?case using Suc.IH Suc.prems(2) parse_method_start by fastforce
qed simp

lemma tidy_method_of:
  assumes "parse_classfile d = Inr cf" and t: "tidy d cf" and m: "m \<in> set (methods cf)"
  shows "m = method_of (constant_pool cf) (bytes_of d m) (raw_offset m)"
    and "length (bytes_of d m) = raw_size m" and "method_ok (constant_pool cf) (bytes_of d m)"
proof -
  have fit: "raw_offset m + raw_size m \<le> length d" and ok: "method_ok (constant_pool cf) (bytes_of d m)"
    using t m by (auto simp: tidy_def bytes_of_def)
  show "length (bytes_of d m) = raw_size m" "method_ok (constant_pool cf) (bytes_of d m)"
    using fit ok by (simp_all add: bytes_of_def)
  obtain q where "parse_method d (raw_offset m) (constant_pool cf) = Inr (m, q)"
    using assms(1) m by (elim parse_classfileE) (blast dest: parse_methods_each)
  moreover have "stands_at d (raw_offset m) (bytes_of d m)" unfolding bytes_of_def by (rule stands_at_slice [OF fit])
  ultimately show "m = method_of (constant_pool cf) (bytes_of d m) (raw_offset m)"
    using parse_method_at ok by fastforce
qed

lemma methods_at_relocated:
  assumes "parse_classfile d = Inr cf" and "tidy d cf"
  shows "set ms \<subseteq> set (methods cf) \<Longrightarrow>
    methods_at (constant_pool cf) (map (bytes_of d) ms) p = relocated p ms"
proof (induction ms arbitrary: p)
  case (Cons m ms)
  then show ?case
    using tidy_method_of [OF assms, of m] relocate_method_of [of p "constant_pool cf" "bytes_of d m" "raw_offset m"]
    by simp
qed simp

section \<open>Reassembly without dead blocks\<close>

definition live_methods :: "class_file \<Rightarrow> dead_map \<Rightarrow> method_info list" where
  "live_methods cf dead = filter (\<lambda>m. map_of dead (method_name cf m) = None) (methods cf)"

lemma bytes_of_methods_at: "stands_at d p (concat bss) \<Longrightarrow> map (bytes_of d) (methods_at pool bss p) = bss"
proof (induction bss arbitrary: p)
  case (Cons bs bss)
  have s: "stands_at d p bs" "stands_at d (p + length bs) (concat bss)"
    using Cons.prems by (simp_all add: stands_at_append)
  then have "bytes_of d (method_of pool bs p) = bs"
    using stands_at_read [OF s(1), of 0 "length bs"] by (simp add: bytes_of_def method_of_def Let_def)
  then show ?case using Cons.IH [OF s(2)] by simp
qed simp

lemma ok_nslice [simp]: "a \<le> b \<Longrightarrow> b \<le> length d \<Longrightarrow> ok (nslice d a b) = Some (take (b - a) (drop a d))"
  by simp

lemma live_bytes_none:
  assumes "tidy d cf"
  shows "snd ` set ms \<subseteq> set (methods cf) \<Longrightarrow> live_bytes d cf [] ms = Some (d, map (bytes_of d \<circ> snd) ms)"
proof (induction ms)
  case (Cons im ms)
  then show ?case by (cases im) (simp add: method_dead_blocks_def raw_bytes_tidy [OF assms])
qed simp

lemma length_parse_methods: "parse_methods d pool n p = Inr (ms, q) \<Longrightarrow> length ms = n"
  by (induction n arbitrary: p ms) auto

lemma count16_less [simp]: "count16 d k < 65536"
  using unsigned_less [of "read_u16 d k"] by (simp add: count16_def)

lemma few_methods: "parse_classfile d = Inr cf \<Longrightarrow> length (methods cf) < 2 ^ 16"
  by (elim parse_classfileE) (simp add: length_parse_methods)

lemma filter_zip_upt:
  assumes "\<forall>i < length xs. P i \<longleftrightarrow> Q (xs ! i)"
  shows "map snd (filter (\<lambda>(i, x). P i) (zip [0..<length xs] xs)) = filter Q xs"
proof -
  have "zip [0..<length xs] xs = map (\<lambda>i. (i, xs ! i)) [0..<length xs]"
    by (rule nth_equalityI) auto
  then have "map snd (filter (\<lambda>(i, x). P i) (zip [0..<length xs] xs)) = map ((!) xs) (filter P [0..<length xs])"
    by (simp add: filter_map comp_def)
  also have "filter P [0..<length xs] = filter (\<lambda>i. Q (xs ! i)) [0..<length xs]"
    using assms by (intro filter_cong) auto
  also have "map ((!) xs) \<dots> = filter Q (map ((!) xs) [0..<length xs])" by (simp add: filter_map comp_def)
  finally show ?thesis by (simp add: map_nth)
qed

lemma live_zip:
  "map snd (filter (\<lambda>(i, m). i \<notin> set (dead_indices cf dead)) (zip [0..<length (methods cf)] (methods cf)))
   = live_methods cf dead"
  unfolding live_methods_def by (rule filter_zip_upt) (auto simp: dead_indices_def simp del: not_None_eq)

text \<open>C12. A class file that is reassembled without its dead methods parses again: the same constant
  pool and flags, and as methods exactly those whose name is not dead, in their order, byte for
  byte the same and one after the other.\<close>

theorem reassembled_class_parses:
  assumes p: "parse_classfile d = Inr cf" and t: "tidy d cf" and "dead \<noteq> []" and ne: "methods cf \<noteq> []"
  shows "\<exists>out saved cf'. reassemble_java d dead [] = Some (out, length (dead_indices cf dead), saved, 0, 0)
    \<and> parse_classfile out = Inr cf' \<and> constant_pool cf' = constant_pool cf \<and> c_access cf' = c_access cf
    \<and> methods cf' = relocated (methods_count_offset cf + 2) (live_methods cf dead)
    \<and> map (bytes_of out) (methods cf') = map (bytes_of d) (live_methods cf dead)"
proof -
  let ?mco = "methods_count_offset cf" and ?ms = "live_methods cf dead" and ?pool = "constant_pool cf"
  let ?live = "filter (\<lambda>(i, m). i \<notin> set (dead_indices cf dead)) (zip [0..<length (methods cf)] (methods cf))"
  let ?bss = "map (bytes_of d) ?ms"
  define out where "out = take ?mco d @ be16 (of_nat (length ?bss)) @ concat ?bss @ drop (methods_end cf) d"
  have sub: "set ?ms \<subseteq> set (methods cf)" by (auto simp: live_methods_def)
  have mco: "?mco \<le> length d" using p by (rule parse_classfileE)
  have en: "methods_end cf \<le> length d" using t ne by (simp add: methods_end_def tidy_def)
  have "snd ` set ?live \<subseteq> set (methods cf)" by (auto dest: set_zip_rightD)
  from live_bytes_none [OF t this] have "live_bytes d cf [] ?live = Some (d, map (bytes_of d) (map snd ?live))"
    by (simp add: comp_def)
  then have lb: "live_bytes d cf [] ?live = Some (d, ?bss)" unfolding live_zip .
  have ll: "length ?live = length ?bss" using arg_cong [OF live_zip, of length cf dead] by simp
  have run: "\<exists>saved. reassemble_java d dead [] = Some (out, length (dead_indices cf dead), saved, 0, 0)"
    using mco en \<open>dead \<noteq> []\<close>
    by (simp add: reassemble_java_def with_class_def p lb ll Let_def out_def be16_def)
  have ok: "\<forall>bs \<in> set ?bss. method_ok ?pool bs" using tidy_method_of(3) [OF p t] sub by auto
  have "length ?bss < 2 ^ 16"
    using order.strict_trans1 [OF length_filter_le few_methods [OF p]] by (simp add: live_methods_def)
  from rebuilt_parses [OF p this ok, of "drop (methods_end cf) d"] obtain sz where
    parsed: "parse_classfile out = Inr (cf\<lparr>methods := methods_at ?pool ?bss (?mco + 2), total_size := sz\<rparr>)"
    unfolding out_def by blast
  have ms: "methods_at ?pool ?bss (?mco + 2) = relocated (?mco + 2) ?ms"
    by (rule methods_at_relocated [OF p t sub])
  have "stands_at out (?mco + 2) (concat ?bss)"
    unfolding stands_at_def out_def using mco
    by (intro exI [of _ "take ?mco d @ be16 (of_nat (length ?bss))"] exI [of _ "drop (methods_end cf) d"])
      (simp add: be16_def)
  then have "map (bytes_of out) (relocated (?mco + 2) ?ms) = ?bss"
    unfolding ms [symmetric] by (rule bytes_of_methods_at)
  then show ?thesis using run parsed ms by fastforce
qed

end
