(* ===== verification/Java_Live.thy ===== *)
theory Java_Live
  imports Java_Rebuild
begin

text \<open>
  Which methods the analysis calls dead, what follows for the reassembled class, and where the
  name of a method is not enough to tell it from another.
\<close>

section \<open>Live methods\<close>






section \<open>Dead methods\<close>

lemma map_of_update_foldl:
  "(\<exists>v. map_of (foldl (\<lambda>dead (i, m). if P i m then dead else AList.update (nm m) (val i m) dead) acc xs) n = Some v)
   \<longleftrightarrow> (\<exists>v. map_of acc n = Some v) \<or> (\<exists>(i, m) \<in> set xs. \<not> P i m \<and> nm m = n)"
proof (induction xs arbitrary: acc)
  case (Cons x xs)
  show ?case by (cases x) (auto simp: Cons.IH update_conv')
qed simp

lemma dead_methods_dom:
  "(\<exists>v. map_of (find_dead_methods data cf) n = Some v) \<longleftrightarrow>
     n \<noteq> [] \<and> (\<exists>i < length (methods cf). method_name cf (methods cf ! i) = n \<and> i \<notin> set (bfs_live data cf))"
  unfolding find_dead_methods_def Let_def map_of_update_foldl
  by (fastforce simp: set_zip)



text \<open>The dead map has names only: a live method that shares its name with a dead one, as the
  overloads of a method do, is removed from the class with it.\<close>

theorem live_overload_removed:
  assumes "i < length (methods cf)" and "j < length (methods cf)" and "i \<in> set (bfs_live data cf)"
    and "j \<notin> set (bfs_live data cf)" and "method_name cf (methods cf ! i) = method_name cf (methods cf ! j)"
    and "method_name cf (methods cf ! j) \<noteq> []"
  shows "i \<in> set (dead_indices cf (find_dead_methods data cf))
    \<and> methods cf ! i \<notin> set (live_methods cf (find_dead_methods data cf))"
proof -
  have "\<exists>v. map_of (find_dead_methods data cf) (method_name cf (methods cf ! i)) = Some v"
    using assms by (subst dead_methods_dom) auto
  then show ?thesis using assms(1) by (auto simp: dead_indices_def live_methods_def)
qed

end
