(* ===== verification/Java_Moves.thy ===== *)
theory Java_Moves
  imports Java_Compact Java_Flow Relocation
begin

text \<open>
  What the compaction of a method does to its instructions: the live ones keep their bytes and
  their order, and a branch jumps to where its old target has moved.
\<close>

section \<open>Where a position moves\<close>

definition dead_before :: "ival list \<Rightarrow> nat \<Rightarrow> nat set" where
  "dead_before ranges x = {y. y < x \<and> of_nat y \<in> dead_set ranges}"

definition npos :: "ival list \<Rightarrow> nat \<Rightarrow> nat" where
  "npos ranges x = x - card (dead_before ranges x)"

lemma finite_dead_before [simp]: "finite (dead_before ranges x)"
  by (rule finite_subset [of _ "{..<x}"]) (auto simp: dead_before_def)

lemma dead_before_le: "card (dead_before ranges x) \<le> x"
  using card_mono [of "{..<x}" "dead_before ranges x"] by (auto simp: dead_before_def)

lemma dead_before_Suc:
  "card (dead_before ranges (Suc x)) = card (dead_before ranges x) + (if of_nat x \<in> dead_set ranges then 1 else 0)"
proof -
  have "dead_before ranges (Suc x) = dead_before ranges x \<union> (if of_nat x \<in> dead_set ranges then {x} else {})"
    by (auto simp: dead_before_def less_Suc_eq)
  moreover have "x \<notin> dead_before ranges x" by (simp add: dead_before_def)
  ultimately show ?thesis by simp
qed

lemma npos_Suc: "npos ranges (Suc x) = npos ranges x + (if of_nat x \<in> dead_set ranges then 0 else 1)"
  using dead_before_le [of ranges x] by (simp add: npos_def dead_before_Suc Suc_diff_le)

lemma npos_between: "x \<le> y \<Longrightarrow> npos ranges x \<le> npos ranges y \<and> npos ranges y \<le> npos ranges x + (y - x)"
proof (induction "y - x" arbitrary: y)
  case (Suc d)
  then obtain z where z: "y = Suc z" "x \<le> z" "d = z - x" by (cases y) auto
  then show ?case using Suc.hyps(1) [OF z(3,2)] by (auto simp: npos_Suc)
qed simp

lemma npos_live_run:
  "\<forall>k < n. of_nat (x + k) \<notin> dead_set ranges \<Longrightarrow> k \<le> n \<Longrightarrow> npos ranges (x + k) = npos ranges x + k"
  by (induction k) (simp_all add: npos_Suc)

lemma java_shift_eq:
  assumes "\<forall>(s, e) \<in> set ranges. s \<le> e"
  shows "java_shift a ranges = shift_at a ranges"
proof -
  have "foldl (\<lambda>shift (s, e). if s < a then shift + (min e a - s) else shift) acc ranges
      = foldl (\<lambda>total (s, e). if s < a then total + sat_sub (min e a) s else total) acc ranges" for acc
    using assms by (induction ranges arbitrary: acc) (auto simp: sat_sub_def min_def)
  then show ?thesis by (simp add: java_shift_def shift_at_def)
qed

lemma java_shift_counts:
  assumes ch: "chain 0 ranges hi" and x: "x < 2 ^ 64"
  shows "java_shift (of_nat x) ranges = of_nat (card (dead_before ranges x))"
proof -
  have u: "unat (of_nat y :: u64) = y" if "y \<le> x" for y using that x by (simp add: unat_of_nat)
  have "java_shift (of_nat x) ranges = shift_at (of_nat x) ranges"
    using chain_wf [OF ch] by (intro java_shift_eq) auto
  moreover have "unat (shift_at (of_nat x) ranges) = card (dead_below (of_nat x) ranges)"
    by (rule unat_shift_at [OF ch])
  moreover have "bij_betw of_nat (dead_before ranges x) (dead_below (of_nat x) ranges)"
  proof (rule bij_betw_byWitness [where f' = unat])
    show "\<forall>a \<in> dead_before ranges x. unat (of_nat a :: u64) = a" using u by (auto simp: dead_before_def)
    show "of_nat ` dead_before ranges x \<subseteq> dead_below (of_nat x :: u64) ranges"
      using u by (auto simp: dead_before_def dead_below_def word_less_nat_alt)
    show "unat ` dead_below (of_nat x) ranges \<subseteq> dead_before ranges x"
      using u [of x] by (auto simp: dead_before_def dead_below_def word_less_nat_alt)
  qed simp
  ultimately have "unat (java_shift (of_nat x) ranges) = card (dead_before ranges x)"
    by (simp add: bij_betw_same_card)
  then have "of_nat (unat (java_shift (of_nat x) ranges)) = (of_nat (card (dead_before ranges x)) :: u64)" by simp
  then show ?thesis by simp
qed

lemma moved_position:
  assumes "chain 0 ranges hi" and "x < 2 ^ 64"
  shows "of_nat x - java_shift (of_nat x) ranges = of_nat (npos ranges x)"
  using java_shift_counts [OF assms] dead_before_le [of ranges x] by (simp add: npos_def of_nat_diff)

text \<open>The new offset is the distance between the new positions.\<close>

lemma moved_offset_eq:
  assumes ch: "chain 0 ranges hi" and pc: "pc < 2 ^ 31" and t: "t < 2 ^ 31" and old: "int pc + sint old = int t"
  shows "moved_offset ranges pc old = word_of_int (int (npos ranges t) - int (npos ranges pc))"
proof -
  have "(of_nat pc + old :: i32) = word_of_int (int pc + sint old)" by simp
  then have tgt: "(of_nat pc + old :: i32) = of_nat t" using old by simp
  have "(scast (of_nat t :: i32) :: u64) = word_of_int (sint (of_nat t :: i32))"
    by (rule scast_eq)
  also have "sint (of_nat t :: i32) = sint (word_of_int (int t) :: i32)" by simp
  also have "\<dots> = signed_take_bit 31 (int t)" by (simp only: sint_sbintrunc') simp
  also have "\<dots> = int t" using t by (intro signed_take_bit_int_eq_self) simp_all
  finally have "(scast (of_nat t :: i32) :: u64) = of_nat t" by simp
  moreover have "(ucast (of_nat n :: u64) :: i32) = of_nat n" for n
    by (transfer; simp)
  ultimately show ?thesis
    using moved_position [OF ch, of t] moved_position [OF ch, of pc] pc t
    by (simp add: moved_offset_def tgt Let_def)
qed

section \<open>Patching\<close>

text \<open>The new bytes of the instruction at \<open>pc\<close>.\<close>

definition patched_instr :: "ival list \<Rightarrow> bytes \<Rightarrow> nat \<Rightarrow> bytes" where
  "patched_instr ranges code pc =
     (if short_branch (code ! pc) then
        code ! pc # to_be 2 (ucast (moved_offset ranges pc (read_i16_be code (pc + 1))) :: u16)
      else if wide_branch (code ! pc) then
        code ! pc # to_be 4 (moved_offset ranges pc (read_i32_be code (pc + 1)))
      else take (jvm_length code 0 pc) (drop pc code))"

lemma aligned [simp]: "switches_aligned code 0 end'"
  by (simp add: switches_aligned_def)

lemma wide_length: "wide_branch (code ! pc) \<Longrightarrow> jvm_length code 0 pc = 5"
proof -
  have "fixed_lengths ! 0xC8 = 5" "fixed_lengths ! 0xC9 = 5" by code_simp+
  then show "wide_branch (code ! pc) \<Longrightarrow> ?thesis" by (auto simp: wide_branch_def jvm_length_def Let_def)
qed

lemma patch_length_jvm:
  assumes "jvm_code_ok code 0 (length code)" and "jvm_instr code 0 (length code) pc"
  shows "patch_length code (length code) pc = jvm_length code 0 pc"
  using length_agrees [OF assms(1) aligned assms(2)] short_length [of code pc 0] wide_length [of code pc]
  by (auto simp: patch_length_def short_branch_def)

lemma reads_cong:
  assumes "drop pos c = drop pos (code :: bytes)"
  shows "read_i16_be c (pos + k) = read_i16_be code (pos + k)" and "read_i32_be c (pos + k) = read_i32_be code (pos + k)"
    and "pos < length code \<Longrightarrow> length c = length code \<Longrightarrow> c ! pos = code ! pos"
    and "pos + 1 < length code \<Longrightarrow> length c = length code \<Longrightarrow> c ! (pos + 1) = code ! (pos + 1)"
proof -
  have d: "drop (pos + k) c = drop (pos + k) code" for k
    using assms by (metis add.commute drop_drop)
  show "read_i16_be c (pos + k) = read_i16_be code (pos + k)" "read_i32_be c (pos + k) = read_i32_be code (pos + k)"
    by (simp_all only: read_i16_be_def read_i32_be_def d)
  show "c ! pos = code ! pos" if "pos < length code" "length c = length code"
    using assms that by (metis hd_drop_conv_nth)
  show "c ! (pos + 1) = code ! (pos + 1)" if "pos + 1 < length code" "length c = length code"
    using d [of 1] that by (metis hd_drop_conv_nth)
qed

lemma opcode_length_cong:
  assumes d: "drop pos c = drop pos code" and l: "length c = length code" and p: "pos < length code"
  shows "opcode_length op c pos (length code) = opcode_length op code pos (length code)"
proof -
  let ?pad = "switch_pad pos"
  have r: "read_i32_be c (pos + 1 + ?pad + k) = read_i32_be code (pos + 1 + ?pad + k)" for k
    using reads_cong(2) [OF d, of "1 + ?pad + k"] by (simp add: add.assoc)
  have "table_count c (pos + 1 + ?pad) (length code) = table_count code (pos + 1 + ?pad) (length code)"
    "lookup_count c (pos + 1 + ?pad) (length code) = lookup_count code (pos + 1 + ?pad) (length code)"
    by (simp_all only: table_count_def lookup_count_def r)
  then show ?thesis using reads_cong(4) [OF d _ l] p unfolding opcode_length_def Let_def by simp
qed

lemma length_patched_instr:
  assumes ok: "jvm_code_ok code 0 (length code)" and i: "jvm_instr code 0 (length code) pc"
  shows "length (patched_instr ranges code pc) = jvm_length code 0 pc"
  using jvm_code_okD(2) [OF ok i] short_length [of code pc 0] wide_length [of code pc]
  by (auto simp: patched_instr_def short_branch_def)

lemma patch_instr_splice:
  assumes ok: "jvm_code_ok code 0 (length code)" and i: "jvm_instr code 0 (length code) pc"
    and l: "length c = length code" and d: "drop pc c = drop pc code"
  shows "patch_instr c (length code) ranges pc = splice_at c pc (patched_instr ranges code pc)"
    and "patch_length c (length code) pc = jvm_length code 0 pc"
proof -
  note pc = jvm_code_okD [OF ok i] and rc = reads_cong [OF d]
  have op: "c ! pc = code ! pc" using rc(3) [OF pc(5) l] .
  have hd: "splice_at c (Suc pc) bs = splice_at c pc (code ! pc # bs)" for bs
  proof -
    have "take (Suc pc) c = take pc c @ [code ! pc]" using pc(5) l op by (simp add: take_Suc_conv_app_nth)
    then show ?thesis by (simp add: splice_at_def)
  qed
  have keep': "splice_at c pc (take (jvm_length code 0 pc) (drop pc code)) = c"
    using pc(2) unfolding splice_at_def d [symmetric] by (simp add: l min_def) (metis append_take_drop_id drop_drop add.commute)
  show "patch_instr c (length code) ranges pc = splice_at c pc (patched_instr ranges code pc)"
    using pc(2) short_length [of code pc 0] wide_length [of code pc] rc(1,2) [of 1]
    by (auto simp: patch_instr_def patched_instr_def op hd keep' short_branch_def)
  show "patch_length c (length code) pc = jvm_length code 0 pc"
    using patch_length_jvm [OF ok i] opcode_length_cong [OF d l pc(5)] by (simp add: patch_length_def op split: if_splits)
qed

text \<open>The whole loop: every instruction has its new bytes.\<close>

lemma splice_drop: "i + length bs \<le> length d \<Longrightarrow> drop (i + length bs) (splice_at d i bs) = drop (i + length bs) d"
  by (simp add: splice_at_def)

lemma splice_take: "i \<le> length d \<Longrightarrow> take i (splice_at d i bs) = take i d"
  by (simp add: splice_at_def)

lemma patch_from_instrs:
  assumes ok: "jvm_code_ok code 0 (length code)"
  shows "pos = length code \<or> jvm_instr code 0 (length code) pos \<Longrightarrow> length c = length code \<Longrightarrow>
    drop pos c = drop pos code \<Longrightarrow>
    length (patch_from (length code) ranges c pos) = length code
    \<and> take pos (patch_from (length code) ranges c pos) = take pos c
    \<and> (\<forall>pc. jvm_instr code 0 (length code) pc \<longrightarrow> pos \<le> pc \<longrightarrow>
         take (jvm_length code 0 pc) (drop pc (patch_from (length code) ranges c pos)) = patched_instr ranges code pc)"
proof (induction "length code - pos" arbitrary: pos c rule: less_induct)
  case less
  show ?case
  proof (cases "pos = length code")
    case True
    then show ?thesis
      using less.prems(2) jvm_code_okD(5) [OF ok] by (subst (1 2 3) patch_from.simps) fastforce
  next
    case False
    then have i: "jvm_instr code 0 (length code) pos" using less.prems(1) by simp
    note pos = jvm_code_okD [OF ok i]
    define q where "q = pos + jvm_length code 0 pos"
    define bs where "bs = patched_instr ranges code pos"
    define c' where "c' = splice_at c pos bs"
    have lb: "length bs = jvm_length code 0 pos" unfolding bs_def by (rule length_patched_instr [OF ok i])
    have l': "length c' = length code" using lb pos(2) less.prems(2) by (simp add: c'_def)
    have "drop q c' = drop q c" using splice_drop [of pos bs c] lb pos(2) less.prems(2) by (simp add: c'_def q_def)
    also have "\<dots> = drop q code" using less.prems(3) unfolding q_def by (metis add.commute drop_drop)
    finally have d': "drop q c' = drop q code" .
    have q: "q = length code \<or> jvm_instr code 0 (length code) q"
      using sweep_next [OF ok aligned i] length_agrees [OF ok aligned i] by (simp add: q_def)
    have step: "patch_from (length code) ranges c pos = patch_from (length code) ranges c' q"
      using pos(5) patch_instr_splice [OF ok i less.prems(2,3)]
      by (subst patch_from.simps) (simp add: c'_def bs_def q_def)
    have "length code - q < length code - pos" using pos(3,5) by (simp add: q_def)
    note IH = less.hyps [OF this q l' d']
    let ?r = "patch_from (length code) ranges c' q"
    have tq: "take q ?r = take q c'" using IH by blast
    have "take pos ?r = take pos (take q ?r)" by (simp add: q_def min_def)
    also have "\<dots> = take pos c'" unfolding tq by (simp add: q_def min_def)
    also have "\<dots> = take pos c" using pos(5) less.prems(2) by (simp add: c'_def splice_take)
    finally have tp: "take pos ?r = take pos c" .
    have "take (jvm_length code 0 pos) (drop pos ?r) = drop pos (take q ?r)" by (simp add: q_def drop_take)
    also have "\<dots> = bs" unfolding tq using lb pos(2,5) less.prems(2) by (simp add: c'_def q_def splice_at_def)
    finally have here: "take (jvm_length code 0 pos) (drop pos ?r) = bs" .
    have "take (jvm_length code 0 pc) (drop pc ?r) = patched_instr ranges code pc"
      if "jvm_instr code 0 (length code) pc" "pos \<le> pc" for pc
    proof (cases "pc = pos")
      case False
      then have "q \<le> pc" using instr_gap [OF ok that(1) i] that(2) by (simp add: q_def)
      then show ?thesis using IH that(1) by blast
    qed (use here in \<open>simp add: bs_def\<close>)
    then show ?thesis unfolding step using IH tp by blast
  qed
qed

section \<open>Removing\<close>

lemma upt_parts: "i \<le> j \<Longrightarrow> j \<le> k \<Longrightarrow> [i..<k] = [i..<j] @ [j..<k]"
  by (metis le_add_diff_inverse upt_add_eq_append)

definition live_positions :: "ival list \<Rightarrow> nat \<Rightarrow> nat \<Rightarrow> nat list" where
  "live_positions ranges a b = filter (\<lambda>x. of_nat x \<notin> dead_set ranges) [a..<b]"

lemma dead_set_above: "chain lo ranges hi \<Longrightarrow> x < lo \<Longrightarrow> x \<notin> dead_set ranges"
  using chain_set by fastforce

lemma excise_from_live:
  "length code < 2 ^ 63 \<Longrightarrow> chain (of_nat pos) ranges (of_nat (length code)) \<Longrightarrow> pos \<le> length code \<Longrightarrow>
     excise_from code ranges pos = Inr (map ((!) code) (live_positions ranges pos (length code)))"
proof (induction code ranges pos rule: excise_from.induct)
  case (1 code pos)
  have "drop pos code = map ((!) code) [pos..<length code]"
    by (rule nth_equalityI) auto
  then show ?case by (simp add: live_positions_def)
next
  case (2 code s e ranges pos)
  have u: "unat (of_nat n :: u64) = n" if "n \<le> length code" for n using that 2(2) by (simp add: unat_of_nat)
  have ch: "of_nat pos \<le> s" "s \<le> e" "chain e ranges (of_nat (length code))" using 2(3) by auto
  have e: "unat e \<le> length code" using chain_le [OF ch(3)] u by (simp add: word_le_nat_alt)
  have p: "pos \<le> unat s" "unat s \<le> unat e" using ch(1,2) u [OF 2(4)] by (simp_all add: word_le_nat_alt)
  have IH: "excise_from code ranges (unat e) = Inr (map ((!) code) (live_positions ranges (unat e) (length code)))"
    using 2 ch e by (cases "pos < unat s") auto
  have dead: "of_nat x \<in> dead_set ((s, e) # ranges) \<longleftrightarrow>
      (if x < unat s then False else if x < unat e then True else of_nat x \<in> dead_set ranges)" if "x < length code" for x
  proof -
    have x: "unat (of_nat x :: u64) = x" using that u by simp
    have "of_nat x \<notin> dead_set ranges" if "x < unat e"
      using dead_set_above [OF ch(3), of "of_nat x"] that x by (simp add: word_less_nat_alt)
    then show ?thesis using x p(2) by (auto simp: word_less_nat_alt word_le_nat_alt)
  qed
  let ?P = "\<lambda>x. of_nat x \<notin> dead_set ((s, e) # ranges)"
  have "filter ?P [pos..<unat s] = [pos..<unat s]"
    by (rule filter_True) (use dead p e in \<open>simp del: dead_set_simps\<close>)
  moreover have "filter ?P [unat s..<unat e] = []"
    unfolding filter_empty_conv using dead p e by (simp del: dead_set_simps)
  moreover have "filter ?P [unat e..<length code] = live_positions ranges (unat e) (length code)"
    unfolding live_positions_def by (rule filter_cong [OF refl]) (use dead p e in \<open>simp del: dead_set_simps\<close>)
  moreover have "[pos..<length code] = [pos..<unat s] @ [unat s..<unat e] @ [unat e..<length code]"
    using upt_parts [of pos "unat s" "length code"] upt_parts [of "unat s" "unat e" "length code"] p e by simp
  ultimately have "live_positions ((s, e) # ranges) pos (length code)
      = [pos..<unat s] @ live_positions ranges (unat e) (length code)"
    by (simp only: live_positions_def [of "(s, e) # ranges"] filter_append append_Nil)
  note lp = this
  have "take (unat s - pos) (drop pos code) = map ((!) code) [pos..<unat s]"
    using p e by (intro nth_equalityI) auto
  then show ?case using IH p e by (auto simp: lp nslice_def)
qed

lemma live_positions_nth:
  assumes "x < n" and "of_nat x \<notin> dead_set ranges"
  shows "npos ranges x < length (live_positions ranges 0 n)" and "live_positions ranges 0 n ! npos ranges x = x"
proof -
  let ?P = "\<lambda>y. of_nat y \<notin> dead_set ranges"
  have "[0..<n] = [0..<x] @ [x..<n]" by (rule upt_parts) (use assms(1) in simp_all)
  also have "[x..<n] = x # [Suc x..<n]" by (rule upt_conv_Cons [OF assms(1)])
  finally have "[0..<n] = [0..<x] @ x # [Suc x..<n]" .
  then have l: "live_positions ranges 0 n = filter ?P [0..<x] @ x # filter ?P [Suc x..<n]"
    using assms(2) by (simp add: live_positions_def)
  have "length (filter ?P [0..<x]) = npos ranges x" for x
    by (induction x) (simp_all add: npos_Suc, simp add: npos_def)
  then show "npos ranges x < length (live_positions ranges 0 n)" "live_positions ranges 0 n ! npos ranges x = x"
    using l by (simp_all add: nth_append)
qed

section \<open>The compacted code\<close>

definition compacted :: "ival list \<Rightarrow> bytes \<Rightarrow> bytes" where
  "compacted ranges code =
     map ((!) (patch_code_branches code (length code) ranges)) (live_positions ranges 0 (length code))"

lemma excise_compacted:
  assumes ok: "jvm_code_ok code 0 (length code)" and ch: "chain 0 ranges (of_nat (length code))"
  shows "excise_ranges (patch_code_branches code (length code) ranges) ranges = Inr (compacted ranges code)"
    and "jvm_instr code 0 (length code) pc \<Longrightarrow>
      take (jvm_length code 0 pc) (drop pc (patch_code_branches code (length code) ranges)) = patched_instr ranges code pc"
proof -
  have i: "jvm_instr code 0 (length code) 0" by (rule jvm_instr.first)
  have len: "length code < 2 ^ 16" using ok by (simp add: jvm_code_ok_def)
  note pf = patch_from_instrs [OF ok _ refl refl, of 0 ranges]
  have l: "length (patch_code_branches code (length code) ranges) = length code"
    using pf i by (simp add: patch_code_branches_def)
  show "excise_ranges (patch_code_branches code (length code) ranges) ranges = Inr (compacted ranges code)"
    unfolding excise_ranges_def compacted_def using len ch l by (subst excise_from_live) simp_all
  show "jvm_instr code 0 (length code) pc \<Longrightarrow>
      take (jvm_length code 0 pc) (drop pc (patch_code_branches code (length code) ranges)) = patched_instr ranges code pc"
    using pf i by (simp add: patch_code_branches_def)
qed

text \<open>An instruction none of whose bytes is dead.\<close>

definition live_instr :: "ival list \<Rightarrow> bytes \<Rightarrow> nat \<Rightarrow> bool" where
  "live_instr ranges code pc \<longleftrightarrow> (\<forall>k < jvm_length code 0 pc. of_nat (pc + k) \<notin> dead_set ranges)"

lemma compacted_bytes:
  assumes ok: "jvm_code_ok code 0 (length code)" and ch: "chain 0 ranges (of_nat (length code))"
    and i: "jvm_instr code 0 (length code) pc" and live: "live_instr ranges code pc"
  shows "take (jvm_length code 0 pc) (drop (npos ranges pc) (compacted ranges code)) = patched_instr ranges code pc"
    and "npos ranges pc + jvm_length code 0 pc \<le> length (compacted ranges code)"
proof -
  let ?n = "jvm_length code 0 pc" and ?p = "patch_code_branches code (length code) ranges"
  note pc = jvm_code_okD [OF ok i]
  have np: "npos ranges (pc + k) = npos ranges pc + k" if "k \<le> ?n" for k
    by (rule npos_live_run) (use live that in \<open>auto simp: live_instr_def\<close>)
  have l: "npos ranges pc + k < length (compacted ranges code)"
    and nth: "compacted ranges code ! (npos ranges pc + k) = ?p ! (pc + k)" if "k < ?n" for k
    using live_positions_nth [of "pc + k" "length code" ranges] that pc(2) live np [of k]
    by (auto simp: live_instr_def compacted_def)
  show fit: "npos ranges pc + ?n \<le> length (compacted ranges code)" using l [of "?n - 1"] pc(3) by simp
  have lp: "length ?p = length code" using patch_from_instrs [OF ok _ refl refl, of 0 ranges] jvm_instr.first
    by (auto simp: patch_code_branches_def)
  have "take ?n (drop (npos ranges pc) (compacted ranges code)) = take ?n (drop pc ?p)"
    using fit pc(2) lp nth by (intro nth_equalityI) auto
  then show "take ?n (drop (npos ranges pc) (compacted ranges code)) = patched_instr ranges code pc"
    using excise_compacted(2) [OF ok ch i] by simp
qed

text \<open>A distance that fits a branch field still fits it.\<close>

lemma npos_distance:
  "\<bar>int (npos ranges t) - int (npos ranges pc)\<bar> \<le> \<bar>int t - int pc\<bar>"
  "(int (npos ranges t) - int (npos ranges pc)) * (int t - int pc) \<ge> 0"
  using npos_between [of pc t ranges] npos_between [of t pc ranges]
  by (auto simp: zero_le_mult_iff) (cases "pc \<le> t"; force)+

lemma sint_i32: "- (2 ^ 31) \<le> z \<Longrightarrow> z < 2 ^ 31 \<Longrightarrow> sint (word_of_int z :: i32) = z"
  by (simp only: sint_sbintrunc') (intro signed_take_bit_int_eq_self; simp)

lemma sint_i16: "- (2 ^ 15) \<le> z \<Longrightarrow> z < 2 ^ 15 \<Longrightarrow> sint (scast (ucast (word_of_int z :: i32) :: u16) :: i32) = z"
proof -
  assume z: "- (2 ^ 15) \<le> z" "z < 2 ^ 15"
  have "(ucast (word_of_int z :: i32) :: u16) = word_of_int z" by (transfer; simp)
  moreover have "sint (word_of_int z :: u16) = z"
    using z by (simp only: sint_sbintrunc') (intro signed_take_bit_int_eq_self; simp)
  ultimately show ?thesis using z by (simp add: scast_eq sint_i32)
qed

lemma sint_i16_bounds: "- (2 ^ 15) \<le> sint (read_i16_be d k)" "sint (read_i16_be d k) < 2 ^ 15"
proof -
  define w :: u16 where "w = from_be (take 2 (drop k d))"
  have b: "- (2 ^ 15) \<le> sint w" "sint w < 2 ^ 15" using sint_ge [of w] sint_lt [of w] by simp_all
  then have "sint (word_of_int (sint w) :: i32) = sint w" by (intro sint_i32) simp_all
  then have "sint (read_i16_be d k) = sint w" by (simp only: read_i16_be_def w_def [symmetric] scast_eq)
  then show "- (2 ^ 15) \<le> sint (read_i16_be d k)" "sint (read_i16_be d k) < 2 ^ 15" using b by simp_all
qed

text \<open>C13. Compacting the code of a method without switches keeps its control flow. An instruction with
  no dead byte stands at its position less the dead bytes before it, with the same opcode; a
  branch there jumps to where its old targets have moved, and any other instruction has the same
  bytes.\<close>

theorem compaction_keeps_branches:
  assumes ok: "jvm_code_ok code 0 (length code)" and ch: "chain 0 ranges (of_nat (length code))"
    and i: "jvm_instr code 0 (length code) pc" and live: "live_instr ranges code pc"
    and ns: "code ! pc \<notin> {0xAA, 0xAB}"
  shows "\<exists>out. excise_ranges (patch_code_branches code (length code) ranges) ranges = Inr out
    \<and> out ! npos ranges pc = code ! pc
    \<and> jvm_targets out 0 (npos ranges pc) = (\<lambda>t. int (npos ranges (nat t))) ` jvm_targets code 0 pc
    \<and> (short_branch (code ! pc) \<or> wide_branch (code ! pc)
       \<or> take (jvm_length code 0 pc) (drop (npos ranges pc) out) = take (jvm_length code 0 pc) (drop pc code))"
proof -
  let ?out = "compacted ranges code" and ?n = "jvm_length code 0 pc" and ?q = "npos ranges pc"
  note pc = jvm_code_okD [OF ok i] and cb = compacted_bytes [OF ok ch i live]
  have len: "length code < 2 ^ 16" using ok by (simp add: jvm_code_ok_def)
  have at: "take m (drop (?q + k) ?out) = take m (drop k (patched_instr ranges code pc))" if "k + m \<le> ?n" for k m
  proof -
    have "take m (drop k (take ?n (drop ?q ?out))) = take m (drop (?q + k) ?out)"
      using that by (simp add: drop_take add.commute)
    then show ?thesis unfolding cb(1) by simp
  qed
  have hd: "patched_instr ranges code pc ! 0 = code ! pc"
    using pc(2,3,5) by (simp add: patched_instr_def)
  have op: "?out ! ?q = code ! pc"
    using at [of 0 1] hd pc(3) cb(2) length_patched_instr [OF ok i, of ranges]
    by (cases "patched_instr ranges code pc") (auto simp: take_Suc_conv_app_nth hd_drop_conv_nth [symmetric] take_Suc)
  have t: "t \<in> jvm_targets code 0 pc \<Longrightarrow> 0 \<le> t \<and> nat t < length code" for t
    using jvm_code_okD(6) [OF ok i] jvm_code_okD(5) [OF ok] by force
  have mo: "moved_offset ranges pc old = word_of_int (int (npos ranges (nat t)) - int ?q)"
    if "t = int pc + sint old" "t \<in> jvm_targets code 0 pc" for t old
    using t [OF that(2)] that(1) len pc(5) by (intro moved_offset_eq [OF ch]) auto
  have small: "npos ranges x < 2 ^ 16" if "x \<le> length code" for x
    using that len by (simp add: npos_def)
  have tg: "jvm_targets ?out 0 ?q = (\<lambda>t. int (npos ranges (nat t))) ` jvm_targets code 0 pc"
  proof (cases "short_branch (code ! pc)")
    case True
    define t where "t = int pc + sint (read_i16_be code (pc + 1))"
    have jt: "jvm_targets code 0 pc = {t}" using True by (auto simp: jvm_targets_def t_def short_branch_def)
    have n3: "?n = 3" using True short_length [of code pc 0] by (auto simp: short_branch_def)
    define z where "z = int (npos ranges (nat t)) - int ?q"
    have tz: "0 \<le> t" "nat t < length code" using t [of t] jt by auto
    have "\<bar>z\<bar> \<le> \<bar>t - int pc\<bar>" "0 \<le> z * (t - int pc)"
      using npos_distance [of ranges "nat t" pc] tz by (simp_all add: z_def)
    then have "- (2 ^ 15) \<le> z \<and> z < 2 ^ 15"
      using sint_i16_bounds [of code "pc + 1"] by (auto simp: t_def zero_le_mult_iff)
    moreover have "read_i16_be ?out (?q + 1) = scast (ucast (word_of_int z :: i32) :: u16)"
      using at [of 1 2] n3 True mo [OF t_def] jt
      by (simp add: read_i16_be_def patched_instr_def from_be_to_be z_def)
    ultimately have "sint (read_i16_be ?out (?q + 1)) = z" by (simp add: sint_i16)
    then show ?thesis using True unfolding jt by (auto simp: jvm_targets_def op short_branch_def z_def)
  next
    case ns': False
    show ?thesis
    proof (cases "wide_branch (code ! pc)")
      case True
      define t where "t = int pc + sint (read_i32_be code (pc + 1))"
      have jt: "jvm_targets code 0 pc = {t}"
        using True ns' by (auto simp: jvm_targets_def t_def short_branch_def wide_branch_def)
      have n5: "?n = 5" using True wide_length by auto
      define z where "z = int (npos ranges (nat t)) - int ?q"
      have tz: "0 \<le> t" "nat t < length code" using t [of t] jt by auto
      have "- (2 ^ 31) \<le> z \<and> z < 2 ^ 31" using small [of "nat t"] small [of pc] tz pc(5) by (simp add: z_def)
      moreover have "read_i32_be ?out (?q + 1) = word_of_int z"
        using at [of 1 4] n5 True ns' mo [OF t_def] jt
        by (simp add: read_i32_be_def patched_instr_def from_be_to_be z_def)
      ultimately have "sint (read_i32_be ?out (?q + 1)) = z" by (simp add: sint_i32)
      then show ?thesis using True ns' unfolding jt by (auto simp: jvm_targets_def op short_branch_def wide_branch_def z_def)
    next
      case False
      then show ?thesis using ns' ns by (auto simp: jvm_targets_def op short_branch_def wide_branch_def Let_def)
    qed
  qed
  have "take ?n (drop ?q ?out) = take ?n (drop pc code)" if "\<not> short_branch (code ! pc)" "\<not> wide_branch (code ! pc)"
    using cb(1) that by (simp add: patched_instr_def)
  then show ?thesis using excise_compacted(1) [OF ok ch] op tg by blast
qed

end
