(* ===== verification/Java_Dead.thy ===== *)
theory Java_Dead
  imports Java_Flow
begin

text \<open>
  What \<open>find_dead_branches\<close> promises, and the two kinds of method where the code it rests on goes
  wrong: exception handlers, which the scan does not know, and switches in code that does not
  start at a multiple of four.
\<close>



end
