(* ===== verification/Java_Example.thy ===== *)
theory Java_Example
  imports Java_Live Java_Moves Java_Dead
begin

text \<open>
  A class with three methods, \<open>public f()V\<close>, \<open>private f(I)V\<close> and \<open>public g()V\<close>, each of them
  a single \<open>return\<close>, on which the theorems about classes are applied; and small methods that show
  where the analysis goes wrong.
\<close>

section \<open>The class\<close>

definition ex_method :: "u8 \<Rightarrow> u8 \<Rightarrow> u8 \<Rightarrow> bytes" where
  "ex_method access name desc =
     [0, access, 0, name, 0, desc, 0, 1, 0, 1, 0, 0, 0, 13, 0, 0, 0, 0, 0, 0, 0, 1, 0xB1, 0, 0, 0, 0]"

definition ex_class :: bytes where
  "ex_class =
     [0xCA, 0xFE, 0xBA, 0xBE, 0, 0, 0, 52, 0, 6]
     @ [1, 0, 4, 0x43, 0x6F, 0x64, 0x65] @ [1, 0, 1, 0x66] @ [1, 0, 3, 0x28, 0x29, 0x56]
     @ [1, 0, 4, 0x28, 0x49, 0x29, 0x56] @ [1, 0, 1, 0x67] @ [0, 0x21, 0, 0, 0, 0, 0, 0, 0, 0, 0, 3]
     @ ex_method 1 2 3 @ ex_method 2 2 4 @ ex_method 1 5 3 @ [0, 0]"

definition ex_info :: "u16 \<Rightarrow> u16 \<Rightarrow> u16 \<Rightarrow> nat \<Rightarrow> method_info" where
  "ex_info access name desc p =
     \<lparr>m_access = access, name_index = name, descriptor_index = desc, code_offset = Some (p + 22), code_length = 1,
      code_attr_offset = Some (p + 8), exception_table_len = 0, raw_offset = p, raw_size = 27\<rparr>"

definition ex_pool :: "cp_entry list" where
  "ex_pool = [Placeholder, Utf8 ''Code'', Utf8 ''f'', Utf8 ''()V'', Utf8 ''(I)V'', Utf8 ''g'']"

definition ex_cf :: class_file where
  "ex_cf = \<lparr>constant_pool = ex_pool, c_access = 0x21,
     methods = [ex_info 1 2 3 50, ex_info 2 2 4 77, ex_info 1 5 3 104], methods_count_offset = 48, total_size = 133\<rparr>"

lemma from_be_16: "(from_be [a, b] :: u16) = push_bit 8 (ucast a) OR ucast b"
  by (simp add: from_be_def or.commute)

lemma from_be_32: "(from_be [a, b, c, d] :: u32) =
    push_bit 24 (ucast a) OR push_bit 16 (ucast b) OR push_bit 8 (ucast c) OR ucast d"
  by (simp add: from_be_def ac_simps)

lemmas eval_reads = read_u16_def read_u32_def count16_def count32_def from_be_16 from_be_32

declare utf8_lossy.simps(2) [simp del]

lemma ex_java_names: "map char_of [67, 111, 100, 101 :: nat] = ''Code''" "map char_of [102 :: nat] = ''f''"
  "map char_of [40, 41, 86 :: nat] = ''()V''" "map char_of [40, 73, 41, 86 :: nat] = ''(I)V''"
  "map char_of [103 :: nat] = ''g''"
  by code_simp+

lemma ex_entries: "cp_entries ex_class 6 1 10 = Inr (tl ex_pool, 38)"
  using ex_java_names
  by (simp add: cp_entries.simps cp_entry_at_def ex_class_def ex_method_def ex_pool_def eval_reads slots_def utf8_ascii str_of_def)

lemma ex_method_at:
  shows "method_ok ex_pool (ex_method access name desc)"
    and "method_of ex_pool (ex_method access name desc) p = ex_info (ucast access) (ucast name) (ucast desc) p"
    and "length (ex_method access name desc) = 27"
  by (simp_all add: method_ok_def method_of_def ex_method_def ex_info_def eval_reads attr_name_def ex_pool_def
      code_at_def no_code_def)

lemma ex_java_parse: "parse_classfile ex_class = Inr ex_cf"
proof -
  have c: "count16 ex_class 8 = 6" "count16 ex_class 46 = 0" "count16 ex_class 44 = 0" "count16 ex_class 48 = 3"
    "count16 ex_class 131 = 0"
    "read_u32 ex_class 0 = 0xCAFEBABE" "read_u16 ex_class 38 = 0x21" "length ex_class = 133"
    by (simp_all add: ex_class_def ex_method_def eval_reads)
  define bss where "bss = [ex_method 1 2 3, ex_method 2 2 4, ex_method 1 5 3]"
  have "ex_class = take 50 ex_class @ concat bss @ [0, 0]"
    by (simp add: ex_class_def ex_method_def bss_def)
  moreover have "length (take 50 ex_class) = 50" using c by simp
  ultimately have "stands_at ex_class 50 (concat bss)" unfolding stands_at_def by blast
  then have "parse_methods ex_class ex_pool (length bss) 50 = Inr (methods_at ex_pool bss 50, 50 + length (concat bss))"
    by (rule parse_methods_at) (simp add: bss_def ex_method_at)
  moreover have "length bss = 3" "50 + length (concat bss) = 131" "methods_at ex_pool bss 50 = methods ex_cf"
    by (simp_all add: bss_def ex_method_at ex_cf_def)
  ultimately have "parse_methods ex_class ex_pool 3 50 = Inr (methods ex_cf, 131)" by simp
  then show ?thesis
    using ex_entries c by (simp add: parse_classfile_def parse_constant_pool_def skip_fields_or_methods_def ex_cf_def
        ex_pool_def skip_attributes_def)
qed

lemma ex_tidy: "tidy ex_class ex_cf"
proof -
  have "take 27 (drop 50 ex_class) = ex_method 1 2 3" "take 27 (drop 77 ex_class) = ex_method 2 2 4"
    "take 27 (drop 104 ex_class) = ex_method 1 5 3" "length ex_class = 133"
    by (simp_all add: ex_class_def ex_method_def)
  then show ?thesis by (simp add: tidy_def ex_cf_def ex_info_def ex_method_at)
qed

lemma ex_live: "bfs_live ex_class ex_cf = [0, 2]"
proof -
  have "ex_class ! 72 = 0xB1" "ex_class ! 99 = 0xB1" "ex_class ! 126 = 0xB1" "length ex_class = 133"
    by (simp_all add: ex_class_def ex_method_def)
  then have "call_graph ex_class ex_cf = [(0, []), (1, []), (2, [])]"
    by (simp add: call_graph_def ex_cf_def ex_info_def upt_rec map_filter_def scan_bytecode_calls_def scan_calls.simps
        call_at_def call_length_def opcode_length_def one_byte_def between_def)
  moreover have "filter (\<lambda>i. is_root ex_cf (methods ex_cf ! i)) [0..<length (methods ex_cf)] = [0, 2]"
    by (simp add: ex_cf_def ex_info_def is_root_def method_name_def cp_utf8_def ex_pool_def exported_def upt_rec)
  ultimately show ?thesis by (simp add: bfs_live_def bfs_def set_insert_def)
qed

section \<open>Witnesses\<close>

theorem live_overload_removed_witness:
  "0 \<in> set (bfs_live ex_class ex_cf) \<and> 0 \<in> set (dead_indices ex_cf (find_dead_methods ex_class ex_cf))"
  using live_overload_removed [of 0 ex_cf 1 ex_class]
  by (simp add: ex_live) (simp add: ex_cf_def ex_info_def method_name_def cp_utf8_def ex_pool_def)


theorem reassembled_class_parses_witness:
  "\<exists>out saved cf'. reassemble_java ex_class [(''f'', 77, 27)] [] = Some (out, 2, saved, 0, 0)
     \<and> parse_classfile out = Inr cf' \<and> methods cf' = [ex_info 1 5 3 50]"
  using reassembled_class_parses [OF ex_java_parse ex_tidy, of "[(''f'', 77, 27)]"]
  by (fastforce simp: ex_cf_def ex_info_def method_name_def cp_utf8_def ex_pool_def dead_indices_def live_methods_def
      relocate_def upt_rec)

section \<open>A method with a dead region\<close>

text \<open>\<open>goto 5; nop; nop; return\<close>, then an empty exception table.\<close>

definition ex_code :: bytes where
  "ex_code = [0xA7, 0, 5, 0, 0, 0xB1]"

definition ex_one :: "nat \<Rightarrow> nat \<Rightarrow> class_file" where
  "ex_one off len = \<lparr>constant_pool = [], c_access = 0,
     methods = [\<lparr>m_access = 1, name_index = 0, descriptor_index = 0, code_offset = Some off, code_length = len,
       code_attr_offset = Some 0, exception_table_len = 0, raw_offset = 0, raw_size = 0\<rparr>],
     methods_count_offset = 0, total_size = 0\<rparr>"

lemma ex_lengths: "fixed_lengths ! 0xA7 = 3" "fixed_lengths ! 0 = 1" "fixed_lengths ! 0xB1 = 1"
  "fixed_lengths ! 0x6C = 1" "fixed_lengths ! 0x4C = 1" "fixed_lengths ! 0xB8 = 3"
  by code_simp+

lemmas ex_evals = jvm_length_def jvm_targets_def between_def handler_pcs_def from_be_16 from_be_32 read_i16_be_def
  read_i32_be_def read_u16_be_def switch_operands_def switch_pad_def

lemma ex_code_instr: "jvm_instr (ex_code @ t) 0 6 pos \<Longrightarrow> pos \<in> {0, 3, 4, 5}"
proof (induction rule: jvm_instr.induct)
  case (next_instr pos)
  then show ?case by (auto simp: ex_code_def jvm_length_def ex_lengths)
qed simp

lemma ex_code_ok: "t = [] \<or> t = [0, 0] \<Longrightarrow> jvm_code_ok (ex_code @ t) 0 6"
proof -
  assume t: "t = [] \<or> t = [0, 0]"
  have l: "jvm_length (ex_code @ t) 0 0 = 3" "jvm_length (ex_code @ t) 0 3 = 1" "jvm_length (ex_code @ t) 0 4 = 1"
    "jvm_length (ex_code @ t) 0 5 = 1"
    by (simp_all add: ex_code_def jvm_length_def ex_lengths)
  have "jvm_instr (ex_code @ t) 0 6 3" using jvm_instr.next_instr [of "ex_code @ t" 0 6 0] jvm_instr.first [of "ex_code @ t" 0 6] l by simp
  then have "jvm_instr (ex_code @ t) 0 6 4" using jvm_instr.next_instr [of "ex_code @ t" 0 6 3] l by simp
  then have "jvm_instr (ex_code @ t) 0 6 5" using jvm_instr.next_instr [of "ex_code @ t" 0 6 4] l by simp
  moreover have "jvm_targets (ex_code @ t) 0 0 = {5}" "jvm_targets (ex_code @ t) 0 3 = {}"
    "jvm_targets (ex_code @ t) 0 4 = {}" "jvm_targets (ex_code @ t) 0 5 = {}"
    by (simp_all add: ex_code_def ex_evals)
  moreover have "handler_pcs (ex_code @ t) 6 = {}" using t by (auto simp: ex_code_def handler_pcs_def eval_reads)
  moreover have "(ex_code @ t) ! pos < 0xCA" if "pos \<in> {0, 3, 4, 5}" for pos using that by (auto simp: ex_code_def)
  ultimately have each: "(ex_code @ t) ! pos < 0xCA \<and> pos + jvm_length (ex_code @ t) 0 pos \<le> 6
      \<and> (\<forall>u \<in> jvm_targets (ex_code @ t) 0 pos. 0 \<le> u \<and> 0 + nat u < 6 \<and> jvm_instr (ex_code @ t) 0 6 (0 + nat u))"
    and none: "handler_pcs (ex_code @ t) 6 = {}" if "pos \<in> {0, 3, 4, 5}" for pos
    using l that by (elim insertE emptyE; simp)+
  show "jvm_code_ok (ex_code @ t) 0 6"
    unfolding jvm_code_ok_def
  proof (intro conjI allI impI)
    fix pos assume "jvm_instr (ex_code @ t) 0 6 pos"
    note e = each [OF ex_code_instr [OF this]]
    show "(ex_code @ t) ! pos < 0xCA" "pos + jvm_length (ex_code @ t) 0 pos \<le> 6"
      "\<forall>u \<in> jvm_targets (ex_code @ t) 0 pos. 0 \<le> u \<and> 0 + nat u < 6 \<and> jvm_instr (ex_code @ t) 0 6 (0 + nat u)"
      using e by blast+
  qed (use none [of 0] in simp_all)
qed




theorem compaction_keeps_branches_witness:
  "\<exists>out. excise_ranges (patch_code_branches ex_code 6 [(3, 5)]) [(3, 5)] = Inr out
     \<and> out ! 0 = 0xA7 \<and> jvm_targets out 0 0 = {3}"
proof -
  have ok: "jvm_code_ok ex_code 0 (length ex_code)"
  proof -
    have "length ex_code = 6" by (simp add: ex_code_def)
    then show ?thesis using ex_code_ok [of "[]"] by simp
  qed
  have ch: "chain 0 [(3, 5)] (of_nat (length ex_code))" by (simp add: ex_code_def)
  have len: "jvm_length ex_code 0 0 = 3" "length ex_code = 6" by (simp_all add: jvm_length_def ex_code_def ex_lengths)
  have live: "live_instr [(3, 5)] ex_code 0"
  proof -
    have "of_nat k \<notin> dead_set [(3, 5)]" if k: "k < 3" for k
    proof -
      from k consider "k = 0" | "k = 1" | "k = 2" by linarith
      then show ?thesis by cases (simp_all add: word_le_nat_alt)
    qed
    then show ?thesis by (simp add: live_instr_def len)
  qed
  have np: "npos [(3, 5)] 0 = 0" "npos [(3, 5)] 5 = 3"
  proof -
    show z: "npos [(3, 5)] 0 = 0" by (simp add: npos_def)
    have "npos [(3, 5)] (Suc (Suc (Suc (Suc (Suc 0))))) = 3" by (simp add: npos_Suc z word_le_nat_alt)
    then show "npos [(3, 5)] 5 = 3" by (simp add: eval_nat_numeral)
  qed
  have op: "ex_code ! 0 = 0xA7" by (simp add: ex_code_def)
  have tg: "jvm_targets ex_code 0 0 = {5}" by (simp add: ex_code_def ex_evals)
  show ?thesis
    using compaction_keeps_branches [OF ok ch jvm_instr.first live] op by (auto simp: len np tg)
qed

section \<open>Where the analysis goes wrong\<close>

text \<open>An exception handler at 4, which only the exception table names, behind a \<open>goto\<close>:
  \<open>idiv; goto 6; astore_1; return; return\<close>, with one entry in the exception table.\<close>

definition ex_handler :: bytes where
  "ex_handler = [0x6C, 0xA7, 0, 5, 0x4C, 0xB1, 0xB1, 0, 1, 0, 0, 0, 1, 0, 4, 0, 0]"

text \<open>C16. The scan for dead branches does not know exception handlers: it reports the code of a handler
  behind a jump, which the virtual machine runs when the exception is thrown.\<close>

theorem handler_reported_dead:
  "\<exists>b \<in> set (find_dead_branches ex_handler (ex_one 0 7) [0]). jvm_reach ex_handler 0 7 (unat (db_addr b))"
proof -
  have "find_dead_branches ex_handler (ex_one 0 7) [0] = [\<lparr>db_func = [], db_addr = 4, db_size = 2\<rparr>]"
    by (simp add: find_dead_branches_def ex_one_def scan_dead_in_method_def ex_handler_def collect_branch_targets_def
        collect_targets.simps scan_dead.simps opcode_length_def instr_targets_def cond_branch_def between_def
        one_byte_def two_bytes_def three_bytes_def from_be_16 read_i16_be_def is_terminator_def dead_region_def cp_utf8_def)
  moreover have "4 \<in> handler_pcs ex_handler 7"
    by (auto simp: handler_pcs_def ex_handler_def eval_reads image_iff intro!: bexI [of _ 0])
  ultimately show ?thesis using jvm_reach.handler [of 4 ex_handler 7 0] by simp
qed

text \<open>A \<open>lookupswitch\<close> without pairs at position 1 of the file, whose default is the call at 13.\<close>

definition ex_switch :: bytes where
  "ex_switch = [0, 0xAB, 0, 0, 0, 0, 0, 0, 12, 0, 0, 0, 0, 0xB8, 0, 1, 0xB1, 0xB1, 0xB1, 0xB1]"

definition ex_switch_cf :: class_file where
  "ex_switch_cf = \<lparr>constant_pool = [Placeholder, Methodref 0 2, NameAndType 3 4, Utf8 ''h'', Utf8 ''()V''], c_access = 0,
     methods = [\<lparr>m_access = 1, name_index = 0, descriptor_index = 0, code_offset = Some 1, code_length = 19,
         code_attr_offset = Some 0, exception_table_len = 0, raw_offset = 0, raw_size = 0\<rparr>,
       \<lparr>m_access = 2, name_index = 3, descriptor_index = 4, code_offset = None, code_length = 0,
         code_attr_offset = None, exception_table_len = 0, raw_offset = 0, raw_size = 0\<rparr>],
     methods_count_offset = 0, total_size = 0\<rparr>"

text \<open>C17. The length of a switch is computed from its position in the file, not in its code: behind a
  switch the scan loses the instructions, here a call the virtual machine makes, so that the
  method it calls is reported dead.\<close>

theorem switch_hides_call:
  "jvm_reach ex_switch 1 20 13 \<and> ex_switch ! 13 = 0xB8
   \<and> resolve_method_idx ex_switch_cf (read_u16_be ex_switch 14) = Some 1
   \<and> 1 \<notin> set (bfs_live ex_switch ex_switch_cf)"
proof -
  have "12 \<in> jvm_targets ex_switch 1 1" by (simp add: ex_switch_def ex_evals)
  then have "jvm_reach ex_switch 1 20 13" using jvm_reach.jump [OF jvm_reach.entry, of 12 ex_switch 1 20] by simp
  moreover have "call_graph ex_switch ex_switch_cf = [(0, [])]"
    by (simp add: call_graph_def ex_switch_cf_def ex_switch_def upt_rec map_filter_def scan_bytecode_calls_def
        scan_calls.simps call_at_def call_length_def opcode_length_def one_byte_def two_bytes_def three_bytes_def
        between_def switch_pad_def lookup_count_def read_i32_be_def from_be_32 word_sless_alt)
  then have "bfs_live ex_switch ex_switch_cf = [0]"
    by (simp add: bfs_live_def bfs_def set_insert_def ex_switch_cf_def is_root_def method_name_def cp_utf8_def
        exported_def upt_rec)
  ultimately show ?thesis
    by (simp add: ex_switch_def resolve_method_idx_def ex_switch_cf_def read_u16_be_def from_be_16 cp_utf8_def)
qed

text \<open>A class file that ends after the tag of a method handle makes the parser, and with it the
  analysis, panic.\<close>

theorem truncated_method_handle_panics:
  "analyze_java [0xCA, 0xFE, 0xBA, 0xBE, 0, 0, 0, 52, 0, 2, 15] = None"
  by (simp add: analyze_java_def with_class_def parse_classfile_def parse_constant_pool_def eval_reads
      cp_entries.simps cp_entry_at_def)

end
