(* ===== verification/Spec2Isabelle.thy ===== *)
theory Spec2Isabelle
  imports Types Intervals Defrag Relocation Compact DataPtrs ZeroFill Disp_Fields Patching Aarch64 Arm32 Mips LoongArch S390x RiscV RiscV_Pairs Arch Reachability Callgraph Lattice Cfg Cfg_Blocks Cfg_Dead Regstate Regstate_A64 Regstate_Others Regstate_Dispatch Sccp Sccp_Sound Sccp_Dead Results Relr_Elf Relr Relr_Code Relr_Table Relr_Writes Relr_Image Relr_Pack Relr_Loader Relr_Dynamic Relr_Drain Relr_Example Java_Class Java_Bytecode Java_Compact Java Java_Flow Java_Rebuild Java_Live Java_Moves Java_Dead Java_Example
begin

text \<open>
  A verification development for \<open>trim\<close>, which removes dead code from compiled binaries: it decodes
  the code, finds the functions and blocks that nothing reaches, removes their bytes from the file
  and repairs every offset and pointer that the removal moves.

  \<^bold>\<open>Conventions.\<close> Definitions keep the names of the Rust functions; where two modules share a name a
  prefix tells them apart (\<open>a64_\<close>, \<open>arm_\<close>, \<open>mips_\<close>, \<open>la_\<close>, \<open>s390x_\<close>, \<open>rv_\<close>). Integers are words of
  their width and arithmetic is that of the release profile (it wraps) on a 64-bit target. A panic
  is a value: \<open>None\<close>, or \<open>Inl Panic\<close> where the function has an absent result of its own; an \<open>Err\<close> is
  an \<open>Inl\<close> of a datatype of errors (the texts of the messages are not modelled). A hash map or set
  is a list in the order in which it is iterated, which no result depends on. Loops are \<open>function\<close>s
  with a termination proof, so every definition is total and every result is produced.

  \<^bold>\<open>What compaction does to addresses\<close> (\<open>src/patch/\<close>).
  \<open>Intervals\<close> has the dead intervals of \<open>relocs.rs\<close> and the shift of an address; \<open>Defrag\<close> the growth of
  the intervals over padding; \<open>Relocation\<close> the interface between them and the patchers (the locale
  \<open>relocation\<close>, interpreted on the plans of the program) and the properties of the shift: it counts
  the dead bytes, keeps the order of addresses and never moves two of them apart. \<open>Compact\<close> has
  \<open>compact.rs\<close>: the fit check accepts exactly the well-formed plans, and the file that comes out is the
  old one without the dead bytes. \<open>DataPtrs\<close> (\<open>data_ptrs.rs\<close>, \<open>decode/scan.rs\<close>) and \<open>ZeroFill\<close>
  (\<open>zerofill.rs\<close>) describe every byte they change and every byte they leave.

  \<^bold>\<open>Decoders and branch patchers\<close> (\<open>src/arch/\<close>).
  \<open>Disp_Fields\<close> states what a displacement field is (\<open>disp_field\<close>, \<open>bit_field\<close>) and \<open>Patching\<close> what a
  patcher of one instruction promises (\<open>branch_patcher\<close>, \<open>section_patcher\<close>); their lemmas are proved
  once and interpreted for \<open>Aarch64\<close>, \<open>Arm32\<close>, \<open>Mips\<close>, \<open>LoongArch\<close>, \<open>S390x\<close> and \<open>RiscV\<close>. The result for
  each architecture: an instruction of live code whose bytes are read back from the patched section
  decodes, at its new address, to the moved targets. \<open>RiscV_Pairs\<close> treats the AUIPC pairs. \<open>Arch\<close> is
  the dispatch of \<open>arch/mod.rs\<close>; the x86 decoder, which is the crate iced-x86, is a parameter there.

  \<^bold>\<open>Which code is dead\<close> (\<open>src/analysis/\<close>, \<open>src/decode/\<close>).
  \<open>Reachability\<close> (\<open>roots.rs\<close>, \<open>reachability.rs\<close>) and \<open>Callgraph\<close> (\<open>callgraph.rs\<close>): the live set is the least
  one closed under references and aliases, and references from live code stay in live code. \<open>Cfg\<close>
  (\<open>cfg.rs\<close>, \<open>noreturn.rs\<close>) with \<open>Cfg_Blocks\<close> and \<open>Cfg_Dead\<close>: the blocks tile their function and the blocks
  removed are never entered. \<open>Lattice\<close>, \<open>Regstate\<close> with \<open>Regstate_A64\<close>, \<open>Regstate_Others\<close> and
  \<open>Regstate_Dispatch\<close>, and \<open>Sccp\<close> are the constant propagation (\<open>lattice.rs\<close>, \<open>regstate.rs\<close>, \<open>sccp.rs\<close>);
  \<open>Sccp_Sound\<close> proves the invariant of its worklist and \<open>Sccp_Dead\<close> that no execution on machine values
  enters a block reported dead. The worklist is bounded as in the source, by 20 rounds per block; a
  function on which it has not come to rest is skipped, so the bound costs no soundness.

  \<^bold>\<open>RELR packing\<close> (\<open>src/format/elf/relr.rs\<close>).
  \<open>Results\<close> has the error monad and checked fields of bytes; \<open>Relr_Elf\<close> the ELF reader, \<open>Relr\<close> the planning
  and writing. \<open>Relr_Code\<close> proves the round trip of the bitmap code, \<open>Relr_Table\<close>, \<open>Relr_Writes\<close> and
  \<open>Relr_Pack\<close> the effect of each write, \<open>Relr_Image\<close> and \<open>Relr_Loader\<close> that a loader finds the same words
  in memory, \<open>Relr_Dynamic\<close> the dynamic section, \<open>Relr_Drain\<close> the shortened file; \<open>Relr_Example\<close> runs the
  whole rewrite on a small file. The chains of version records are bounded as in the source
  (\<open>MAX_VERSIONS\<close>, names of 4096 bytes), and exceeding a bound is a refusal.

  \<^bold>\<open>Java class files\<close> (\<open>src/format/java/\<close>).
  \<open>Java_Class\<close> is the parser, \<open>Java_Bytecode\<close> and \<open>Java_Compact\<close> the two halves of \<open>bytecode.rs\<close>, \<open>Java\<close> the
  driver. \<open>Java_Flow\<close> states the control flow of the virtual machine and \<open>Java_Dead\<close> that reported
  regions are never run; \<open>Java_Live\<close> characterises the dead methods, \<open>Java_Rebuild\<close> shows that a
  reassembled class parses again, \<open>Java_Moves\<close> that compacted code keeps its branches; \<open>Java_Example\<close> has
  the examples and the inputs on which the analysis goes wrong.

  \<^bold>\<open>Not modelled.\<close> The drivers of the formats other than Java read their headers through the crate
  goblin, x86 code is decoded and re-encoded by iced-x86, and WebAssembly is parsed by wasmparser;
  these drivers are mostly calls of crates whose source is not here. The dominator tree and the SSA form
  (\<open>dominance.rs\<close>, \<open>ssa.rs\<close>) are computed by nothing that uses the result. The inference of function
  bounds in stripped files (\<open>decode/infer.rs\<close>), the NativeAOT and .NET readers, the command line and
  file handling (\<open>lib.rs\<close>, \<open>main.rs\<close>) are left for later work.
\<close>

end
